(* ===== verification/Prelude.thy ===== *)
theory Prelude
  imports Main "HOL-Library.Word" "HOL-Library.Monad_Syntax"
begin

text \<open>
  Shared vocabulary of the development.

  \<^item> Types. A byte of text is a \<open>char\<close> (8 bits), so a Rust byte string is a \<open>string\<close>. A Rust
    \<open>char\<close> is its code point. \<open>u16\<close> and \<open>usize\<close> quantities are \<open>nat\<close> with the width written
    out in the operations below; \<open>u8\<close> numbers are \<open>8 word\<close>.
  \<^item> Panics. An operation that can panic (index out of range, arithmetic overflow, a failed
    assertion) has an \<open>option\<close> result and \<open>None\<close> is the panic. Overflow and
    \<open>debug_assert!\<close> count as panics, as in a debug build; where the theorems show that they never
    happen, release and debug builds agree.
  \<^item> The \<open>returns\<close> calculus: \<open>returns m Q\<close> says that \<open>m\<close> does not panic and that its result
    satisfies \<open>Q\<close>. It is a weakest precondition for the option monad, and its equations are
    simplification rules. \<open>returns_or b m Q\<close> admits a panic when \<open>b\<close> holds.
  \<^item> Loops over a range or a collection: \<open>iter\<close> and \<open>foldm\<close>.
  \<^item> The interfaces \<open>total_step\<close>, \<open>total_steps\<close> (operations that never panic and keep an
    invariant) and \<open>bounded_push\<close> (a queue that never exceeds its capacity).
\<close>

named_theorems safe_intro \<open>facts of the form \<open>returns (op \<dots>) wf\<close>, for the dispatch proofs\<close>

type_synonym byte = char
type_synonym bytes = "char list"
type_synonym rchar = nat

subsection \<open>Fixed-width arithmetic\<close>

abbreviation u16_max :: nat where "u16_max \<equiv> 65535"

definition as_u16 :: "nat \<Rightarrow> nat" where
  "as_u16 n = n mod 65536"

definition sat_add16 :: "nat \<Rightarrow> nat \<Rightarrow> nat" where
  "sat_add16 a b = min (a + b) u16_max"

text \<open>\<open>saturating_sub\<close> is subtraction on \<open>nat\<close>; the unchecked operators panic on overflow.\<close>

definition add16 :: "nat \<Rightarrow> nat \<Rightarrow> nat option" where
  "add16 a b = (if a + b \<le> u16_max then Some (a + b) else None)"

definition usub :: "nat \<Rightarrow> nat \<Rightarrow> nat option" where
  "usub a b = (if b \<le> a then Some (a - b) else None)"

lemma as_u16_id [simp]: "n < 65536 \<Longrightarrow> as_u16 n = n"
  by (simp add: as_u16_def)

lemma as_u16_less [simp]: "as_u16 n < 65536"
  by (simp add: as_u16_def)

lemma unat8_less: "unat (n :: 8 word) < 256"
  by (rule less_le_trans[OF unsigned_less]) simp

lemma sat_add16_le: "sat_add16 a b \<le> u16_max"
  by (simp add: sat_add16_def)

subsection \<open>Vectors\<close>

definition vget :: "'a list \<Rightarrow> nat \<Rightarrow> 'a option" where
  "vget xs i = (if i < length xs then Some (xs ! i) else None)"

definition vset :: "nat \<Rightarrow> 'a \<Rightarrow> 'a list \<Rightarrow> 'a list option" where
  "vset i x xs = (if i < length xs then Some (xs[i := x]) else None)"

definition remove_at :: "nat \<Rightarrow> 'a list \<Rightarrow> 'a list" where
  "remove_at i xs = take i xs @ drop (Suc i) xs"

definition insert_at :: "nat \<Rightarrow> 'a \<Rightarrow> 'a list \<Rightarrow> 'a list" where
  "insert_at i x xs = take i xs @ x # drop i xs"

text \<open>\<open>Vec::remove\<close> and \<open>Vec::insert\<close> panic beyond the length; \<open>Vec::resize\<close> never does.\<close>

definition vremove :: "nat \<Rightarrow> 'a list \<Rightarrow> 'a list option" where
  "vremove i xs = (if i < length xs then Some (remove_at i xs) else None)"

definition vinsert :: "nat \<Rightarrow> 'a \<Rightarrow> 'a list \<Rightarrow> 'a list option" where
  "vinsert i x xs = (if i \<le> length xs then Some (insert_at i x xs) else None)"

definition vresize :: "nat \<Rightarrow> 'a \<Rightarrow> 'a list \<Rightarrow> 'a list" where
  "vresize n x xs = take n xs @ replicate (n - length xs) x"

lemma length_remove_at [simp]: "i < length xs \<Longrightarrow> length (remove_at i xs) = length xs - 1"
  by (simp add: remove_at_def)

lemma length_insert_at [simp]: "i \<le> length xs \<Longrightarrow> length (insert_at i x xs) = Suc (length xs)"
  by (simp add: insert_at_def)

lemma set_remove_at: "set (remove_at i xs) \<subseteq> set xs"
  unfolding remove_at_def using set_take_subset set_drop_subset by fastforce

lemma set_insert_at: "set (insert_at i x xs) = insert x (set xs)"
  by (simp add: insert_at_def) (metis append_take_drop_id set_append)

lemma length_vresize [simp]: "length (vresize n x xs) = n"
  by (simp add: vresize_def)

lemma set_vresize: "set (vresize n x xs) \<subseteq> insert x (set xs)"
  by (auto simp: vresize_def dest: in_set_takeD)

lemma list_all_update [simp]: "list_all P xs \<Longrightarrow> P v \<Longrightarrow> list_all P (xs[i := v])"
  using set_update_subset_insert[of xs i v] by (auto simp: list_all_iff)

lemma list_all_replicate [simp]: "P v \<Longrightarrow> list_all P (replicate n v)"
  by (simp add: list_all_iff)

lemma list_all_remove_at [simp]: "list_all P xs \<Longrightarrow> list_all P (remove_at i xs)"
  using set_remove_at[of i xs] by (auto simp: list_all_iff)

lemma list_all_insert_at [simp]: "list_all P (insert_at i v xs) \<longleftrightarrow> P v \<and> list_all P xs"
  by (auto simp: list_all_iff set_insert_at)

lemma list_all_vresize [simp]: "list_all P xs \<Longrightarrow> P v \<Longrightarrow> list_all P (vresize n v xs)"
  using set_vresize[of n v xs] by (auto simp: list_all_iff)

lemma list_all_take [simp]: "list_all P xs \<Longrightarrow> list_all P (take n xs)"
  by (auto simp: list_all_iff dest: in_set_takeD)

lemma list_all_drop [simp]: "list_all P xs \<Longrightarrow> list_all P (drop n xs)"
  by (auto simp: list_all_iff dest: in_set_dropD)

lemma list_all_butlast [simp]: "list_all P xs \<Longrightarrow> list_all P (butlast xs)"
  by (auto simp: list_all_iff dest: in_set_butlastD)

lemma list_all_tl [simp]: "list_all P xs \<Longrightarrow> list_all P (tl xs)"
  by (cases xs) auto

lemma list_all_nth: "list_all P xs \<Longrightarrow> i < length xs \<Longrightarrow> P (xs ! i)"
  by (simp add: list_all_length)

lemma nth_remove_at:
  "i < length xs \<Longrightarrow> j < length xs - 1 \<Longrightarrow> remove_at i xs ! j = (if j < i then xs ! j else xs ! Suc j)"
  by (auto simp: remove_at_def nth_append)

lemma nth_insert_at:
  "i \<le> length xs \<Longrightarrow> j \<le> length xs \<Longrightarrow>
   insert_at i x xs ! j = (if j < i then xs ! j else if j = i then x else xs ! (j - 1))"
  by (auto simp: insert_at_def nth_append nth_Cons')

lemma nth_vresize:
  "j < n \<Longrightarrow> vresize n x xs ! j = (if j < length xs then xs ! j else x)"
  by (auto simp: vresize_def nth_append)

lemma drop_insert_at:
  "k \<le> i \<Longrightarrow> i \<le> length xs \<Longrightarrow> drop k (insert_at i x xs) = insert_at (i - k) x (drop k xs)"
  by (simp add: insert_at_def drop_take)

lemma take_insert_at: "k \<le> i \<Longrightarrow> i \<le> length xs \<Longrightarrow> take k (insert_at i x xs) = take k xs"
  by (simp add: insert_at_def)

lemma drop_remove_at:
  "k \<le> i \<Longrightarrow> i < length xs \<Longrightarrow> drop k (remove_at i xs) = remove_at (i - k) (drop k xs)"
  by (simp add: remove_at_def drop_take Suc_diff_le)

lemma take_remove_at: "k \<le> i \<Longrightarrow> i < length xs \<Longrightarrow> take k (remove_at i xs) = take k xs"
  by (simp add: remove_at_def)

lemma bind_assoc_option: "(m \<bind> f) \<bind> h = m \<bind> (\<lambda>x. f x \<bind> h)" for m :: "'a option"
  by (cases m) simp_all

lemma bind_chain: "m \<bind> f = Some v \<Longrightarrow> m \<bind> (\<lambda>x. f x \<bind> k) = k v" for m :: "'a option"
  by (cases m) simp_all

subsection \<open>The \<open>returns\<close> calculus\<close>

definition returns :: "'a option \<Rightarrow> ('a \<Rightarrow> bool) \<Rightarrow> bool" where
  "returns m Q \<longleftrightarrow> (\<exists>x. m = Some x \<and> Q x)"

lemma returns_Some [simp]: "returns (Some x) Q = Q x"
  by (simp add: returns_def)

lemma returns_None [simp]: "\<not> returns None Q"
  by (simp add: returns_def)

lemma returns_bind [simp]: "returns (m \<bind> f) Q = returns m (\<lambda>x. returns (f x) Q)"
  by (cases m) simp_all

lemma returns_if: "returns (if b then m else n) Q = (if b then returns m Q else returns n Q)"
  by simp

lemma returns_ifI: "(b \<Longrightarrow> returns m Q) \<Longrightarrow> (\<not> b \<Longrightarrow> returns n Q) \<Longrightarrow> returns (if b then m else n) Q"
  by simp

lemma returns_SomeI: "Q x \<Longrightarrow> returns (Some x) Q"
  by simp

lemma returns_usub [simp]: "returns (usub a b) Q \<longleftrightarrow> b \<le> a \<and> Q (a - b)"
  by (simp add: usub_def)

lemma returns_add16 [simp]: "returns (add16 a b) Q \<longleftrightarrow> a + b \<le> u16_max \<and> Q (a + b)"
  by (simp add: add16_def)

lemma returns_vget [simp]: "returns (vget xs i) Q \<longleftrightarrow> i < length xs \<and> Q (xs ! i)"
  by (simp add: vget_def)

lemma returns_vset [simp]: "returns (vset i x xs) Q \<longleftrightarrow> i < length xs \<and> Q (xs[i := x])"
  by (simp add: vset_def)

lemma returns_vremove [simp]: "returns (vremove i xs) Q \<longleftrightarrow> i < length xs \<and> Q (remove_at i xs)"
  by (simp add: vremove_def)

lemma returns_vinsert [simp]: "returns (vinsert i x xs) Q \<longleftrightarrow> i \<le> length xs \<and> Q (insert_at i x xs)"
  by (simp add: vinsert_def)

lemma returns_mono: "returns m P \<Longrightarrow> (\<And>x. P x \<Longrightarrow> Q x) \<Longrightarrow> returns m Q"
  by (auto simp: returns_def)

lemma returns_conj: "returns m P \<Longrightarrow> returns m Q \<Longrightarrow> returns m (\<lambda>x. P x \<and> Q x)"
  by (auto simp: returns_def)

lemma returns_bindI: "returns m P \<Longrightarrow> (\<And>x. P x \<Longrightarrow> returns (f x) Q) \<Longrightarrow> returns (m \<bind> f) Q"
  by (auto simp: returns_def)

lemma returns_SomeD: "returns m Q \<Longrightarrow> m = Some x \<Longrightarrow> Q x"
  by (simp add: returns_def)

lemma returnsE:
  assumes "returns m Q" obtains x where "m = Some x" "Q x"
  using assms by (auto simp: returns_def)

lemma returns_the: "returns m Q \<longleftrightarrow> m \<noteq> None \<and> Q (the m)"
  by (auto simp: returns_def)

text \<open>\<open>returns_or b m Q\<close>: the result of \<open>m\<close> satisfies \<open>Q\<close>, and it panics only if \<open>b\<close>.\<close>

definition returns_or :: "bool \<Rightarrow> 'a option \<Rightarrow> ('a \<Rightarrow> bool) \<Rightarrow> bool" where
  "returns_or b m Q \<longleftrightarrow> (case m of Some x \<Rightarrow> Q x | None \<Rightarrow> b)"

lemma returns_or_Some [simp]: "returns_or b (Some x) Q = Q x"
  by (simp add: returns_or_def)

lemma returns_or_None [simp]: "returns_or b None Q = b"
  by (simp add: returns_or_def)

lemma returns_or_bind [simp]: "returns_or b (m \<bind> f) Q = returns_or b m (\<lambda>x. returns_or b (f x) Q)"
  by (cases m) simp_all

lemma returns_or_False: "returns_or False m Q = returns m Q"
  by (cases m) simp_all

lemma returns_orI: "returns m Q \<Longrightarrow> returns_or b m Q"
  by (cases m) simp_all

lemma returns_or_returns: "returns_or b m Q \<Longrightarrow> \<not> b \<Longrightarrow> returns m Q"
  by (cases m) simp_all

lemma returns_or_ifI: "(b \<Longrightarrow> returns_or d m Q) \<Longrightarrow> (\<not> b \<Longrightarrow> returns_or d n Q) \<Longrightarrow> returns_or d (if b then m else n) Q"
  by simp

lemma returns_or_mono:
  "returns_or b m P \<Longrightarrow> (\<And>x. P x \<Longrightarrow> Q x) \<Longrightarrow> (b \<Longrightarrow> d) \<Longrightarrow> returns_or d m Q"
  by (cases m) simp_all

lemma returns_or_bindI: "returns_or b m P \<Longrightarrow> (\<And>x. P x \<Longrightarrow> returns_or b (f x) Q) \<Longrightarrow> returns_or b (m \<bind> f) Q"
  by (cases m) simp_all

subsection \<open>Loops\<close>

text \<open>\<open>for _ in 0..n { step }\<close> and \<open>for x in xs { step x }\<close>, stopping at a panic.\<close>

primrec iter :: "nat \<Rightarrow> ('s \<Rightarrow> 's option) \<Rightarrow> 's \<Rightarrow> 's option" where
  "iter 0 f s = Some s"
| "iter (Suc n) f s = f s \<bind> iter n f"

primrec foldm :: "('a \<Rightarrow> 's \<Rightarrow> 's option) \<Rightarrow> 'a list \<Rightarrow> 's \<Rightarrow> 's option" where
  "foldm f [] s = Some s"
| "foldm f (x # xs) s = f x s \<bind> foldm f xs"

lemma iter_Some: "iter n (\<lambda>s. Some (f s)) s = Some ((f ^^ n) s)"
  by (induction n arbitrary: s) (simp_all add: funpow_swap1)

lemma foldm_append: "foldm f (xs @ ys) s = foldm f xs s \<bind> foldm f ys"
  by (induction xs arbitrary: s) (auto simp: Option.bind_eq_None_conv split: bind_splits)

locale total_step =
  fixes I :: "'s \<Rightarrow> bool"
    and step :: "'s \<Rightarrow> 's option"
  assumes step_total: "I s \<Longrightarrow> returns (step s) I"
begin

lemma iter_total: "I s \<Longrightarrow> returns (iter n step s) I"
proof (induction n arbitrary: s)
  case 0
  then show ?case by simp
next
  case (Suc n)
  show ?case
    using step_total[OF Suc.prems] by (simp, elim returns_mono) (rule Suc.IH)
qed

end

locale total_steps =
  fixes I :: "'s \<Rightarrow> bool"
    and input :: "'a \<Rightarrow> bool"
    and step :: "'a \<Rightarrow> 's \<Rightarrow> 's option"
  assumes step_total: "I s \<Longrightarrow> input x \<Longrightarrow> returns (step x s) I"
begin

lemma foldm_total: "I s \<Longrightarrow> list_all input xs \<Longrightarrow> returns (foldm step xs s) I"
proof (induction xs arbitrary: s)
  case Nil
  then show ?case by simp
next
  case (Cons x xs)
  then have "returns (step x s) I" by (simp add: step_total)
  with Cons show ?case by (simp, elim returns_mono) simp
qed

end

lemma foldm_inv:
  assumes "I s" and "\<And>x s. x \<in> set xs \<Longrightarrow> I s \<Longrightarrow> returns (step x s) I"
  shows "returns (foldm step xs s) I"
  using assms
proof (induction xs arbitrary: s)
  case Nil
  then show ?case by simp
next
  case (Cons x xs)
  have "returns (step x s) I" using Cons.prems by simp
  then show ?case
    by (simp, elim returns_mono) (rule Cons.IH, use Cons.prems in auto)
qed

lemma foldm_or:
  assumes "I s" and "\<And>x s. x \<in> set xs \<Longrightarrow> I s \<Longrightarrow> returns_or b (step x s) I"
  shows "returns_or b (foldm step xs s) I"
  using assms
proof (induction xs arbitrary: s)
  case (Cons x xs)
  have "returns_or b (step x s) I" using Cons.prems by simp
  then show ?case by simp (erule returns_or_mono, rule Cons.IH, use Cons.prems in auto)
qed simp

lemma iter_or: "I s \<Longrightarrow> (\<And>s. I s \<Longrightarrow> returns_or b (step s) I) \<Longrightarrow> returns_or b (iter n step s) I"
proof (induction n arbitrary: s)
  case (Suc n)
  show ?case by simp (rule returns_or_mono[OF Suc.prems(2)[OF Suc.prems(1)]], rule Suc.IH, use Suc.prems(2) in auto)
qed simp

subsection \<open>Bounded queues\<close>

text \<open>
  The contract the emulator's outgoing queues share: pushing never makes a queue longer than its
  capacity, only appends to what is kept, and keeps a suffix of the old content.
\<close>

locale bounded_push =
  fixes push :: "'a \<Rightarrow> 'a list \<Rightarrow> 'a list"
    and cap :: nat
  assumes push_bound: "length q \<le> cap \<Longrightarrow> length (push x q) \<le> cap"
    and push_order: "\<exists>k. push x q = drop k q \<or> push x q = drop k q @ [x]"
begin

lemma fold_push_bound: "length q \<le> cap \<Longrightarrow> length (fold push xs q) \<le> cap"
  by (induction xs arbitrary: q) (simp_all add: push_bound)

lemma push_set: "set (push x q) \<subseteq> insert x (set q)"
proof -
  obtain k where "push x q = drop k q \<or> push x q = drop k q @ [x]"
    using push_order by blast
  then show ?thesis using set_drop_subset[of k q] by auto
qed

end

definition push_drop_new :: "nat \<Rightarrow> 'a \<Rightarrow> 'a list \<Rightarrow> 'a list" where
  "push_drop_new m x q = (if length q < m then q @ [x] else q)"

definition push_drop_old :: "nat \<Rightarrow> 'a \<Rightarrow> 'a list \<Rightarrow> 'a list" where
  "push_drop_old m x q = (if m \<le> length q then tl q @ [x] else q @ [x])"

lemma push_drop_new_contract: "bounded_push (push_drop_new m) m"
proof
  show "length q \<le> m \<Longrightarrow> length (push_drop_new m x q) \<le> m" for q :: "'a list" and x
    by (simp add: push_drop_new_def)
  have "push_drop_new m x q = drop 0 q \<or> push_drop_new m x q = drop 0 q @ [x]" for x and q :: "'a list"
    by (simp add: push_drop_new_def)
  then show "\<exists>k. push_drop_new m x q = drop k q \<or> push_drop_new m x q = drop k q @ [x]" for x and q :: "'a list"
    by blast
qed

lemma push_drop_old_contract: "0 < m \<Longrightarrow> bounded_push (push_drop_old m) m"
proof
  assume m: "0 < m"
  show "length q \<le> m \<Longrightarrow> length (push_drop_old m x q) \<le> m" for q :: "'a list" and x
    using m by (cases q) (auto simp: push_drop_old_def)
  have "push_drop_old m x q = drop (if m \<le> length q then 1 else 0) q @ [x]" for x and q :: "'a list"
    by (simp add: push_drop_old_def drop_Suc)
  then show "\<exists>k. push_drop_old m x q = drop k q \<or> push_drop_old m x q = drop k q @ [x]" for x and q :: "'a list"
    by blast
qed

end
