(* ===== verification/Style.thy ===== *)
theory Style
  imports Prelude
begin

text \<open>
  \<open>src/src/screen/style.rs\<close>: colours, underline styles and text attributes; the decimal writers;
  the SGR writer \<open>write_sgr_with_reset_to\<close> and the SGR interpreter \<open>apply_sgr\<close>; the interning
  table \<open>StyleTable\<close> with its free list and garbage collection (\<open>reclaim\<close>).

  Shown here: reading back the parameters of a written style gives the style (round trip);
  interning and reclaiming keep the table well formed and never change how a live identifier
  resolves.
\<close>

subsection \<open>Data\<close>

datatype underline_style = UNone | USingle | UDouble | UCurly | UDotted | UDashed

fun from_sgr :: "8 word \<Rightarrow> underline_style" where
  "from_sgr n =
     (if n = 0 then UNone else if n = 1 then USingle else if n = 2 then UDouble
      else if n = 3 then UCurly else if n = 4 then UDotted else if n = 5 then UDashed
      else USingle)"

fun sgr_param :: "underline_style \<Rightarrow> 8 word" where
  "sgr_param UNone = 0"
| "sgr_param USingle = 1"
| "sgr_param UDouble = 2"
| "sgr_param UCurly = 3"
| "sgr_param UDotted = 4"
| "sgr_param UDashed = 5"

datatype color = Indexed "8 word" | Rgb "8 word" "8 word" "8 word"

record style =
  bold :: bool
  dim :: bool
  italic :: bool
  underline :: underline_style
  blink :: bool
  inverse_video :: bool
  strikethrough :: bool
  hidden :: bool
  fg :: "color option"
  bg :: "color option"
  underline_color :: "color option"

definition style_default :: style where
  "style_default = \<lparr>bold = False, dim = False, italic = False, underline = UNone, blink = False,
     inverse_video = False, strikethrough = False, hidden = False,
     fg = None, bg = None, underline_color = None\<rparr>"

definition style_is_default :: "style \<Rightarrow> bool" where
  "style_is_default s \<longleftrightarrow> s = style_default"

subsection \<open>Writing SGR sequences\<close>

definition digit :: "nat \<Rightarrow> byte" where
  "digit d = char_of (48 + d)"

definition write_u8 :: "8 word \<Rightarrow> bytes" where
  "write_u8 n =
     (if 100 \<le> unat n then [digit (unat n div 100)] else [])
     @ (if 10 \<le> unat n then [digit (unat n div 10 mod 10)] else [])
     @ [digit (unat n mod 10)]"

definition write_u16 :: "nat \<Rightarrow> bytes" where
  "write_u16 n =
     (if 10000 \<le> n then [digit (n div 10000)] else [])
     @ (if 1000 \<le> n then [digit (n div 1000 mod 10)] else [])
     @ (if 100 \<le> n then [digit (n div 100 mod 10)] else [])
     @ (if 10 \<le> n then [digit (n div 10 mod 10)] else [])
     @ [digit (n mod 10)]"

text \<open>The output buffer together with the \<open>need_sep\<close> flag; \<open>sgr_sep\<close> is the \<open>sep!\<close> macro.\<close>

type_synonym sgr_out = "bytes \<times> bool"

fun sgr_sep :: "bytes \<Rightarrow> sgr_out \<Rightarrow> sgr_out" where
  "sgr_sep bs (out, need_sep) = (out @ (if need_sep then '';'' else []) @ bs, True)"

fun write_color_to :: "color option \<Rightarrow> 8 word \<Rightarrow> 8 word \<Rightarrow> bytes \<Rightarrow> sgr_out \<Rightarrow> sgr_out" where
  "write_color_to (Some (Indexed c)) base bright_base extended st =
     (if c < 8 then sgr_sep (write_u8 (base + c)) st
      else if c < 16 then sgr_sep (write_u8 (bright_base + c - 8)) st
      else sgr_sep (extended @ '';5;'' @ write_u8 c) st)"
| "write_color_to (Some (Rgb r g b)) base bright_base extended st =
     sgr_sep (extended @ '';2;'' @ write_u8 r @ '';'' @ write_u8 g @ '';'' @ write_u8 b) st"
| "write_color_to None base bright_base extended st = st"

definition write_sgr_to :: "style \<Rightarrow> sgr_out \<Rightarrow> sgr_out" where
  "write_sgr_to s st0 =
     (let st = st0;
          st = (if bold s then sgr_sep ''1'' st else st);
          st = (if dim s then sgr_sep ''2'' st else st);
          st = (if italic s then sgr_sep ''3'' st else st);
          st = (case underline s of
                  UNone \<Rightarrow> st
                | USingle \<Rightarrow> sgr_sep ''4'' st
                | other \<Rightarrow> sgr_sep (''4:'' @ [digit (unat (sgr_param other))]) st);
          st = (if blink s then sgr_sep ''5'' st else st);
          st = (if inverse_video s then sgr_sep ''7'' st else st);
          st = (if hidden s then sgr_sep ''8'' st else st);
          st = (if strikethrough s then sgr_sep ''9'' st else st);
          st = write_color_to (fg s) 30 90 ''38'' st;
          st = write_color_to (bg s) 40 100 ''48'' st
      in case underline_color s of
           None \<Rightarrow> st
         | Some (Indexed c) \<Rightarrow> sgr_sep (''58;5;'' @ write_u8 c) st
         | Some (Rgb r g b) \<Rightarrow>
             sgr_sep (''58;2;'' @ write_u8 r @ '';'' @ write_u8 g @ '';'' @ write_u8 b) st)"

definition ESC :: byte where "ESC = CHR 0x1B"

definition write_sgr_with_reset_to :: "style \<Rightarrow> bytes \<Rightarrow> bytes" where
  "write_sgr_with_reset_to s out =
     (if style_is_default s then out @ [ESC] @ ''[0m''
      else fst (write_sgr_to s (out @ [ESC] @ ''[0'', True)) @ ''m'')"

definition to_sgr_with_reset :: "style \<Rightarrow> bytes" where
  "to_sgr_with_reset s = write_sgr_with_reset_to s []"

definition to_sgr :: "style \<Rightarrow> bytes" where
  "to_sgr s = (if style_is_default s then [] else fst (write_sgr_to s ([ESC] @ ''['', False)) @ ''m'')"

subsection \<open>Interpreting SGR parameters\<close>

definition first_or0 :: "nat list \<Rightarrow> nat" where
  "first_or0 p = (case p of [] \<Rightarrow> 0 | x # _ \<Rightarrow> x)"

text \<open>
  \<open>parse_extended_color\<close> looks at the parameter at the current index (first argument) and at those
  after it (second argument). It returns the colour and by how much it advances the index.
\<close>

definition parse_extended_color :: "nat list \<Rightarrow> nat list list \<Rightarrow> color option \<times> nat" where
  "parse_extended_color sub rest =
     (if 1 < length sub then
        (if 3 \<le> length sub \<and> sub ! 1 = 5 then (Some (Indexed (of_nat (sub ! 2))), 0)
         else if sub ! 1 = 2 \<and> 6 \<le> length sub then
           (Some (Rgb (of_nat (sub ! 3)) (of_nat (sub ! 4)) (of_nat (sub ! 5))), 0)
         else if sub ! 1 = 2 \<and> 5 \<le> length sub then
           (Some (Rgb (of_nat (sub ! 2)) (of_nat (sub ! 3)) (of_nat (sub ! 4))), 0)
         else (None, 0))
      else if 0 < length rest then
        (let mode = first_or0 (rest ! 0) in
         if mode = 5 \<and> 1 < length rest then (Some (Indexed (of_nat (first_or0 (rest ! 1)))), 2)
         else if mode = 2 \<and> 3 < length rest then
           (Some (Rgb (of_nat (first_or0 (rest ! 1))) (of_nat (first_or0 (rest ! 2)))
                      (of_nat (first_or0 (rest ! 3)))), 4)
         else (None, 0))
      else (None, 0))"

text \<open>One round of the \<open>while\<close> loop: the new style and the extra advance of the index.\<close>

definition sgr_step :: "nat list \<Rightarrow> nat list list \<Rightarrow> style \<Rightarrow> style \<times> nat" where
  "sgr_step q rest s =
     (let p = first_or0 q; ext = parse_extended_color q rest in
      if p = 0 then (style_default, 0)
      else if p = 1 then (s\<lparr>bold := True\<rparr>, 0)
      else if p = 2 then (s\<lparr>dim := True\<rparr>, 0)
      else if p = 3 then (s\<lparr>italic := True\<rparr>, 0)
      else if p = 4 then
        (s\<lparr>underline := (if 1 < length q then from_sgr (of_nat (q ! 1)) else USingle)\<rparr>, 0)
      else if p = 5 \<or> p = 6 then (s\<lparr>blink := True\<rparr>, 0)
      else if p = 7 then (s\<lparr>inverse_video := True\<rparr>, 0)
      else if p = 8 then (s\<lparr>hidden := True\<rparr>, 0)
      else if p = 9 then (s\<lparr>strikethrough := True\<rparr>, 0)
      else if p = 21 then (s\<lparr>underline := UDouble\<rparr>, 0)
      else if p = 22 then (s\<lparr>bold := False, dim := False\<rparr>, 0)
      else if p = 23 then (s\<lparr>italic := False\<rparr>, 0)
      else if p = 24 then (s\<lparr>underline := UNone\<rparr>, 0)
      else if p = 25 then (s\<lparr>blink := False\<rparr>, 0)
      else if p = 27 then (s\<lparr>inverse_video := False\<rparr>, 0)
      else if p = 28 then (s\<lparr>hidden := False\<rparr>, 0)
      else if p = 29 then (s\<lparr>strikethrough := False\<rparr>, 0)
      else if 30 \<le> p \<and> p \<le> 37 then (s\<lparr>fg := Some (Indexed (of_nat (p - 30)))\<rparr>, 0)
      else if p = 38 then
        (case fst ext of None \<Rightarrow> (s, snd ext) | Some c \<Rightarrow> (s\<lparr>fg := Some c\<rparr>, snd ext))
      else if p = 39 then (s\<lparr>fg := None\<rparr>, 0)
      else if 40 \<le> p \<and> p \<le> 47 then (s\<lparr>bg := Some (Indexed (of_nat (p - 40)))\<rparr>, 0)
      else if p = 48 then
        (case fst ext of None \<Rightarrow> (s, snd ext) | Some c \<Rightarrow> (s\<lparr>bg := Some c\<rparr>, snd ext))
      else if p = 49 then (s\<lparr>bg := None\<rparr>, 0)
      else if p = 58 then
        (case fst ext of None \<Rightarrow> (s, snd ext) | Some c \<Rightarrow> (s\<lparr>underline_color := Some c\<rparr>, snd ext))
      else if p = 59 then (s\<lparr>underline_color := None\<rparr>, 0)
      else if 90 \<le> p \<and> p \<le> 97 then (s\<lparr>fg := Some (Indexed (of_nat (p - 90 + 8)))\<rparr>, 0)
      else if 100 \<le> p \<and> p \<le> 107 then (s\<lparr>bg := Some (Indexed (of_nat (p - 100 + 8)))\<rparr>, 0)
      else (s, 0))"

function apply_sgr_loop :: "nat list list \<Rightarrow> style \<Rightarrow> style" where
  "apply_sgr_loop [] s = s"
| "apply_sgr_loop (p # rest) s =
     apply_sgr_loop (drop (snd (sgr_step p rest s)) rest) (fst (sgr_step p rest s))"
  by pat_completeness auto
termination
  by (relation "measure (\<lambda>(ps, s). length ps)") auto

definition apply_sgr :: "nat list list \<Rightarrow> style \<Rightarrow> style" where
  "apply_sgr params s = (if params = [] then style_default else apply_sgr_loop params s)"

subsection \<open>The style table\<close>

record style_table_t =
  styles :: "style list"
  style_index :: "style \<rightharpoonup> nat"
  free_slots :: "nat list"

definition style_table_new :: style_table_t where
  "style_table_new = \<lparr>styles = [style_default], style_index = Map.empty, free_slots = []\<rparr>"

definition intern :: "style \<Rightarrow> style_table_t \<Rightarrow> (nat \<times> style_table_t) option" where
  "intern s t =
     (if style_is_default s then Some (0, t)
      else case style_index t s of
        Some i \<Rightarrow> Some (i, t)
      | None \<Rightarrow>
          (if free_slots t \<noteq> [] then
             do { let i = last (free_slots t);
                  ss \<leftarrow> vset i s (styles t);
                  Some (i, t\<lparr>styles := ss, style_index := (style_index t)(s \<mapsto> i),
                              free_slots := butlast (free_slots t)\<rparr>) }
           else if length (styles t) > u16_max then Some (0, t)
           else
             (let i = as_u16 (length (styles t))
              in Some (i, t\<lparr>styles := styles t @ [s], style_index := (style_index t)(s \<mapsto> i)\<rparr>))))"

definition style_get :: "style_table_t \<Rightarrow> nat \<Rightarrow> style" where
  "style_get t i = (if i < length (styles t) then styles t ! i else style_default)"

definition style_capacity :: "style_table_t \<Rightarrow> nat" where
  "style_capacity t = length (styles t)"

definition style_is_full :: "style_table_t \<Rightarrow> bool" where
  "style_is_full t \<longleftrightarrow> length (styles t) > u16_max \<and> free_slots t = []"

definition reclaim_slot :: "bool list \<Rightarrow> nat \<Rightarrow> style_table_t \<Rightarrow> style_table_t" where
  "reclaim_slot live i t =
     (if i < length live \<and> \<not> live ! i
      then t\<lparr>style_index := (style_index t)(styles t ! i := None),
             free_slots := free_slots t @ [as_u16 i]\<rparr>
      else t)"

definition reclaim :: "bool list \<Rightarrow> style_table_t \<Rightarrow> style_table_t" where
  "reclaim live t = fold (reclaim_slot live) [1..<length (styles t)] (t\<lparr>free_slots := []\<rparr>)"

definition style_table_reset :: "style_table_t \<Rightarrow> style_table_t" where
  "style_table_reset t = t\<lparr>styles := [style_default], style_index := Map.empty, free_slots := []\<rparr>"

subsection \<open>Decimal digits\<close>

text \<open>Reading a decimal number, the specification of the two writers.\<close>

definition read_dec :: "bytes \<Rightarrow> nat" where
  "read_dec bs = foldl (\<lambda>a c. 10 * a + (of_char c - 48)) 0 bs"

definition is_digit :: "byte \<Rightarrow> bool" where
  "is_digit c \<longleftrightarrow> 48 \<le> (of_char c :: nat) \<and> (of_char c :: nat) \<le> 57"

lemma of_char_digit [simp]: "d < 10 \<Longrightarrow> of_char (digit d) = (48 + d :: nat)"
  by (simp add: digit_def)

lemma is_digit_digit [simp]: "d < 10 \<Longrightarrow> is_digit (digit d)"
  by (simp add: is_digit_def)

lemma read_dec_write_u16: "n \<le> u16_max \<Longrightarrow> read_dec (write_u16 n) = n"
proof -
  assume n: "n \<le> u16_max"
  have q: "n div 100 = n div 10 div 10" "n div 1000 = n div 10 div 10 div 10"
    "n div 10000 = n div 10 div 10 div 10 div 10"
    by (simp_all add: div_mult2_eq[symmetric])
  define a where "a = n div 10"
  define b where "b = a div 10"
  define c where "c = b div 10"
  define d where "d = c div 10"
  have "n = 10 * a + n mod 10" "a = 10 * b + a mod 10" "b = 10 * c + b mod 10" "c = 10 * d + c mod 10"
    "d < 10"
    using n unfolding a_def b_def c_def d_def by simp_all
  then show ?thesis
    by (auto simp: read_dec_def write_u16_def q a_def[symmetric] b_def[symmetric] c_def[symmetric]
        d_def[symmetric])
qed

lemma digits_write_u16: "n \<le> u16_max \<Longrightarrow> \<forall>c\<in>set (write_u16 n). is_digit c"
  by (auto simp: write_u16_def)

lemma write_u8_u16: "write_u8 n = write_u16 (unat n)"
  using unat8_less[of n] by (simp add: write_u8_def write_u16_def)

lemma read_dec_write_u8: "read_dec (write_u8 n) = unat n"
  using unat8_less[of n] by (simp add: write_u8_u16 read_dec_write_u16)

lemma digits_write_u8: "\<forall>c\<in>set (write_u8 n). is_digit c"
  unfolding write_u8_u16 by (rule digits_write_u16) (use unat8_less[of n] in simp)

subsection \<open>Reading SGR parameters back\<close>

text \<open>
  The parameter syntax of ECMA-48: parameters separated by semicolons, subparameters by colons.
  This is the specification side of the round trip; the emulator gets its parameters from the
  \<open>vte\<close> parser.
\<close>

fun split_on :: "byte \<Rightarrow> bytes \<Rightarrow> bytes list" where
  "split_on c [] = [[]]"
| "split_on c (x # xs) =
     (if x = c then [] # split_on c xs
      else case split_on c xs of [] \<Rightarrow> [[x]] | y # ys \<Rightarrow> (x # y) # ys)"

definition read_params :: "bytes \<Rightarrow> nat list list" where
  "read_params bs = map (map read_dec \<circ> split_on CHR '':'') (split_on CHR '';'' bs)"

lemma split_on_no_sep: "c \<notin> set xs \<Longrightarrow> split_on c xs = [xs]"
  by (induction xs) auto

lemma split_on_append: "c \<notin> set xs \<Longrightarrow> split_on c (xs @ c # ys) = xs # split_on c ys"
  by (induction xs) auto

lemma split_on_segments:
  "\<forall>x\<in>set (b # bs). c \<notin> set x \<Longrightarrow> split_on c (b @ concat (map (\<lambda>x. c # x) bs)) = b # bs"
  by (induction bs arbitrary: b) (auto simp: split_on_no_sep split_on_append)

text \<open>The text of one parameter, a list of byte values.\<close>

fun show_param :: "8 word list \<Rightarrow> bytes" where
  "show_param [] = []"
| "show_param [n] = write_u8 n"
| "show_param (n # ns) = write_u8 n @ '':'' @ show_param ns"

lemma digit_not_sep: "is_digit c \<Longrightarrow> c \<noteq> CHR '';'' \<and> c \<noteq> CHR '':''"
  by (auto simp: is_digit_def)

lemma write_u8_no_sep [simp]: "CHR '';'' \<notin> set (write_u8 n)" "CHR '':'' \<notin> set (write_u8 n)"
  using digits_write_u8[of n] digit_not_sep by blast+

lemma show_param_no_semicolon [simp]: "CHR '';'' \<notin> set (show_param ns)"
  by (induction ns rule: show_param.induct) auto

lemma read_show_param:
  "ns \<noteq> [] \<Longrightarrow> map read_dec (split_on CHR '':'' (show_param ns)) = map unat ns"
proof (induction ns rule: show_param.induct)
  case (2 n)
  then show ?case by (simp add: split_on_no_sep read_dec_write_u8)
next
  case (3 n m ns)
  then show ?case by (simp add: split_on_append read_dec_write_u8)
qed simp

lemma read_params_show:
  assumes "\<forall>p\<in>set (q # ps). p \<noteq> []"
  shows "read_params (show_param q @ concat (map (\<lambda>p. CHR '';'' # show_param p) ps))
           = map (map unat) (q # ps)"
proof -
  have "split_on CHR '';'' (show_param q @ concat (map (\<lambda>x. CHR '';'' # x) (map show_param ps)))
          = map show_param (q # ps)"
    by (subst split_on_segments) auto
  then have "split_on CHR '';'' (show_param q @ concat (map (\<lambda>p. CHR '';'' # show_param p) ps))
          = map show_param (q # ps)"
    by (simp add: comp_def)
  then show ?thesis
    using assms by (simp add: read_params_def read_show_param)
qed

text \<open>The parameters a style is written as.\<close>

fun color_params :: "color option \<Rightarrow> 8 word \<Rightarrow> 8 word \<Rightarrow> 8 word \<Rightarrow> 8 word list list" where
  "color_params (Some (Indexed c)) base bright_base extended =
     (if c < 8 then [[base + c]] else if c < 16 then [[bright_base + c - 8]]
      else [[extended], [5], [c]])"
| "color_params (Some (Rgb r g b)) base bright_base extended = [[extended], [2], [r], [g], [b]]"
| "color_params None base bright_base extended = []"

fun ext_color_params :: "color option \<Rightarrow> 8 word list list" where
  "ext_color_params (Some (Indexed c)) = [[58], [5], [c]]"
| "ext_color_params (Some (Rgb r g b)) = [[58], [2], [r], [g], [b]]"
| "ext_color_params None = []"

fun underline_params :: "underline_style \<Rightarrow> 8 word list list" where
  "underline_params UNone = []"
| "underline_params USingle = [[4]]"
| "underline_params u = [[4, sgr_param u]]"

definition attr_params :: "style \<Rightarrow> 8 word list list" where
  "attr_params s =
     (if bold s then [[1]] else []) @ (if dim s then [[2]] else []) @ (if italic s then [[3]] else [])
     @ underline_params (underline s)
     @ (if blink s then [[5]] else []) @ (if inverse_video s then [[7]] else [])
     @ (if hidden s then [[8]] else []) @ (if strikethrough s then [[9]] else [])"

definition sgr_params :: "style \<Rightarrow> 8 word list list" where
  "sgr_params s = attr_params s @ color_params (fg s) 30 90 38 @ color_params (bg s) 40 100 48
     @ ext_color_params (underline_color s)"

abbreviation seps :: "8 word list list \<Rightarrow> bytes" where
  "seps ps \<equiv> concat (map (\<lambda>p. CHR '';'' # show_param p) ps)"

lemma write_u8_literals:
  "write_u8 1 = ''1''" "write_u8 2 = ''2''" "write_u8 3 = ''3''" "write_u8 4 = ''4''"
  "write_u8 5 = ''5''" "write_u8 7 = ''7''" "write_u8 8 = ''8''" "write_u8 9 = ''9''"
  "write_u8 0 = ''0''" "write_u8 38 = ''38''" "write_u8 48 = ''48''" "write_u8 58 = ''58''"
  by code_simp+

lemma digit_literals: "digit 2 = CHR ''2''" "digit 3 = CHR ''3''" "digit 4 = CHR ''4''" "digit 5 = CHR ''5''"
  by code_simp+

lemma write_color_to_params:
  "write_color_to c base bright_base (write_u8 e) (out, True)
     = (out @ seps (color_params c base bright_base e), True)"
  by (cases "(c, base, bright_base, write_u8 e, (out, True))" rule: write_color_to.cases)
    (simp_all add: write_u8_literals)

lemma underline_params_seps:
  "(case u of UNone \<Rightarrow> (out, True) | USingle \<Rightarrow> sgr_sep ''4'' (out, True)
     | other \<Rightarrow> sgr_sep (''4:'' @ [digit (unat (sgr_param other))]) (out, True))
   = (out @ seps (underline_params u), True)"
  by (cases u) (simp_all add: write_u8_literals digit_literals)

lemma write_sgr_to_params: "write_sgr_to s (out, True) = (out @ seps (sgr_params s), True)"
proof -
  have fg: "write_color_to c 30 90 ''38'' (o', True) = (o' @ seps (color_params c 30 90 38), True)" for c o'
    using write_color_to_params[of c 30 90 38 o'] by (simp add: write_u8_literals)
  have bg: "write_color_to c 40 100 ''48'' (o', True) = (o' @ seps (color_params c 40 100 48), True)" for c o'
    using write_color_to_params[of c 40 100 48 o'] by (simp add: write_u8_literals)
  have flag: "\<And>n b o'. (if b then sgr_sep (write_u8 n) (o', True) else (o', True))
      = (o' @ seps (if b then [[n]] else []), True)"
    by simp
  note flags = flag[where n = 1] flag[where n = 2] flag[where n = 3] flag[where n = 5] flag[where n = 7]
    flag[where n = 8] flag[where n = 9]
  show ?thesis
    unfolding write_sgr_to_def Let_def flags[unfolded write_u8_literals] underline_params_seps fg bg
    by (simp add: sgr_params_def attr_params_def write_u8_literals
        split: option.split color.split)
qed

subsection \<open>The SGR round trip\<close>

declare apply_sgr_loop.simps(2) [simp del]

lemma apply_sgr_loop_step:
  "sgr_step p r s = (t, k) \<Longrightarrow> apply_sgr_loop (p # r) s = apply_sgr_loop (drop k r) t"
  by (simp add: apply_sgr_loop.simps(2))

lemmas sgr_eval = sgr_step_def first_or0_def Let_def parse_extended_color_def

lemma apply_sgr_loop_flags:
  "apply_sgr_loop ([0] # r) s = apply_sgr_loop r style_default"
  "apply_sgr_loop ([Suc 0] # r) s = apply_sgr_loop r (s\<lparr>bold := True\<rparr>)"
  "apply_sgr_loop ([2] # r) s = apply_sgr_loop r (s\<lparr>dim := True\<rparr>)"
  "apply_sgr_loop ([3] # r) s = apply_sgr_loop r (s\<lparr>italic := True\<rparr>)"
  "apply_sgr_loop ([5] # r) s = apply_sgr_loop r (s\<lparr>blink := True\<rparr>)"
  "apply_sgr_loop ([7] # r) s = apply_sgr_loop r (s\<lparr>inverse_video := True\<rparr>)"
  "apply_sgr_loop ([8] # r) s = apply_sgr_loop r (s\<lparr>hidden := True\<rparr>)"
  "apply_sgr_loop ([9] # r) s = apply_sgr_loop r (s\<lparr>strikethrough := True\<rparr>)"
  by (simp_all add: apply_sgr_loop.simps(2) sgr_eval)

lemma apply_sgr_underline:
  "apply_sgr_loop (map (map unat) (underline_params u) @ r) s
     = apply_sgr_loop r (if u = UNone then s else s\<lparr>underline := u\<rparr>)"
  by (cases u) (simp_all add: apply_sgr_loop.simps(2) sgr_eval)

lemma unat_small_color:
  assumes "c < (8 :: 8 word)"
  shows "unat c < 8" "unat (30 + c) = 30 + unat c" "unat (40 + c) = 40 + unat c"
proof -
  show c: "unat c < 8" using assms by (simp add: word_less_nat_alt)
  then show "unat (30 + c) = 30 + unat c" "unat (40 + c) = 40 + unat c"
    by (simp_all add: unat_word_ariths)
qed

lemma unat_bright_color:
  assumes "\<not> c < (8 :: 8 word)" "c < 16"
  shows "8 \<le> unat c" "unat c < 16" "unat (82 + c) = 82 + unat c" "unat (92 + c) = 92 + unat c"
proof -
  show c: "8 \<le> unat c" "unat c < 16"
    using assms by (simp_all add: word_less_nat_alt)
  then show "unat (82 + c) = 82 + unat c" "unat (92 + c) = 92 + unat c"
    using c by (simp_all add: unat_word_ariths)
qed

lemma sgr_step_palette:
  "n < 8 \<Longrightarrow> sgr_step [30 + n] r s = (s\<lparr>fg := Some (Indexed (of_nat n))\<rparr>, 0)"
  "n < 8 \<Longrightarrow> sgr_step [40 + n] r s = (s\<lparr>bg := Some (Indexed (of_nat n))\<rparr>, 0)"
  "8 \<le> n \<Longrightarrow> n < 16 \<Longrightarrow> sgr_step [82 + n] r s = (s\<lparr>fg := Some (Indexed (of_nat n))\<rparr>, 0)"
  "8 \<le> n \<Longrightarrow> n < 16 \<Longrightarrow> sgr_step [92 + n] r s = (s\<lparr>bg := Some (Indexed (of_nat n))\<rparr>, 0)"
  by (simp_all add: sgr_step_def first_or0_def Let_def)

lemma sgr_step_extended:
  "sgr_step [38] ([5] # [n] # r) s = (s\<lparr>fg := Some (Indexed (of_nat n))\<rparr>, 2)"
  "sgr_step [48] ([5] # [n] # r) s = (s\<lparr>bg := Some (Indexed (of_nat n))\<rparr>, 2)"
  "sgr_step [58] ([5] # [n] # r) s = (s\<lparr>underline_color := Some (Indexed (of_nat n))\<rparr>, 2)"
  "sgr_step [38] ([2] # [x] # [y] # [z] # r) s = (s\<lparr>fg := Some (Rgb (of_nat x) (of_nat y) (of_nat z))\<rparr>, 4)"
  "sgr_step [48] ([2] # [x] # [y] # [z] # r) s = (s\<lparr>bg := Some (Rgb (of_nat x) (of_nat y) (of_nat z))\<rparr>, 4)"
  "sgr_step [58] ([2] # [x] # [y] # [z] # r) s
     = (s\<lparr>underline_color := Some (Rgb (of_nat x) (of_nat y) (of_nat z))\<rparr>, 4)"
  by (simp_all add: sgr_eval)

lemmas sgr_color_steps = sgr_step_palette[THEN apply_sgr_loop_step] sgr_step_extended[THEN apply_sgr_loop_step]

lemma apply_sgr_fg:
  "apply_sgr_loop (map (map unat) (color_params c 30 90 38) @ r) s
     = apply_sgr_loop r (case c of None \<Rightarrow> s | Some k \<Rightarrow> s\<lparr>fg := Some k\<rparr>)"
  by (cases "(c, 30 :: 8 word, 90 :: 8 word, 38 :: 8 word)" rule: color_params.cases)
    (simp_all add: sgr_color_steps unat_small_color unat_bright_color del: One_nat_def)

lemma apply_sgr_bg:
  "apply_sgr_loop (map (map unat) (color_params c 40 100 48) @ r) s
     = apply_sgr_loop r (case c of None \<Rightarrow> s | Some k \<Rightarrow> s\<lparr>bg := Some k\<rparr>)"
  by (cases "(c, 40 :: 8 word, 100 :: 8 word, 48 :: 8 word)" rule: color_params.cases)
    (simp_all add: sgr_color_steps unat_small_color unat_bright_color)

lemma apply_sgr_underline_color:
  "apply_sgr_loop (map (map unat) (ext_color_params c)) s
     = (case c of None \<Rightarrow> s | Some k \<Rightarrow> s\<lparr>underline_color := Some k\<rparr>)"
  by (cases c rule: ext_color_params.cases) (simp_all add: sgr_color_steps)

lemma apply_sgr_attrs:
  "apply_sgr_loop (map (map unat) (attr_params s) @ r) style_default
     = apply_sgr_loop r (s\<lparr>fg := None, bg := None, underline_color := None\<rparr>)"
proof -
  have flag: "apply_sgr_loop (map (map unat) (if b then [[n]] else []) @ q) t
      = apply_sgr_loop q (if b then f t else t)"
    if "\<And>q t. apply_sgr_loop ([unat n] # q) t = apply_sgr_loop q (f t)" for b n q t f
    using that by simp
  have *: "\<And>q t. apply_sgr_loop ([unat (1 :: 8 word)] # q) t = apply_sgr_loop q (t\<lparr>bold := True\<rparr>)"
    "\<And>q t. apply_sgr_loop ([unat (2 :: 8 word)] # q) t = apply_sgr_loop q (t\<lparr>dim := True\<rparr>)"
    "\<And>q t. apply_sgr_loop ([unat (3 :: 8 word)] # q) t = apply_sgr_loop q (t\<lparr>italic := True\<rparr>)"
    "\<And>q t. apply_sgr_loop ([unat (5 :: 8 word)] # q) t = apply_sgr_loop q (t\<lparr>blink := True\<rparr>)"
    "\<And>q t. apply_sgr_loop ([unat (7 :: 8 word)] # q) t = apply_sgr_loop q (t\<lparr>inverse_video := True\<rparr>)"
    "\<And>q t. apply_sgr_loop ([unat (8 :: 8 word)] # q) t = apply_sgr_loop q (t\<lparr>hidden := True\<rparr>)"
    "\<And>q t. apply_sgr_loop ([unat (9 :: 8 word)] # q) t = apply_sgr_loop q (t\<lparr>strikethrough := True\<rparr>)"
    by (simp_all add: apply_sgr_loop_flags)
  show ?thesis
    unfolding attr_params_def map_append append_assoc *[THEN flag] apply_sgr_underline
    by (rule arg_cong[where f = "apply_sgr_loop r"]) (cases s, simp add: style_default_def)
qed

theorem apply_sgr_params: "apply_sgr_loop (map (map unat) ([0] # sgr_params s)) t = s"
proof -
  have "apply_sgr_loop (map (map unat) ([0] # sgr_params s)) t
      = apply_sgr_loop (map (map unat) (sgr_params s)) style_default"
    by (simp add: apply_sgr_loop_flags)
  also have "\<dots> = s"
    unfolding sgr_params_def map_append apply_sgr_attrs apply_sgr_fg apply_sgr_bg apply_sgr_underline_color
    by (cases s) (simp split: option.split)
  finally show ?thesis .
qed

lemma sgr_params_nonempty: "\<forall>p\<in>set (sgr_params s). p \<noteq> []"
proof -
  have "\<forall>p\<in>set (color_params c b bb e). p \<noteq> []" for c b bb e
    by (cases "(c, b, bb, e)" rule: color_params.cases) auto
  moreover have "\<forall>p\<in>set (ext_color_params c). p \<noteq> []" for c
    by (cases c rule: ext_color_params.cases) auto
  moreover have "\<forall>p\<in>set (underline_params u). p \<noteq> []" for u
    by (cases u) auto
  ultimately show ?thesis
    unfolding sgr_params_def attr_params_def set_append ball_Un by (auto split: if_splits)
qed

lemma sgr_params_default: "sgr_params style_default = []"
  by (simp add: sgr_params_def attr_params_def style_default_def)

lemma write_sgr_with_reset_to_append: "write_sgr_with_reset_to s out = out @ to_sgr_with_reset s"
  by (simp add: write_sgr_with_reset_to_def to_sgr_with_reset_def write_sgr_to_params)

lemma to_sgr_with_reset_params:
  "to_sgr_with_reset s = [ESC] @ ''['' @ (''0'' @ seps (sgr_params s)) @ ''m''"
  by (auto simp: to_sgr_with_reset_def write_sgr_with_reset_to_def write_sgr_to_params
      style_is_default_def sgr_params_default)

text \<open>Reading a whole sequence back: the text between the introducer and the final \<open>m\<close>.\<close>

definition read_sgr :: "bytes \<Rightarrow> style \<Rightarrow> style" where
  "read_sgr bs s = apply_sgr (read_params (butlast (drop 2 bs))) s"

lemma read_sgr_to_sgr: "read_sgr (to_sgr_with_reset s) t = s"
proof -
  have "read_params (''0'' @ seps (sgr_params s)) = map (map unat) ([0] # sgr_params s)"
    using read_params_show[of "[0]" "sgr_params s"] sgr_params_nonempty[of s] by (simp add: write_u8_literals)
  then show ?thesis
    using apply_sgr_params[of s t]
    by (simp add: read_sgr_def to_sgr_with_reset_params apply_sgr_def butlast_append)
qed

subsection \<open>The style table keeps its identifiers\<close>

definition wf_style_table :: "style_table_t \<Rightarrow> bool" where
  "wf_style_table t \<longleftrightarrow>
     styles t \<noteq> [] \<and> styles t ! 0 = style_default \<and> length (styles t) \<le> 65536
     \<and> (\<forall>s i. style_index t s = Some i \<longrightarrow>
          i < length (styles t) \<and> styles t ! i = s \<and> i \<notin> set (free_slots t) \<and> s \<noteq> style_default)
     \<and> (\<forall>i\<in>set (free_slots t). 0 < i \<and> i < length (styles t))
     \<and> distinct (free_slots t)"

definition live_ids :: "style_table_t \<Rightarrow> nat set" where
  "live_ids t = {i. i < length (styles t) \<and> i \<notin> set (free_slots t)}"

lemma wf_style_table_new: "wf_style_table style_table_new"
  by (simp add: wf_style_table_def style_table_new_def)

lemma wf_style_table_reset: "wf_style_table (style_table_reset t)"
  by (simp add: wf_style_table_def style_table_reset_def)

lemma zero_live: "wf_style_table t \<Longrightarrow> 0 \<in> live_ids t"
  by (auto simp: wf_style_table_def live_ids_def)

lemma style_get_zero: "wf_style_table t \<Longrightarrow> style_get t 0 = style_default"
  by (simp add: wf_style_table_def style_get_def)

lemma set_butlast_distinct: "xs \<noteq> [] \<Longrightarrow> distinct xs \<Longrightarrow> set (butlast xs) = set xs - {last xs}"
  by (induction xs rule: rev_induct) auto

text \<open>The contract of \<open>intern\<close>: what its result denotes and what it leaves alone.\<close>

definition intern_post :: "style_table_t \<Rightarrow> style \<Rightarrow> nat \<times> style_table_t \<Rightarrow> bool" where
  "intern_post t s r \<longleftrightarrow>
     (let (i, t') = r in
      wf_style_table t' \<and> live_ids t \<subseteq> live_ids t' \<and> i \<in> live_ids t'
      \<and> (\<forall>j\<in>live_ids t. style_get t' j = style_get t j)
      \<and> (style_get t' i = s \<or> style_is_full t \<and> i = 0 \<and> t' = t))"

lemma intern_reuse:
  assumes wf: "wf_style_table t" and s: "s \<noteq> style_default" "style_index t s = None"
    and free: "free_slots t \<noteq> []"
  shows "returns (intern s t) (intern_post t s)"
proof -
  let ?i = "last (free_slots t)"
  have i: "?i \<in> set (free_slots t)" using free by simp
  then have "0 < ?i" "?i < length (styles t)" using wf by (auto simp: wf_style_table_def)
  moreover have "set (butlast (free_slots t)) = set (free_slots t) - {?i}"
    using wf free by (intro set_butlast_distinct) (auto simp: wf_style_table_def)
  moreover have "style_index t r \<noteq> Some ?i" for r
    using wf i by (auto simp: wf_style_table_def)
  moreover have "distinct (butlast (free_slots t))"
    using wf by (auto simp: wf_style_table_def distinct_butlast)
  ultimately show ?thesis
    using wf s free i
    by (auto simp: Let_def intern_def style_is_default_def intern_post_def wf_style_table_def live_ids_def
        style_get_def nth_list_update)
qed

lemma intern_grow:
  assumes wf: "wf_style_table t" and s: "s \<noteq> style_default" "style_index t s = None"
    and free: "free_slots t = []" and room: "length (styles t) \<le> u16_max"
  shows "returns (intern s t) (intern_post t s)"
proof -
  have "i < Suc (length (styles t))" if "style_index t r = Some i" for r i
    using wf that by (auto simp: wf_style_table_def less_Suc_eq)
  then show ?thesis
    using assms
    by (auto simp: Let_def intern_def style_is_default_def intern_post_def wf_style_table_def live_ids_def
        style_get_def nth_append)
qed

lemma intern_contract:
  assumes wf: "wf_style_table t"
  shows "returns (intern s t) (intern_post t s)"
proof -
  consider "s = style_default" | i where "s \<noteq> style_default" "style_index t s = Some i"
    | "s \<noteq> style_default" "style_index t s = None" "free_slots t \<noteq> []"
    | "s \<noteq> style_default" "style_index t s = None" "free_slots t = []" "length (styles t) \<le> u16_max"
    | "s \<noteq> style_default" "style_index t s = None" "style_is_full t"
    by (cases "style_index t s"; cases "free_slots t = []"; cases "length (styles t) \<le> u16_max")
      (auto simp: style_is_full_def)
  then show ?thesis
  proof cases
    case 1
    then show ?thesis
      using wf by (simp add: intern_def style_is_default_def intern_post_def zero_live style_get_zero)
  next
    case (2 i)
    then show ?thesis
      using wf by (auto simp: intern_def style_is_default_def intern_post_def wf_style_table_def
          live_ids_def style_get_def)
  next
    case 5
    then show ?thesis
      using wf by (simp add: intern_def style_is_default_def intern_post_def zero_live style_is_full_def)
  qed (use wf intern_reuse intern_grow in auto)
qed

definition dead_slot :: "bool list \<Rightarrow> nat \<Rightarrow> bool" where
  "dead_slot live i \<longleftrightarrow> i < length live \<and> \<not> live ! i"

lemma reclaim_fold:
  assumes "\<forall>i\<in>set xs. i < 65536"
  shows "fold (reclaim_slot live) xs t =
    t\<lparr>style_index := (\<lambda>s. if \<exists>i\<in>set xs. dead_slot live i \<and> styles t ! i = s then None else style_index t s),
      free_slots := free_slots t @ filter (dead_slot live) xs\<rparr>"
  using assms
proof (induction xs arbitrary: t)
  case Nil
  then show ?case by simp
next
  case (Cons x xs)
  have slot: "reclaim_slot live x t = (if dead_slot live x
      then t\<lparr>style_index := (style_index t)(styles t ! x := None), free_slots := free_slots t @ [x]\<rparr>
      else t)"
    using Cons.prems by (simp add: reclaim_slot_def dead_slot_def)
  have ih: "fold (reclaim_slot live) xs t' = t'\<lparr>style_index :=
      (\<lambda>s. if \<exists>i\<in>set xs. dead_slot live i \<and> styles t' ! i = s then None else style_index t' s),
      free_slots := free_slots t' @ filter (dead_slot live) xs\<rparr>" for t'
    using Cons by simp
  show ?case
    by (rule style_table_t.equality) (auto simp: slot ih fun_eq_iff)
qed

lemma reclaim_eq:
  assumes "wf_style_table t"
  shows "reclaim live t =
    t\<lparr>style_index := (\<lambda>s. if \<exists>i\<in>{1..<length (styles t)}. dead_slot live i \<and> styles t ! i = s
                          then None else style_index t s),
      free_slots := filter (dead_slot live) [1..<length (styles t)]\<rparr>"
proof -
  have "\<forall>i\<in>set [1..<length (styles t)]. i < 65536"
    using assms by (auto simp: wf_style_table_def)
  from reclaim_fold[OF this, of live "t\<lparr>free_slots := []\<rparr>"] show ?thesis
    by (simp add: reclaim_def cong: if_cong)
qed

lemma reclaim_live:
  assumes wf: "wf_style_table t"
  shows "live_ids (reclaim live t) = {i. i < length (styles t) \<and> (i = 0 \<or> \<not> dead_slot live i)}"
  by (auto simp: reclaim_eq[OF wf] live_ids_def)

lemma reclaim_get [simp]: "wf_style_table t \<Longrightarrow> style_get (reclaim live t) i = style_get t i"
  by (simp add: reclaim_eq style_get_def)

lemma reclaim_wf:
  assumes wf: "wf_style_table t"
  shows "wf_style_table (reclaim live t)"
proof -
  have "i \<noteq> 0" if "style_index t s = Some i" for s i
    using wf that unfolding wf_style_table_def by metis
  then show ?thesis
    using wf by (auto simp: reclaim_eq[OF wf] wf_style_table_def)
qed

text \<open>
  The interface the performer relies on: interning and collecting never change what a live
  identifier denotes.
\<close>

locale style_store =
  fixes ok :: "'t \<Rightarrow> bool"
    and ids :: "'t \<Rightarrow> nat set"
    and look :: "'t \<Rightarrow> nat \<Rightarrow> style"
    and add :: "style \<Rightarrow> 't \<Rightarrow> (nat \<times> 't) option"
    and gc :: "bool list \<Rightarrow> 't \<Rightarrow> 't"
  assumes add_total: "ok t \<Longrightarrow> returns (add s t) (\<lambda>(i, t'). ok t' \<and> i \<in> ids t' \<and> ids t \<subseteq> ids t')"
    and add_frame: "ok t \<Longrightarrow> add s t = Some (i, t') \<Longrightarrow> j \<in> ids t \<Longrightarrow> look t' j = look t j"
    and gc_ok: "ok t \<Longrightarrow> ok (gc live t)"
    and gc_keep: "ok t \<Longrightarrow> j \<in> ids t \<Longrightarrow> j < length live \<Longrightarrow> live ! j \<Longrightarrow> j \<in> ids (gc live t)"
    and gc_look: "ok t \<Longrightarrow> look (gc live t) j = look t j"
begin

primrec add_all :: "style list \<Rightarrow> 't \<Rightarrow> 't option" where
  "add_all [] t = Some t"
| "add_all (s # ss) t = add s t \<bind> (\<lambda>(i, t'). add_all ss t')"

lemma add_all_frame:
  "ok t \<Longrightarrow> returns (add_all ss t) (\<lambda>t'. ok t' \<and> ids t \<subseteq> ids t' \<and> (\<forall>j\<in>ids t. look t' j = look t j))"
proof (induction ss arbitrary: t)
  case Nil
  then show ?case by simp
next
  case (Cons s ss)
  from add_total[OF Cons.prems, of s] obtain i t' where t':
    "add s t = Some (i, t')" "ok t'" "ids t \<subseteq> ids t'"
    by (auto simp: returns_def)
  then have "\<forall>j\<in>ids t. look t' j = look t j" using Cons.prems by (auto dest: add_frame)
  with Cons.IH[OF t'(2)] t' show ?case
    by (auto elim!: returns_mono)
qed

end

interpretation st: style_store wf_style_table live_ids style_get intern reclaim
proof
  show "returns (intern s t) (\<lambda>(i, t'). wf_style_table t' \<and> i \<in> live_ids t' \<and> live_ids t \<subseteq> live_ids t')"
    if "wf_style_table t" for s t
    using intern_contract[OF that, of s] by (elim returns_mono) (auto simp: intern_post_def)
  show "style_get t' j = style_get t j"
    if "wf_style_table t" "intern s t = Some (i, t')" "j \<in> live_ids t" for s t i t' j
    using intern_contract[OF that(1), of s] that by (auto simp: intern_post_def)
  show "wf_style_table (reclaim live t)" if "wf_style_table t" for live t
    using that by (rule reclaim_wf)
  show "j \<in> live_ids (reclaim live t)"
    if "wf_style_table t" "j \<in> live_ids t" "j < length live" "live ! j" for live t j
    using that by (simp add: reclaim_live dead_slot_def) (simp add: live_ids_def)
  show "style_get (reclaim live t) j = style_get t j" if "wf_style_table t" for live t j
    using that by simp
qed

end
