(* ===== verification/Cell.thy ===== *)
theory Cell
  imports Style
begin

text \<open>
  \<open>src/src/screen/cell.rs\<close>: one character cell and a row of cells with its sparse list of combining
  marks. Every method of \<open>Row\<close> is a definition; those that index or call \<open>Vec::remove\<close> and
  \<open>Vec::insert\<close> are option valued (\<open>None\<close> is the panic).

  Shown here: every operation keeps the row invariant \<open>row_ok\<close>: marks only on existing columns, at
  most one entry per column.
\<close>

record cell =
  cell_c :: rchar
  style_id :: nat
  cell_width :: nat

definition cell_new :: "rchar \<Rightarrow> nat \<Rightarrow> nat \<Rightarrow> cell" where
  "cell_new c sid w = \<lparr>cell_c = c, style_id = sid, cell_width = w\<rparr>"

definition cell_default :: cell where
  "cell_default = \<lparr>cell_c = 32, style_id = 0, cell_width = 1\<rparr>"

record row =
  row_cells :: "cell list"
  combining :: "(nat \<times> rchar list) list"

definition row_new :: "nat \<Rightarrow> row" where
  "row_new n = \<lparr>row_cells = replicate n cell_default, combining = []\<rparr>"

definition from_cells :: "cell list \<Rightarrow> row" where
  "from_cells cs = \<lparr>row_cells = cs, combining = []\<rparr>"

definition combining_at :: "nat \<Rightarrow> row \<Rightarrow> rchar list" where
  "combining_at col r = (case map_of (combining r) col of Some marks \<Rightarrow> marks | None \<Rightarrow> [])"

fun push_mark :: "nat \<Rightarrow> rchar \<Rightarrow> (nat \<times> rchar list) list \<Rightarrow> (nat \<times> rchar list) list" where
  "push_mark col mark [] = [(col, [mark])]"
| "push_mark col mark ((c, marks) # xs) =
     (if c = col then (c, marks @ [mark]) # xs else (c, marks) # push_mark col mark xs)"

definition push_combining :: "nat \<Rightarrow> rchar \<Rightarrow> row \<Rightarrow> row" where
  "push_combining col mark r = r\<lparr>combining := push_mark col mark (combining r)\<rparr>"

definition combining_len :: "nat \<Rightarrow> row \<Rightarrow> nat" where
  "combining_len col r = (case map_of (combining r) col of Some marks \<Rightarrow> length marks | None \<Rightarrow> 0)"

definition clear_combining :: "nat \<Rightarrow> row \<Rightarrow> row" where
  "clear_combining col r = r\<lparr>combining := filter (\<lambda>(c, _). c \<noteq> col) (combining r)\<rparr>"

definition clear_all_combining :: "row \<Rightarrow> row" where
  "clear_all_combining r = r\<lparr>combining := []\<rparr>"

definition clear_combining_range :: "nat \<Rightarrow> nat \<Rightarrow> row \<Rightarrow> row" where
  "clear_combining_range from to r =
     r\<lparr>combining := filter (\<lambda>(c, _). c < from \<or> to \<le> c) (combining r)\<rparr>"

definition row_len :: "row \<Rightarrow> nat" where
  "row_len r = length (row_cells r)"

definition row_is_empty :: "row \<Rightarrow> bool" where
  "row_is_empty r \<longleftrightarrow> row_cells r = []"

definition row_resize :: "nat \<Rightarrow> cell \<Rightarrow> row \<Rightarrow> row" where
  "row_resize new_len v r =
     (let r = (if new_len < row_len r
               then r\<lparr>combining := filter (\<lambda>(c, _). c < as_u16 new_len) (combining r)\<rparr> else r)
      in r\<lparr>row_cells := vresize new_len v (row_cells r)\<rparr>)"

definition row_remove :: "nat \<Rightarrow> row \<Rightarrow> row option" where
  "row_remove index r =
     do { let col = as_u16 index;
          let cm = filter (\<lambda>(c, _). c \<noteq> col) (combining r);
          let cm = map (\<lambda>(c, marks). (if c > col then c - 1 else c, marks)) cm;
          cs \<leftarrow> vremove index (row_cells r);
          Some (r\<lparr>row_cells := cs, combining := cm\<rparr>) }"

definition row_insert :: "nat \<Rightarrow> cell \<Rightarrow> row \<Rightarrow> row option" where
  "row_insert index cl r =
     do { let col = as_u16 index;
          let cm = map (\<lambda>(c, marks). (if c \<ge> col then sat_add16 c 1 else c, marks)) (combining r);
          cs \<leftarrow> vinsert index cl (row_cells r);
          Some (r\<lparr>row_cells := cs, combining := cm\<rparr>) }"

definition row_push :: "cell \<Rightarrow> row \<Rightarrow> row" where
  "row_push cl r = r\<lparr>row_cells := row_cells r @ [cl]\<rparr>"

text \<open>The early return makes every index below a valid one.\<close>

definition fix_wide_char_orphan_at_boundary :: "nat \<Rightarrow> row \<Rightarrow> row" where
  "fix_wide_char_orphan_at_boundary new_cols r =
     (if new_cols = 0 \<or> row_len r \<le> new_cols then r
      else
        (let last = new_cols - 1 in
         if cell_width (row_cells r ! last) = 2 then r\<lparr>row_cells := (row_cells r)[last := cell_default]\<rparr>
         else if last > 0 \<and> cell_width (row_cells r ! last) = 0 then
           r\<lparr>row_cells := (row_cells r)[last := cell_default, last - 1 := cell_default]\<rparr>
         else r))"

definition row_pop :: "row \<Rightarrow> row" where
  "row_pop r =
     (if row_cells r = [] then r
      else
        (let cs = butlast (row_cells r); col = as_u16 (length cs)
         in r\<lparr>row_cells := cs, combining := filter (\<lambda>(c, _). c \<noteq> col) (combining r)\<rparr>))"

text \<open>Indexing through \<open>Deref\<close> and \<open>DerefMut\<close> to the slice of cells.\<close>

definition row_get :: "nat \<Rightarrow> row \<Rightarrow> cell option" where
  "row_get x r = vget (row_cells r) x"

definition row_set :: "nat \<Rightarrow> cell \<Rightarrow> row \<Rightarrow> row option" where
  "row_set x cl r = do { cs \<leftarrow> vset x cl (row_cells r); Some (r\<lparr>row_cells := cs\<rparr>) }"

lemma returns_row_get [simp]:
  "returns (row_get x r) Q \<longleftrightarrow> x < row_len r \<and> Q (row_cells r ! x)"
  by (simp add: row_get_def row_len_def)

lemma returns_row_set [simp]:
  "returns (row_set x cl r) Q \<longleftrightarrow> x < row_len r \<and> Q (r\<lparr>row_cells := (row_cells r)[x := cl]\<rparr>)"
  by (simp add: row_set_def row_len_def)

subsection \<open>Rows stay well formed\<close>

definition combining_ok :: "nat \<Rightarrow> (nat \<times> rchar list) list \<Rightarrow> bool" where
  "combining_ok n cm \<longleftrightarrow>
     (\<forall>(c, marks)\<in>set cm. c < n \<and> marks \<noteq> [] \<and> length marks \<le> 16) \<and> distinct (map fst cm)"

definition row_ok :: "(cell \<Rightarrow> bool) \<Rightarrow> row \<Rightarrow> bool" where
  "row_ok P r \<longleftrightarrow> list_all P (row_cells r) \<and> combining_ok (row_len r) (combining r)"

definition row_fits :: "(cell \<Rightarrow> bool) \<Rightarrow> nat \<Rightarrow> row \<Rightarrow> bool" where
  "row_fits P n r \<longleftrightarrow> row_ok P r \<and> row_len r = n"

lemma row_fits_ok: "row_fits P n r \<Longrightarrow> row_ok P r"
  by (simp add: row_fits_def)

lemma row_fits_len: "row_fits P n r \<Longrightarrow> row_len r = n"
  by (simp add: row_fits_def)

lemma row_fits_combining: "row_fits P n r \<Longrightarrow> combining_ok n (combining r)"
  by (auto simp: row_fits_def row_ok_def)

lemma row_ok_mono: "row_ok P r \<Longrightarrow> (\<And>cl. P cl \<Longrightarrow> Q cl) \<Longrightarrow> row_ok Q r"
  by (auto simp: row_ok_def list_all_iff)

lemma combining_okD:
  "combining_ok n cm \<Longrightarrow> (c, marks) \<in> set cm \<Longrightarrow> c < n \<and> marks \<noteq> [] \<and> length marks \<le> 16"
  by (auto simp: combining_ok_def)

lemma row_fits_new [simp]: "P cell_default \<Longrightarrow> row_fits P n (row_new n)"
  by (auto simp: row_fits_def row_ok_def row_new_def row_len_def combining_ok_def)

lemma row_fits_from_cells [simp]: "P cl \<Longrightarrow> row_fits P n (from_cells (replicate n cl))"
  by (auto simp: row_fits_def row_ok_def from_cells_def row_len_def combining_ok_def)

lemma combining_ok_filter: "combining_ok n cm \<Longrightarrow> combining_ok n (filter f cm)"
  by (auto simp: combining_ok_def distinct_map_filter)

lemma combining_ok_below:
  assumes "combining_ok n cm" and "\<And>c marks. f (c, marks) \<Longrightarrow> (c, marks) \<in> set cm \<Longrightarrow> c < m"
  shows "combining_ok m (filter f cm)"
  using assms by (auto simp: combining_ok_def distinct_map_filter)

lemma combining_ok_map:
  assumes "combining_ok n cm" and "\<And>c. c < n \<Longrightarrow> c \<in> fst ` set cm \<Longrightarrow> f c < m"
    and "inj_on f (fst ` set cm)"
  shows "combining_ok m (map (\<lambda>(c, marks). (f c, marks)) cm)"
proof -
  have "map fst (map (\<lambda>(c, marks). (f c, marks)) cm) = map f (map fst cm)"
    by (simp add: case_prod_beta comp_def)
  then have "distinct (map fst (map (\<lambda>(c, marks). (f c, marks)) cm))"
    using assms(1,3) by (simp add: combining_ok_def distinct_map del: map_map)
  moreover have "f c < m \<and> marks \<noteq> [] \<and> length marks \<le> 16" if "(c, marks) \<in> set cm" for c marks
    using combining_okD[OF assms(1) that] assms(2)[of c] that by force
  ultimately show ?thesis
    by (auto simp: combining_ok_def)
qed

lemma row_set_fits:
  "row_fits P n r \<Longrightarrow> P cl \<Longrightarrow> row_fits P n (r\<lparr>row_cells := (row_cells r)[x := cl]\<rparr>)"
  by (auto simp: row_fits_def row_ok_def row_len_def)

lemma clear_combining_fits [simp]: "row_fits P n r \<Longrightarrow> row_fits P n (clear_combining col r)"
  by (auto simp: row_fits_def row_ok_def row_len_def clear_combining_def combining_ok_filter)

lemma clear_all_combining_fits [simp]: "row_fits P n r \<Longrightarrow> row_fits P n (clear_all_combining r)"
  by (auto simp: row_fits_def row_ok_def row_len_def clear_all_combining_def combining_ok_def)

lemma clear_combining_range_fits [simp]:
  "row_fits P n r \<Longrightarrow> row_fits P n (clear_combining_range a b r)"
  by (auto simp: row_fits_def row_ok_def row_len_def clear_combining_range_def combining_ok_filter)

lemma push_mark_set:
  "(c, marks) \<in> set (push_mark col mark cm) \<Longrightarrow>
   (c, marks) \<in> set cm \<or> c = col \<and> (marks = [mark] \<or> (\<exists>ms. (col, ms) \<in> set cm \<and> marks = ms @ [mark]))"
  by (induction col mark cm rule: push_mark.induct) (auto split: if_splits)

lemma push_mark_keys: "fst ` set (push_mark col mark cm) = insert col (fst ` set cm)"
  by (induction col mark cm rule: push_mark.induct) (auto split: if_splits)

lemma push_mark_distinct: "distinct (map fst cm) \<Longrightarrow> distinct (map fst (push_mark col mark cm))"
proof (induction col mark cm rule: push_mark.induct)
  case (2 col mark c marks xs)
  then show ?case using push_mark_keys[of col mark xs] by (auto simp: image_iff)
qed simp

lemma combining_len_entry:
  "combining_ok n (combining r) \<Longrightarrow> (col, ms) \<in> set (combining r) \<Longrightarrow> combining_len col r = length ms"
  by (simp add: combining_len_def combining_ok_def map_of_eq_Some_iff[THEN iffD2])

lemma push_combining_fits:
  assumes r: "row_fits P n r" and col: "col < n" and room: "combining_len col r < 16"
  shows "row_fits P n (push_combining col mark r)"
proof -
  have ok: "combining_ok n (combining r)" using r by (rule row_fits_combining)
  have "c < n \<and> marks \<noteq> [] \<and> length marks \<le> 16"
    if "(c, marks) \<in> set (push_mark col mark (combining r))" for c marks
    using push_mark_set[OF that] ok col room
    by (auto simp: combining_ok_def dest: combining_len_entry[OF ok])
  then have "combining_ok n (push_mark col mark (combining r))"
    using ok by (auto simp: combining_ok_def push_mark_distinct)
  then show ?thesis
    using r by (auto simp: row_fits_def row_ok_def row_len_def push_combining_def)
qed

lemma row_resize_fits:
  assumes r: "row_ok P r" and v: "P v" and n: "n < 65536"
  shows "row_fits P n (row_resize n v r)"
proof -
  have "combining_ok n (if n < row_len r then filter (\<lambda>(c, _). c < as_u16 n) (combining r) else combining r)"
    using r n by (auto simp: row_ok_def combining_ok_def distinct_map_filter)
  then show ?thesis
    using r v
    by (auto simp: row_fits_def row_ok_def row_len_def row_resize_def Let_def)
qed

lemma row_remove_push_fits:
  assumes r: "row_fits P n r" and x: "x < n" and n: "n < 65536" and cl: "P cl"
  shows "returns (row_remove x r) (\<lambda>r. row_fits P n (row_push cl r))"
proof -
  let ?cm = "filter (\<lambda>(c, _). c \<noteq> x) (combining r)"
  have cm: "combining_ok n ?cm" using row_fits_combining[OF r] by (rule combining_ok_filter)
  have "combining_ok n (map (\<lambda>(c, marks). (if c > x then c - 1 else c, marks)) ?cm)"
    by (rule combining_ok_map[OF cm]) (auto simp: inj_on_def)
  then show ?thesis
    using r x n cl
    by (auto simp: row_remove_def row_push_def row_fits_def row_ok_def row_len_def Let_def)
qed

lemma row_pop_insert_fits:
  assumes r: "row_fits P n r" and x: "x < n" and n: "n < 65536" and cl: "P cl"
  shows "returns (row_insert x cl (row_pop r)) (row_fits P n)"
proof -
  have len: "length (row_cells r) = n" "row_cells r \<noteq> []" using r x by (auto simp: row_fits_def row_len_def)
  let ?cm = "filter (\<lambda>(c, _). c \<noteq> n - 1) (combining r)"
  have cm: "combining_ok (n - 1) ?cm"
    by (rule combining_ok_below[OF row_fits_combining[OF r]])
      (use row_fits_combining[OF r] in \<open>auto simp: combining_ok_def\<close>)
  then have keys: "c + 1 < n" if "c \<in> fst ` set ?cm" for c
    using that by (force simp: combining_ok_def)
  have "combining_ok n (map (\<lambda>(c, marks). (if c \<ge> x then sat_add16 c 1 else c, marks)) ?cm)"
    by (rule combining_ok_map[OF cm], use n in \<open>force simp: sat_add16_def\<close>, rule inj_onI)
      (use n keys in \<open>force simp: sat_add16_def split: if_splits\<close>)
  then show ?thesis
    using r x n cl len
    by (auto simp: row_insert_def row_pop_def row_fits_def row_ok_def row_len_def Let_def)
qed

lemma fix_orphan_ok:
  "row_ok P r \<Longrightarrow> P cell_default \<Longrightarrow> row_ok P (fix_wide_char_orphan_at_boundary n r)"
  by (simp add: fix_wide_char_orphan_at_boundary_def row_ok_def row_len_def Let_def)

end
