(* ===== verification/Grid.thy ===== *)
theory Grid
  imports Cell
begin

text \<open>
  \<open>src/src/screen/grid.rs\<close>: character sets, cursor shapes, mouse and terminal modes, and the
  \<open>Grid\<close>: one buffer of rows whose first \<open>scrollback_len\<close> rows are history and whose other rows are
  visible, with cursor, scroll region, tab stops and the style table. The methods of \<open>Grid\<close> are
  definitions in the order of the file; \<open>check_invariants\<close> is modelled as the assertion it is, so a
  method that returns at all has kept it.

  \<open>visible_row_mut\<close> hands out a mutable reference in the source; here it takes the function applied
  to the row.
\<close>

subsection \<open>Modes\<close>

datatype charset = Ascii | LineDrawing

datatype active_charset_t = G0 | G1

datatype cursor_shape_t =
  ShapeDefault | BlinkBlock | SteadyBlock | BlinkUnderline | SteadyUnderline | BlinkBar | SteadyBar

definition shape_from_param :: "8 word \<Rightarrow> cursor_shape_t" where
  "shape_from_param n =
     (if n = 1 then BlinkBlock else if n = 2 then SteadyBlock else if n = 3 then BlinkUnderline
      else if n = 4 then SteadyUnderline else if n = 5 then BlinkBar else if n = 6 then SteadyBar
      else ShapeDefault)"

fun shape_to_param :: "cursor_shape_t \<Rightarrow> 8 word" where
  "shape_to_param ShapeDefault = 0"
| "shape_to_param BlinkBlock = 1"
| "shape_to_param SteadyBlock = 2"
| "shape_to_param BlinkUnderline = 3"
| "shape_to_param SteadyUnderline = 4"
| "shape_to_param BlinkBar = 5"
| "shape_to_param SteadyBar = 6"

record mouse_modes_t =
  click :: bool
  button :: bool
  any_motion :: bool

definition mouse_modes_default :: mouse_modes_t where
  "mouse_modes_default = \<lparr>click = False, button = False, any_motion = False\<rparr>"

definition mouse_modes_set :: "nat \<Rightarrow> bool \<Rightarrow> mouse_modes_t \<Rightarrow> mouse_modes_t" where
  "mouse_modes_set param enable m =
     (if param = 1000 then m\<lparr>click := enable\<rparr>
      else if param = 1002 then m\<lparr>button := enable\<rparr>
      else if param = 1003 then m\<lparr>any_motion := enable\<rparr>
      else m)"

datatype mouse_mode = MouseOff | MouseClick | MouseButton | MouseAny

definition mouse_effective :: "mouse_modes_t \<Rightarrow> mouse_mode" where
  "mouse_effective m =
     (if any_motion m then MouseAny else if button m then MouseButton
      else if click m then MouseClick else MouseOff)"

datatype mouse_encoding_t = X10 | Utf8Enc | Sgr

definition mouse_encoding_from_param :: "nat \<Rightarrow> mouse_encoding_t option" where
  "mouse_encoding_from_param p = (if p = 1005 then Some Utf8Enc else if p = 1006 then Some Sgr else None)"

record terminal_modes =
  cursor_key_mode :: bool
  bracketed_paste :: bool
  origin_mode :: bool
  autowrap_mode :: bool
  focus_reporting :: bool
  mouse_modes :: mouse_modes_t
  mouse_encoding :: mouse_encoding_t
  keypad_app_mode :: bool
  cursor_shape :: cursor_shape_t
  g0_charset :: charset
  g1_charset :: charset
  active_charset :: active_charset_t

definition terminal_modes_default :: terminal_modes where
  "terminal_modes_default = \<lparr>cursor_key_mode = False, bracketed_paste = False, origin_mode = False,
     autowrap_mode = True, focus_reporting = False, mouse_modes = mouse_modes_default,
     mouse_encoding = X10, keypad_app_mode = False, cursor_shape = ShapeDefault,
     g0_charset = Ascii, g1_charset = Ascii, active_charset = G0\<rparr>"

subsection \<open>The grid\<close>

record grid_t =
  cols :: nat
  rows :: nat
  cells :: "row list"
  cursor_x :: nat
  cursor_y :: nat
  wrap_pending :: bool
  scroll_top :: nat
  scroll_bottom :: nat
  cursor_visible :: bool
  modes :: terminal_modes
  tab_stops :: "bool list"
  scrollback_len :: nat
  scrollback_limit :: nat
  pending_start :: nat
  style_table :: style_table_t

record saved_grid_t =
  visible_cells :: "row list"
  sg_scrollback_limit :: nat

record terminal_size =
  ts_cols :: nat
  ts_rows :: nat

definition sanitize_dimensions :: "nat \<Rightarrow> nat \<Rightarrow> terminal_size" where
  "sanitize_dimensions c r = \<lparr>ts_cols = max c 1, ts_rows = max r 1\<rparr>"

definition default_tab_stops :: "nat \<Rightarrow> bool list" where
  "default_tab_stops n = map (\<lambda>c. c > 0 \<and> c mod 8 = 0) [0..<n]"

definition grid_new :: "nat \<Rightarrow> nat \<Rightarrow> nat \<Rightarrow> grid_t" where
  "grid_new c0 r0 limit =
     (let sz = sanitize_dimensions c0 r0; c = ts_cols sz; r = ts_rows sz in
      \<lparr>cols = c, rows = r, cells = replicate r (row_new c), cursor_x = 0, cursor_y = 0,
       wrap_pending = False, scroll_top = 0, scroll_bottom = r - 1, cursor_visible = True,
       modes = terminal_modes_default, tab_stops = default_tab_stops c, scrollback_len = 0,
       scrollback_limit = limit, pending_start = 0, style_table = style_table_new\<rparr>)"

definition cursor_pos :: "grid_t \<Rightarrow> nat \<times> nat" where
  "cursor_pos g = (cursor_x g, cursor_y g)"

definition scroll_region :: "grid_t \<Rightarrow> nat \<times> nat" where
  "scroll_region g = (scroll_top g, scroll_bottom g)"

subsubsection \<open>Setters\<close>

definition set_cursor_x_unclamped :: "nat \<Rightarrow> grid_t \<Rightarrow> grid_t" where
  [simp]: "set_cursor_x_unclamped x g = g\<lparr>cursor_x := x\<rparr>"

definition set_cursor_y_unclamped :: "nat \<Rightarrow> grid_t \<Rightarrow> grid_t" where
  [simp]: "set_cursor_y_unclamped y g = g\<lparr>cursor_y := y\<rparr>"

definition set_wrap_pending :: "bool \<Rightarrow> grid_t \<Rightarrow> grid_t" where
  [simp]: "set_wrap_pending v g = g\<lparr>wrap_pending := v\<rparr>"

definition set_cursor_visible :: "bool \<Rightarrow> grid_t \<Rightarrow> grid_t" where
  [simp]: "set_cursor_visible v g = g\<lparr>cursor_visible := v\<rparr>"

definition set_scroll_region :: "nat \<Rightarrow> nat \<Rightarrow> grid_t \<Rightarrow> grid_t" where
  [simp]: "set_scroll_region tp bt g = g\<lparr>scroll_top := tp, scroll_bottom := bt\<rparr>"

definition set_modes :: "terminal_modes \<Rightarrow> grid_t \<Rightarrow> grid_t" where
  [simp]: "set_modes m g = g\<lparr>modes := m\<rparr>"

definition modes_mut :: "(terminal_modes \<Rightarrow> terminal_modes) \<Rightarrow> grid_t \<Rightarrow> grid_t" where
  [simp]: "modes_mut f g = g\<lparr>modes := f (modes g)\<rparr>"

definition set_tab_stop :: "nat \<Rightarrow> grid_t \<Rightarrow> grid_t" where
  "set_tab_stop col g =
     (if col < length (tab_stops g) then g\<lparr>tab_stops := (tab_stops g)[col := True]\<rparr> else g)"

definition clear_tab_stop :: "nat \<Rightarrow> grid_t \<Rightarrow> grid_t" where
  "clear_tab_stop col g =
     (if col < length (tab_stops g) then g\<lparr>tab_stops := (tab_stops g)[col := False]\<rparr> else g)"

definition clear_all_tab_stops :: "grid_t \<Rightarrow> grid_t" where
  "clear_all_tab_stops g = g\<lparr>tab_stops := map (\<lambda>_. False) (tab_stops g)\<rparr>"

definition reset_tab_stops :: "grid_t \<Rightarrow> grid_t" where
  "reset_tab_stops g = g\<lparr>tab_stops := default_tab_stops (cols g)\<rparr>"

definition set_scrollback_limit :: "nat \<Rightarrow> grid_t \<Rightarrow> grid_t" where
  [simp]: "set_scrollback_limit n g = g\<lparr>scrollback_limit := n\<rparr>"

definition set_pending_start :: "nat \<Rightarrow> grid_t \<Rightarrow> grid_t" where
  [simp]: "set_pending_start n g = g\<lparr>pending_start := n\<rparr>"

subsubsection \<open>Rows\<close>

definition scrollback_rows :: "grid_t \<Rightarrow> row list" where
  "scrollback_rows g = take (scrollback_len g) (cells g)"

definition visible_rows :: "grid_t \<Rightarrow> row list" where
  "visible_rows g = take (rows g) (drop (scrollback_len g) (cells g))"

definition visible_row_count :: "grid_t \<Rightarrow> nat" where
  "visible_row_count g = length (cells g) - scrollback_len g"

definition check_invariants :: "grid_t \<Rightarrow> grid_t option" where
  "check_invariants g =
     (if pending_start g \<le> scrollback_len g \<and> length (cells g) = scrollback_len g + rows g
      then Some g else None)"

text \<open>\<open>drain_visible\<close> returns the drained rows and the remaining grid.\<close>

definition drain_visible :: "grid_t \<Rightarrow> (row list \<times> grid_t) option" where
  "drain_visible g =
     (if scrollback_len g \<le> length (cells g)
      then Some (drop (scrollback_len g) (cells g), g\<lparr>cells := take (scrollback_len g) (cells g)\<rparr>)
      else None)"

definition replace_visible :: "row list \<Rightarrow> grid_t \<Rightarrow> grid_t" where
  "replace_visible rs g = g\<lparr>cells := take (scrollback_len g) (cells g) @ rs\<rparr>"

definition fill_visible_blank :: "grid_t \<Rightarrow> grid_t option" where
  "fill_visible_blank g =
     check_invariants (g\<lparr>cells := cells g @ replicate (rows g) (row_new (cols g))\<rparr>)"

text \<open>The two loops of \<open>adjust_visible_to_fit\<close> pop or push until the count fits.\<close>

definition adjust_visible_to_fit :: "grid_t \<Rightarrow> grid_t option" where
  "adjust_visible_to_fit g =
     (let popped = g\<lparr>cells := take (length (cells g) - (visible_row_count g - rows g)) (cells g)\<rparr>;
          pushed = popped\<lparr>cells := cells popped @
            replicate (rows g - visible_row_count popped) (row_new (cols g))\<rparr>
      in check_invariants pushed)"

definition restore_scrollback :: "nat \<Rightarrow> grid_t \<Rightarrow> grid_t option" where
  "restore_scrollback count g =
     (if count \<le> scrollback_len g
      then Some (g\<lparr>scrollback_len := scrollback_len g - count,
                   pending_start := min (pending_start g) (scrollback_len g - count)\<rparr>)
      else None)"

definition visible_row :: "nat \<Rightarrow> grid_t \<Rightarrow> row option" where
  "visible_row y g = (if y < rows g then vget (cells g) (scrollback_len g + y) else None)"

definition visible_row_mut :: "nat \<Rightarrow> (row \<Rightarrow> row option) \<Rightarrow> grid_t \<Rightarrow> grid_t option" where
  "visible_row_mut y f g =
     do { r \<leftarrow> visible_row y g; r' \<leftarrow> f r;
          Some (g\<lparr>cells := (cells g)[scrollback_len g + y := r']\<rparr>) }"

definition new_blank_row :: "cell \<Rightarrow> grid_t \<Rightarrow> row" where
  "new_blank_row fill g = from_cells (replicate (cols g) fill)"

text \<open>\<open>debug_assert!\<close> refuses an index out of range; \<open>VecDeque::remove\<close> itself would not panic.\<close>

definition remove_visible_row :: "nat \<Rightarrow> grid_t \<Rightarrow> grid_t option" where
  "remove_visible_row y g =
     do { cs \<leftarrow> vremove (scrollback_len g + y) (cells g); Some (g\<lparr>cells := cs\<rparr>) }"

definition insert_visible_row :: "nat \<Rightarrow> row \<Rightarrow> grid_t \<Rightarrow> grid_t option" where
  "insert_visible_row y r g =
     do { cs \<leftarrow> vinsert (scrollback_len g + y) r (cells g); Some (g\<lparr>cells := cs\<rparr>) }"

definition next_tab_stop :: "nat \<Rightarrow> grid_t \<Rightarrow> nat option" where
  "next_tab_stop col g =
     (case find (\<lambda>c. tab_stops g ! c) [col + 1..<length (tab_stops g)] of
        Some c \<Rightarrow> Some (as_u16 c)
      | None \<Rightarrow> usub (cols g) 1)"

subsubsection \<open>Scrolling\<close>

definition scroll_up :: "bool \<Rightarrow> cell \<Rightarrow> grid_t \<Rightarrow> grid_t option" where
  "scroll_up in_alt fill g =
     do { let top = scroll_top g;
          let bottom = scroll_bottom g;
          visible_len \<leftarrow> usub (length (cells g)) (scrollback_len g);
          g \<leftarrow> (if \<not> in_alt \<and> top = 0 \<and> 0 < scrollback_limit g then
                 do { let g = g\<lparr>scrollback_len := scrollback_len g + 1\<rparr>;
                      let g = (if scrollback_len g > scrollback_limit g
                               then g\<lparr>cells := tl (cells g), scrollback_len := scrollback_len g - 1,
                                      pending_start := pending_start g - 1\<rparr>
                               else g);
                      last \<leftarrow> usub visible_len 1;
                      if bottom \<ge> last then Some (g\<lparr>cells := cells g @ [new_blank_row fill g]\<rparr>)
                      else insert_visible_row bottom (new_blank_row fill g) g }
               else if top \<le> bottom \<and> bottom < visible_len then
                 (if top = 0 \<and> bottom = visible_len - 1
                  then Some (g\<lparr>cells := remove_at (scrollback_len g) (cells g) @ [new_blank_row fill g]\<rparr>)
                  else insert_visible_row bottom (new_blank_row fill g)
                         (g\<lparr>cells := remove_at (scrollback_len g + top) (cells g)\<rparr>))
               else Some g);
          check_invariants g }"

definition scroll_down :: "cell \<Rightarrow> grid_t \<Rightarrow> grid_t option" where
  "scroll_down fill g =
     do { let top = scroll_top g;
          let bottom = scroll_bottom g;
          visible_len \<leftarrow> usub (length (cells g)) (scrollback_len g);
          g \<leftarrow> (if top \<le> bottom \<and> bottom < visible_len
               then insert_visible_row top (new_blank_row fill g)
                      (g\<lparr>cells := remove_at (scrollback_len g + bottom) (cells g)\<rparr>)
               else Some g);
          check_invariants g }"

definition clear_scrollback :: "grid_t \<Rightarrow> grid_t option" where
  "clear_scrollback g =
     (if scrollback_len g \<le> length (cells g)
      then check_invariants
             (g\<lparr>cells := drop (scrollback_len g) (cells g), scrollback_len := 0, pending_start := 0\<rparr>)
      else None)"

definition reset_scroll_region :: "grid_t \<Rightarrow> grid_t option" where
  "reset_scroll_region g = do { b \<leftarrow> usub (rows g) 1; Some (g\<lparr>scroll_top := 0, scroll_bottom := b\<rparr>) }"

definition pending_scrollback_count :: "grid_t \<Rightarrow> nat" where
  "pending_scrollback_count g = scrollback_len g - pending_start g"

subsubsection \<open>Resizing\<close>

definition grid_resize :: "nat \<Rightarrow> nat \<Rightarrow> grid_t \<Rightarrow> grid_t option" where
  "grid_resize c0 r0 g0 =
     do { let sz = sanitize_dimensions c0 r0;
          let c = ts_cols sz;
          let r = ts_rows sz;
          let g = g0\<lparr>cols := c, rows := r\<rparr>;
          visible_len \<leftarrow> usub (length (cells g)) (scrollback_len g);
          let g = (if visible_len > r
                   then g\<lparr>cells := take (length (cells g) - (visible_len - r)) (cells g)\<rparr>
                   else if visible_len < r
                   then g\<lparr>cells := cells g @ replicate (r - visible_len) (row_new c)\<rparr>
                   else g);
          let g = g\<lparr>cells := take (scrollback_len g) (cells g) @
                      map (\<lambda>w. row_resize c cell_default (fix_wide_char_orphan_at_boundary c w))
                        (drop (scrollback_len g) (cells g))\<rparr>;
          let g = (if cursor_x g \<ge> c then g\<lparr>cursor_x := c - 1\<rparr> else g);
          let g = (if cursor_y g \<ge> r then g\<lparr>cursor_y := r - 1\<rparr> else g);
          check_invariants (g\<lparr>wrap_pending := False, scroll_top := 0, scroll_bottom := r - 1,
                              tab_stops := default_tab_stops c\<rparr>) }"

subsubsection \<open>Cells\<close>

definition fixup_wide_char_at :: "nat \<Rightarrow> nat \<Rightarrow> grid_t \<Rightarrow> grid_t option" where
  "fixup_wide_char_at x y g =
     (if y \<ge> rows g \<or> x \<ge> cols g then Some g
      else
        do { r \<leftarrow> visible_row y g;
             cl \<leftarrow> row_get x r;
             if cell_width cl = 2 then
               do { g \<leftarrow> (if x + 1 < cols g then visible_row_mut y (row_set (x + 1) cell_default) g
                          else Some g);
                    visible_row_mut y (row_set x cell_default) g }
             else if cell_width cl = 0 \<and> x > 0 then
               do { g \<leftarrow> visible_row_mut y (row_set (x - 1) cell_default) g;
                    visible_row_mut y (row_set x cell_default) g }
             else Some g })"

definition set_cell :: "nat \<Rightarrow> nat \<Rightarrow> cell \<Rightarrow> grid_t \<Rightarrow> grid_t option" where
  "set_cell x y cl g =
     (if y \<ge> rows g \<or> x \<ge> cols g then Some g
      else
        do { g \<leftarrow> fixup_wide_char_at x y g;
             g \<leftarrow> visible_row_mut y (\<lambda>r. do { r \<leftarrow> row_set x cl r; Some (clear_combining (as_u16 x) r) }) g;
             if cell_width cl = 2 \<and> x + 1 < cols g then
               do { g \<leftarrow> fixup_wide_char_at (x + 1) y g;
                    visible_row_mut y (\<lambda>r. do { r \<leftarrow> row_set (x + 1) (cell_new 0 (style_id cl) 0) r;
                                                Some (clear_combining (as_u16 (x + 1)) r) }) g }
             else Some g })"

definition erase_cells :: "nat \<Rightarrow> nat \<Rightarrow> nat \<Rightarrow> cell \<Rightarrow> grid_t \<Rightarrow> grid_t option" where
  "erase_cells y from0 to0 blank g =
     (if y \<ge> rows g then Some g
      else
        (let from = min from0 (cols g); to = min to0 (cols g) in
         if from \<ge> to then Some g
         else
           do { g \<leftarrow> fixup_wide_char_at from y g;
                g \<leftarrow> (if to < cols g then fixup_wide_char_at to y g else Some g);
                visible_row_mut y
                  (\<lambda>r. do { r \<leftarrow> foldm (\<lambda>i. row_set i blank) [from..<to] r;
                            Some (clear_combining_range (as_u16 from) (as_u16 to) r) }) g }))"

definition erase_row :: "cell \<Rightarrow> row \<Rightarrow> row" where
  "erase_row blank r = clear_all_combining (r\<lparr>row_cells := map (\<lambda>_. blank) (row_cells r)\<rparr>)"

definition erase_rows :: "nat \<Rightarrow> nat \<Rightarrow> cell \<Rightarrow> grid_t \<Rightarrow> grid_t option" where
  "erase_rows from_y to_y blank g =
     foldm (\<lambda>y. visible_row_mut y (\<lambda>r. Some (erase_row blank r)))
       [min from_y (rows g)..<min to_y (rows g)] g"

subsection \<open>The grid invariant\<close>

text \<open>
  \<open>P\<close> is a property of single cells (in the end: the style identifier is live). It is a parameter
  because it speaks about the style table, which some operations change.
\<close>

definition grid_ok :: "(cell \<Rightarrow> bool) \<Rightarrow> grid_t \<Rightarrow> bool" where
  "grid_ok P g \<longleftrightarrow>
     0 < cols g \<and> cols g \<le> u16_max \<and> 0 < rows g \<and> rows g \<le> u16_max
     \<and> length (cells g) = scrollback_len g + rows g
     \<and> pending_start g \<le> scrollback_len g
     \<and> cursor_x g < cols g \<and> cursor_y g < rows g
     \<and> scroll_top g \<le> scroll_bottom g \<and> scroll_bottom g < rows g
     \<and> length (tab_stops g) = cols g
     \<and> list_all (row_ok P) (take (scrollback_len g) (cells g))
     \<and> list_all (row_fits P (cols g)) (drop (scrollback_len g) (cells g))"

lemma grid_okD:
  assumes "grid_ok P g"
  shows "0 < cols g" "cols g \<le> u16_max" "0 < rows g" "rows g \<le> u16_max"
    "length (cells g) = scrollback_len g + rows g" "pending_start g \<le> scrollback_len g"
    "cursor_x g < cols g" "cursor_y g < rows g"
    "scroll_top g \<le> scroll_bottom g" "scroll_bottom g < rows g" "length (tab_stops g) = cols g"
    "list_all (row_ok P) (take (scrollback_len g) (cells g))"
    "list_all (row_fits P (cols g)) (drop (scrollback_len g) (cells g))"
  using assms by (auto simp: grid_ok_def)

lemma grid_ok_mono:
  assumes "grid_ok P g" and PQ: "\<And>cl. P cl \<Longrightarrow> Q cl"
  shows "grid_ok Q g"
  using assms row_ok_mono[of P _ Q]
  by (auto simp: grid_ok_def row_fits_def list_all_iff)

lemma grid_ok_row: "grid_ok P g \<Longrightarrow> y < rows g \<Longrightarrow> row_fits P (cols g) (cells g ! (scrollback_len g + y))"
  using list_all_nth[of "row_fits P (cols g)" "drop (scrollback_len g) (cells g)" y]
  by (simp add: grid_ok_def)

lemma length_default_tab_stops [simp]: "length (default_tab_stops n) = n"
  by (simp add: default_tab_stops_def)

lemma grid_new_ok:
  assumes "P cell_default" and "c \<le> u16_max" and "r \<le> u16_max"
  shows "grid_ok P (grid_new c r limit)"
  using assms by (auto simp: grid_ok_def grid_new_def sanitize_dimensions_def Let_def)

lemma check_invariants_returns [simp]:
  "returns (check_invariants g) Q \<longleftrightarrow>
     pending_start g \<le> scrollback_len g \<and> length (cells g) = scrollback_len g + rows g \<and> Q g"
  by (auto simp: check_invariants_def)

lemma check_invariants_ok: "grid_ok P g \<Longrightarrow> check_invariants g = Some g"
  by (simp add: check_invariants_def grid_ok_def)

subsection \<open>Editing one visible row\<close>

text \<open>
  \<open>edit_row\<close> is the specification of every edit of a visible row: a pure function applied to the
  row. The cell operations are shown equal to an \<open>edit_row\<close>.
\<close>

definition edit_row :: "nat \<Rightarrow> (row \<Rightarrow> row) \<Rightarrow> grid_t \<Rightarrow> grid_t" where
  "edit_row y h g =
     g\<lparr>cells := (cells g)[scrollback_len g + y := h (cells g ! (scrollback_len g + y))]\<rparr>"

lemma edit_row_frame [simp]:
  "cols (edit_row y h g) = cols g" "rows (edit_row y h g) = rows g"
  "cursor_x (edit_row y h g) = cursor_x g" "cursor_y (edit_row y h g) = cursor_y g"
  "wrap_pending (edit_row y h g) = wrap_pending g"
  "scroll_top (edit_row y h g) = scroll_top g" "scroll_bottom (edit_row y h g) = scroll_bottom g"
  "cursor_visible (edit_row y h g) = cursor_visible g" "modes (edit_row y h g) = modes g"
  "tab_stops (edit_row y h g) = tab_stops g" "scrollback_len (edit_row y h g) = scrollback_len g"
  "scrollback_limit (edit_row y h g) = scrollback_limit g" "pending_start (edit_row y h g) = pending_start g"
  "style_table (edit_row y h g) = style_table g" "length (cells (edit_row y h g)) = length (cells g)"
  by (simp_all add: edit_row_def)

lemma edit_row_compose:
  "scrollback_len g + y < length (cells g) \<Longrightarrow> edit_row y h2 (edit_row y h1 g) = edit_row y (h2 \<circ> h1) g"
  by (simp add: edit_row_def)

lemma edit_row_id: "edit_row y id g = g"
  by (simp add: edit_row_def)

lemma edit_row_nth [simp]:
  "scrollback_len g + y < length (cells g) \<Longrightarrow>
   cells (edit_row y h g) ! (scrollback_len g + y) = h (cells g ! (scrollback_len g + y))"
  by (simp add: edit_row_def)

lemma edit_row_scrollback [simp]: "scrollback_rows (edit_row y h g) = scrollback_rows g"
  by (simp add: scrollback_rows_def edit_row_def)

lemma grid_ok_edit_row:
  assumes g: "grid_ok P g" and y: "y < rows g"
    and h: "\<And>r. row_fits P (cols g) r \<Longrightarrow> row_fits P (cols g) (h r)"
  shows "grid_ok P (edit_row y h g)"
  using g h[OF grid_ok_row[OF g y]]
  by (simp add: grid_ok_def edit_row_def drop_update_swap)

lemma visible_row_mut_edit:
  assumes "grid_ok P g" "y < rows g" "f (cells g ! (scrollback_len g + y)) = Some (h (cells g ! (scrollback_len g + y)))"
  shows "visible_row_mut y f g = Some (edit_row y h g)"
  using assms by (simp add: visible_row_mut_def visible_row_def vget_def edit_row_def grid_ok_def)

subsubsection \<open>Reference functions on rows\<close>

definition fix_row :: "nat \<Rightarrow> row \<Rightarrow> row" where
  "fix_row x r =
     (let cs = row_cells r in
      if cell_width (cs ! x) = 2 then r\<lparr>row_cells := cs[Suc x := cell_default, x := cell_default]\<rparr>
      else if cell_width (cs ! x) = 0 \<and> x > 0 then r\<lparr>row_cells := cs[x - 1 := cell_default, x := cell_default]\<rparr>
      else r)"

definition write_cell :: "nat \<Rightarrow> cell \<Rightarrow> row \<Rightarrow> row" where
  "write_cell x cl r = clear_combining x (r\<lparr>row_cells := (row_cells r)[x := cl]\<rparr>)"

definition put_cell :: "nat \<Rightarrow> cell \<Rightarrow> row \<Rightarrow> row" where
  "put_cell x cl = write_cell x cl \<circ> fix_row x"

definition put_row :: "nat \<Rightarrow> cell \<Rightarrow> row \<Rightarrow> row" where
  "put_row x cl r =
     (if cell_width cl = 2 \<and> Suc x < row_len r
      then put_cell (Suc x) (cell_new 0 (style_id cl) 0) (put_cell x cl r)
      else put_cell x cl r)"

definition fill_span :: "nat \<Rightarrow> nat \<Rightarrow> cell \<Rightarrow> row \<Rightarrow> row" where
  "fill_span a b blank r =
     r\<lparr>row_cells := map (\<lambda>i. if a \<le> i \<and> i < b then blank else row_cells r ! i) [0..<row_len r]\<rparr>"

definition erase_span :: "nat \<Rightarrow> nat \<Rightarrow> cell \<Rightarrow> row \<Rightarrow> row" where
  "erase_span a b blank r =
     (let r = fix_row a r; r = (if b < row_len r then fix_row b r else r)
      in clear_combining_range a b (fill_span a b blank r))"

lemma fix_row_fits [simp]: "row_fits P n r \<Longrightarrow> P cell_default \<Longrightarrow> row_fits P n (fix_row x r)"
  by (simp add: fix_row_def row_set_fits Let_def) (auto simp: row_fits_def row_ok_def row_len_def)

lemma fix_row_len [simp]: "row_len (fix_row x r) = row_len r"
  by (simp add: fix_row_def row_len_def Let_def)

lemma put_cell_fits [simp]:
  "row_fits P n r \<Longrightarrow> P cell_default \<Longrightarrow> P cl \<Longrightarrow> row_fits P n (put_cell x cl r)"
  by (simp add: put_cell_def write_cell_def row_set_fits)

lemma put_row_fits [simp]:
  "row_fits P n r \<Longrightarrow> P cell_default \<Longrightarrow> P cl \<Longrightarrow> P (cell_new 0 (style_id cl) 0) \<Longrightarrow> row_fits P n (put_row x cl r)"
  by (simp add: put_row_def)

lemma fill_span_fits [simp]: "row_fits P n r \<Longrightarrow> P blank \<Longrightarrow> row_fits P n (fill_span a b blank r)"
  by (auto simp: row_fits_def row_ok_def row_len_def fill_span_def list_all_iff)

lemma erase_span_fits [simp]:
  "row_fits P n r \<Longrightarrow> P cell_default \<Longrightarrow> P blank \<Longrightarrow> row_fits P n (erase_span a b blank r)"
  by (simp add: erase_span_def Let_def)

lemma erase_row_fits [simp]: "row_fits P n r \<Longrightarrow> P blank \<Longrightarrow> row_fits P n (erase_row blank r)"
  by (auto simp: erase_row_def clear_all_combining_def row_fits_def row_ok_def row_len_def
      combining_ok_def list_all_iff)

lemma fill_span_empty [simp]: "b \<le> a \<Longrightarrow> fill_span a b blank r = r"
  by (intro row.equality) (auto simp: fill_span_def row_len_def intro: nth_equalityI)

lemma row_fill_foldm:
  assumes "b \<le> row_len r" "a \<le> b"
  shows "foldm (\<lambda>i. row_set i blank) [a..<b] r = Some (fill_span a b blank r)"
  using assms
proof (induction b)
  case 0
  then show ?case by simp
next
  case (Suc b)
  show ?case
  proof (cases "a = Suc b")
    case True
    then show ?thesis by simp
  next
    case False
    with Suc show ?thesis
      by (auto simp: foldm_append fill_span_def row_set_def vset_def row_len_def
          intro!: row.equality nth_equalityI simp: nth_list_update)
  qed
qed

lemma fixup_wide_char_at_eq:
  assumes g: "grid_ok P g" and y: "y < rows g" and x: "x < cols g"
  shows "fixup_wide_char_at x y g = Some (edit_row y (fix_row x) g)"
proof -
  let ?r = "cells g ! (scrollback_len g + y)"
  have len: "length (row_cells ?r) = cols g" and idx: "scrollback_len g + y < length (cells g)"
    using grid_ok_row[OF g y] g y by (auto simp: row_fits_def row_len_def grid_ok_def)
  show ?thesis
    using x y len idx
    by (auto simp: fixup_wide_char_at_def visible_row_def visible_row_mut_def row_get_def row_set_def
        vget_def vset_def fix_row_def edit_row_def Let_def list_update_beyond)
qed

lemma grid_ok_index: "grid_ok P g \<Longrightarrow> y < rows g \<Longrightarrow> scrollback_len g + y < length (cells g)"
  by (simp add: grid_ok_def)

lemma write_cell_eq:
  assumes g: "grid_ok P g" and y: "y < rows g" and x: "x < cols g"
  shows "visible_row_mut y (\<lambda>r. row_set x cl r \<bind> (\<lambda>r. Some (clear_combining (as_u16 x) r))) g
           = Some (edit_row y (write_cell x cl) g)"
proof (rule visible_row_mut_edit[OF g y])
  let ?r = "cells g ! (scrollback_len g + y)"
  have "x < length (row_cells ?r)" "as_u16 x = x"
    using grid_ok_row[OF g y] x g by (auto simp: row_fits_def row_len_def grid_ok_def)
  then show "row_set x cl ?r \<bind> (\<lambda>r. Some (clear_combining (as_u16 x) r)) = Some (write_cell x cl ?r)"
    by (simp add: row_set_def vset_def write_cell_def)
qed

lemma put_cell_eq:
  assumes g: "grid_ok P g" and y: "y < rows g" and x: "x < cols g" and P: "P cell_default"
  shows "fixup_wide_char_at x y g \<bind>
      visible_row_mut y (\<lambda>r. row_set x cl r \<bind> (\<lambda>r. Some (clear_combining (as_u16 x) r)))
      = Some (edit_row y (put_cell x cl) g)"
proof -
  have "grid_ok P (edit_row y (fix_row x) g)" using g y P by (intro grid_ok_edit_row) auto
  then show ?thesis
    using y x by (simp add: fixup_wide_char_at_eq[OF g y x] write_cell_eq edit_row_compose
        grid_ok_index[OF g y] put_cell_def)
qed

lemma set_cell_eq:
  assumes g: "grid_ok P g" and y: "y < rows g" and x: "x < cols g" and P: "P cell_default" "P cl"
  shows "set_cell x y cl g = Some (edit_row y (put_row x cl) g)"
proof -
  have len: "row_len (cells g ! (scrollback_len g + y)) = cols g"
    using grid_ok_row[OF g y] by (simp add: row_fits_def)
  have g1: "grid_ok P (edit_row y (put_cell x cl) g)"
    using g y P by (intro grid_ok_edit_row) auto
  have first: "set_cell x y cl g = (if cell_width cl = 2 \<and> Suc x < cols g
      then fixup_wide_char_at (Suc x) y (edit_row y (put_cell x cl) g) \<bind>
        visible_row_mut y (\<lambda>r. row_set (Suc x) (cell_new 0 (style_id cl) 0) r \<bind>
          (\<lambda>r. Some (clear_combining (as_u16 (Suc x)) r)))
      else Some (edit_row y (put_cell x cl) g))"
    using x y by (simp add: set_cell_def bind_chain[OF put_cell_eq[OF g y x P(1)]])
  show ?thesis
  proof (cases "cell_width cl = 2 \<and> Suc x < cols g")
    case True
    then show ?thesis
      using put_cell_eq[OF g1 _ _ P(1), of y "Suc x" "cell_new 0 (style_id cl) 0"] y
      by (simp add: first edit_row_compose grid_ok_index[OF g y]) (simp add: edit_row_def put_row_def len)
  next
    case False
    then show ?thesis by (auto simp: first edit_row_def put_row_def len)
  qed
qed

lemma erase_cells_clamp:
  "erase_cells y a b blank g = erase_cells y (min a (cols g)) (min b (cols g)) blank g"
  by (simp add: erase_cells_def Let_def)

lemma erase_cells_eq:
  assumes g: "grid_ok P g" and y: "y < rows g" and P: "P cell_default" and ab: "a < b" "b \<le> cols g"
  shows "erase_cells y a b blank g = Some (edit_row y (erase_span a b blank) g)"
proof -
  let ?fix = "\<lambda>r. if b < row_len r then fix_row b (fix_row a r) else fix_row a r"
  have len: "row_len (cells g ! (scrollback_len g + y)) = cols g"
    using grid_ok_row[OF g y] by (simp add: row_fits_def)
  have min: "min a (cols g) = a" "min b (cols g) = b" and a: "a < cols g"
    using ab by auto
  have b16: "as_u16 a = a" "as_u16 b = b" using ab g by (auto simp: grid_ok_def)
  have g1: "grid_ok P (edit_row y (fix_row a) g)" using g y P by (intro grid_ok_edit_row) auto
  have fixed: "fixup_wide_char_at a y g \<bind> (\<lambda>g. if b < cols g then fixup_wide_char_at b y g else Some g)
      = Some (edit_row y ?fix g)"
    using ab y fixup_wide_char_at_eq[OF g y a] fixup_wide_char_at_eq[OF g1 _, of y b]
    by (auto simp: edit_row_compose grid_ok_index[OF g y]) (auto simp: edit_row_def len)
  have g2: "grid_ok P (edit_row y ?fix g)" using g y P by (intro grid_ok_edit_row) auto
  have fill: "visible_row_mut y (\<lambda>r. foldm (\<lambda>i. row_set i blank) [a..<b] r \<bind>
          (\<lambda>r. Some (clear_combining_range (as_u16 a) (as_u16 b) r))) (edit_row y ?fix g)
      = Some (edit_row y (\<lambda>r. clear_combining_range a b (fill_span a b blank r)) (edit_row y ?fix g))"
    using ab y g grid_ok_index[OF g y] len
    by (intro visible_row_mut_edit[OF g2]) (auto simp: row_fill_foldm b16)
  have "erase_cells y a b blank g = visible_row_mut y (\<lambda>r. foldm (\<lambda>i. row_set i blank) [a..<b] r \<bind>
          (\<lambda>r. Some (clear_combining_range (as_u16 a) (as_u16 b) r))) (edit_row y ?fix g)"
    using ab y by (simp add: erase_cells_def Let_def min bind_chain[OF fixed])
  also have "\<dots> = Some (edit_row y (erase_span a b blank) g)"
    unfolding fill using grid_ok_index[OF g y]
    by (simp add: edit_row_compose) (simp add: edit_row_def erase_span_def Let_def)
  finally show ?thesis .
qed

lemma erase_cells_empty: "min b (cols g) \<le> min a (cols g) \<Longrightarrow> erase_cells y a b blank g = Some g"
  by (simp add: erase_cells_def Let_def)

text \<open>\<open>erase_rows\<close> as the reference function on every row of the range.\<close>

definition erase_rows_spec :: "nat \<Rightarrow> nat \<Rightarrow> cell \<Rightarrow> grid_t \<Rightarrow> grid_t" where
  "erase_rows_spec a b blank g = fold (\<lambda>y. edit_row y (erase_row blank)) [min a (rows g)..<min b (rows g)] g"

lemma erase_rows_loop:
  assumes "grid_ok P g" "P blank" "\<forall>y\<in>set ys. y < rows g"
  shows "foldm (\<lambda>y. visible_row_mut y (\<lambda>r. Some (erase_row blank r))) ys g
           = Some (fold (\<lambda>y. edit_row y (erase_row blank)) ys g)
         \<and> grid_ok P (fold (\<lambda>y. edit_row y (erase_row blank)) ys g)"
  using assms
proof (induction ys arbitrary: g)
  case Nil
  then show ?case by simp
next
  case (Cons y ys)
  have "grid_ok P (edit_row y (erase_row blank) g)"
    using Cons.prems by (intro grid_ok_edit_row) auto
  with Cons show ?case
    by (simp add: visible_row_mut_edit[where P = P and h = "erase_row blank"])
qed

lemma erase_rows_eq:
  assumes "grid_ok P g" "P blank"
  shows "erase_rows a b blank g = Some (erase_rows_spec a b blank g)"
    and "grid_ok P (erase_rows_spec a b blank g)"
  using erase_rows_loop[OF assms, of "[min a (rows g)..<min b (rows g)]"]
  by (simp_all add: erase_rows_def erase_rows_spec_def)

lemma fold_edit_row_frame:
  "fold (\<lambda>y. edit_row y h) ys g = g\<lparr>cells := cells (fold (\<lambda>y. edit_row y h) ys g)\<rparr>"
proof (induction ys arbitrary: g)
  case Nil
  then show ?case by simp
next
  case (Cons y ys)
  have e: "(edit_row y h g)\<lparr>cells := cs\<rparr> = g\<lparr>cells := cs\<rparr>" for cs
    by (simp add: edit_row_def)
  show ?case
    unfolding fold.simps comp_apply using Cons.IH[of "edit_row y h g", unfolded e] .
qed

lemma erase_rows_spec_frame: "erase_rows_spec a b blank g = g\<lparr>cells := cells (erase_rows_spec a b blank g)\<rparr>"
  unfolding erase_rows_spec_def by (rule fold_edit_row_frame)

lemma fold_edit_nth:
  assumes "distinct ys" "i < length (cells g)"
  shows "cells (fold (\<lambda>y. edit_row y h) ys g) ! i
    = (if \<exists>y\<in>set ys. i = scrollback_len g + y then h (cells g ! i) else cells g ! i)"
  using assms
proof (induction ys arbitrary: g)
  case (Cons a ys)
  have "cells (edit_row a h g) ! i = (if i = scrollback_len g + a then h (cells g ! i) else cells g ! i)"
    using Cons.prems(2) by (simp add: edit_row_def nth_list_update)
  then show ?case using Cons by auto
qed simp

lemma fold_edit_length: "length (cells (fold (\<lambda>y. edit_row y h) ys g)) = length (cells g)"
  by (induction ys arbitrary: g) simp_all

text \<open>The rows of the range are erased and no other.\<close>

lemma erase_rows_spec_nth:
  assumes "i < length (cells g)"
  shows "cells (erase_rows_spec a b blank g) ! i
    = (if scrollback_len g + min a (rows g) \<le> i \<and> i < scrollback_len g + min b (rows g)
       then erase_row blank (cells g ! i) else cells g ! i)"
proof -
  have "(\<exists>y\<in>set [m..<n]. i = scrollback_len g + y) \<longleftrightarrow> scrollback_len g + m \<le> i \<and> i < scrollback_len g + n" for m n
    by (auto intro!: bexI[of _ "i - scrollback_len g"])
  then show ?thesis using assms by (simp add: erase_rows_spec_def fold_edit_nth del: set_upt)
qed

lemma erase_all_rows:
  assumes "length (cells g) = scrollback_len g + rows g"
  shows "drop (scrollback_len g) (cells (erase_rows_spec 0 (rows g) blank g))
    = map (erase_row blank) (drop (scrollback_len g) (cells g))"
proof (rule nth_equalityI)
  show len: "length (drop (scrollback_len g) (cells (erase_rows_spec 0 (rows g) blank g)))
    = length (map (erase_row blank) (drop (scrollback_len g) (cells g)))"
    by (simp add: erase_rows_spec_def fold_edit_length)
  fix i assume "i < length (drop (scrollback_len g) (cells (erase_rows_spec 0 (rows g) blank g)))"
  then have "i < rows g" using assms by (simp add: erase_rows_spec_def fold_edit_length)
  then show "drop (scrollback_len g) (cells (erase_rows_spec 0 (rows g) blank g)) ! i
    = map (erase_row blank) (drop (scrollback_len g) (cells g)) ! i"
    using assms by (simp add: erase_rows_spec_nth erase_rows_spec_def fold_edit_length)
      (simp add: fold_edit_nth)
qed

lemma erase_row_blank: "P blank \<Longrightarrow> row_fits Q n r \<Longrightarrow> row_fits P n (erase_row blank r)"
  by (auto simp: erase_row_def clear_all_combining_def row_fits_def row_ok_def row_len_def
      combining_ok_def list_all_iff)

subsection \<open>Scrolling moves rows\<close>

text \<open>
  The specification of scrolling on the two halves of the buffer: a region of the visible rows is
  rotated by one with a blank row entering, and a row that leaves at the top of the main screen is
  appended to the history, which keeps at most \<open>scrollback_limit\<close> rows.
\<close>

definition region_up :: "nat \<Rightarrow> nat \<Rightarrow> row \<Rightarrow> row list \<Rightarrow> row list" where
  "region_up tp bt blank v = insert_at bt blank (remove_at tp v)"

definition region_down :: "nat \<Rightarrow> nat \<Rightarrow> row \<Rightarrow> row list \<Rightarrow> row list" where
  "region_down tp bt blank v = insert_at tp blank (remove_at bt v)"

definition scroll_up_spec :: "bool \<Rightarrow> cell \<Rightarrow> grid_t \<Rightarrow> grid_t" where
  "scroll_up_spec in_alt fill g =
     (let h = take (scrollback_len g) (cells g);
          v = drop (scrollback_len g) (cells g);
          v' = region_up (scroll_top g) (scroll_bottom g) (new_blank_row fill g) v in
      if \<not> in_alt \<and> scroll_top g = 0 \<and> 0 < scrollback_limit g then
        (if scrollback_limit g \<le> scrollback_len g
         then g\<lparr>cells := tl (h @ [hd v]) @ v', pending_start := pending_start g - 1\<rparr>
         else g\<lparr>cells := (h @ [hd v]) @ v', scrollback_len := scrollback_len g + 1\<rparr>)
      else g\<lparr>cells := h @ v'\<rparr>)"

definition scroll_down_spec :: "cell \<Rightarrow> grid_t \<Rightarrow> grid_t" where
  "scroll_down_spec fill g =
     g\<lparr>cells := take (scrollback_len g) (cells g) @
        region_down (scroll_top g) (scroll_bottom g) (new_blank_row fill g)
          (drop (scrollback_len g) (cells g))\<rparr>"

lemma length_region_up [simp]: "tp \<le> bt \<Longrightarrow> bt < length v \<Longrightarrow> length (region_up tp bt b v) = length v"
  by (simp add: region_up_def)

lemma length_region_down [simp]: "tp \<le> bt \<Longrightarrow> bt < length v \<Longrightarrow> length (region_down tp bt b v) = length v"
  by (simp add: region_down_def)

lemma list_all_region_up [simp]: "list_all Q v \<Longrightarrow> Q b \<Longrightarrow> list_all Q (region_up tp bt b v)"
  by (simp add: region_up_def)

lemma list_all_region_down [simp]: "list_all Q v \<Longrightarrow> Q b \<Longrightarrow> list_all Q (region_down tp bt b v)"
  by (simp add: region_down_def)

lemma insert_at_append: "length h \<le> i \<Longrightarrow> insert_at i x (h @ v) = h @ insert_at (i - length h) x v"
  by (simp add: insert_at_def)

lemma remove_at_append: "length h \<le> i \<Longrightarrow> remove_at i (h @ v) = h @ remove_at (i - length h) v"
  by (simp add: remove_at_def Suc_diff_le)

lemma insert_at_end [simp]: "length v \<le> i \<Longrightarrow> insert_at i x v = v @ [x]"
  by (simp add: insert_at_def)

lemma insert_at_Suc [simp]: "insert_at (Suc i) x (y # v) = y # insert_at i x v"
  by (simp add: insert_at_def)

lemma remove_at_Cons0 [simp]: "remove_at 0 (x # v) = v"
  by (simp add: remove_at_def)

lemma new_blank_row_frame [simp]:
  "new_blank_row fill (g\<lparr>cells := cs\<rparr>) = new_blank_row fill g"
  "new_blank_row fill (g\<lparr>scrollback_len := n\<rparr>) = new_blank_row fill g"
  "new_blank_row fill (g\<lparr>pending_start := n\<rparr>) = new_blank_row fill g"
  by (simp_all add: new_blank_row_def)

lemma grid_split:
  assumes "grid_ok P g"
  obtains h v vs where "cells g = h @ v # vs" "scrollback_len g = length h" "rows g = Suc (length vs)"
proof -
  let ?v = "drop (scrollback_len g) (cells g)"
  have "length ?v = rows g" "rows g > 0" using assms by (auto simp: grid_ok_def)
  then obtain w ws where v: "?v = w # ws" by (cases ?v) auto
  show thesis
  proof (rule that)
    show "cells g = take (scrollback_len g) (cells g) @ w # ws"
      using append_take_drop_id[of "scrollback_len g" "cells g"] v by simp
    show "scrollback_len g = length (take (scrollback_len g) (cells g))"
      using assms by (simp add: grid_ok_def)
    show "rows g = Suc (length ws)" using v \<open>length ?v = rows g\<close> by simp
  qed
qed

lemma scroll_up_eq:
  assumes g: "grid_ok P g"
  shows "scroll_up in_alt fill g = Some (scroll_up_spec in_alt fill g)"
proof -
  obtain h v vs where split: "cells g = h @ v # vs" "scrollback_len g = length h" "rows g = Suc (length vs)"
    using grid_split[OF g] .
  have region: "scroll_top g \<le> scroll_bottom g" "scroll_bottom g \<le> length vs" "pending_start g \<le> length h"
    using g split by (auto simp: grid_ok_def)
  show ?thesis
  proof (cases "\<not> in_alt \<and> scroll_top g = 0 \<and> 0 < scrollback_limit g")
    case True
    then show ?thesis
      using split region
      by (cases h) (auto simp: scroll_up_def scroll_up_spec_def Let_def usub_def insert_visible_row_def
          vinsert_def check_invariants_def region_up_def insert_at_append intro!: grid_t.equality)
  next
    case False
    have "scroll_up in_alt fill g = insert_visible_row (scroll_bottom g) (new_blank_row fill g)
        (g\<lparr>cells := h @ remove_at (scroll_top g) (v # vs)\<rparr>) \<bind> check_invariants"
      unfolding scroll_up_def Let_def if_not_P[OF False]
      using split region
      by (simp add: usub_def insert_visible_row_def vinsert_def remove_at_append insert_at_append)
    also have "\<dots> = Some (g\<lparr>cells := h @
        region_up (scroll_top g) (scroll_bottom g) (new_blank_row fill g) (v # vs)\<rparr>)"
      using split region
      by (simp add: insert_visible_row_def vinsert_def check_invariants_def region_up_def insert_at_append)
    finally have "scroll_up in_alt fill g = Some (g\<lparr>cells := h @
        region_up (scroll_top g) (scroll_bottom g) (new_blank_row fill g) (v # vs)\<rparr>)" .
    then show ?thesis
      unfolding scroll_up_spec_def Let_def if_not_P[OF False] by (simp add: split)
  qed
qed

lemma scroll_down_eq:
  assumes g: "grid_ok P g"
  shows "scroll_down fill g = Some (scroll_down_spec fill g)"
proof -
  obtain h v vs where split: "cells g = h @ v # vs" "scrollback_len g = length h" "rows g = Suc (length vs)"
    using grid_split[OF g] .
  have region: "scroll_top g \<le> scroll_bottom g" "scroll_bottom g \<le> length vs" "pending_start g \<le> length h"
    using g split by (auto simp: grid_ok_def)
  then show ?thesis
    using split
    by (auto simp: scroll_down_def scroll_down_spec_def Let_def usub_def insert_visible_row_def vinsert_def
        check_invariants_def region_down_def insert_at_append remove_at_append)
qed

lemma row_fits_blank [simp]: "P fill \<Longrightarrow> row_fits P (cols g) (new_blank_row fill g)"
  by (simp add: new_blank_row_def)

lemma scroll_up_ok:
  assumes g: "grid_ok P g" and P: "P fill"
  shows "grid_ok P (scroll_up_spec in_alt fill g)"
proof -
  obtain h v vs where split: "cells g = h @ v # vs" "scrollback_len g = length h" "rows g = Suc (length vs)"
    using grid_split[OF g] .
  then show ?thesis
    using g P by (cases h) (auto simp: grid_ok_def scroll_up_spec_def Let_def row_fits_ok)
qed

lemma scroll_down_ok:
  assumes g: "grid_ok P g" and P: "P fill"
  shows "grid_ok P (scroll_down_spec fill g)"
  using g P by (auto simp: grid_ok_def scroll_down_spec_def)

subsection \<open>Buffer operations and resizing\<close>

text \<open>The part of the invariant that holds while the number of visible rows is being changed.\<close>

definition buffer_ok :: "(cell \<Rightarrow> bool) \<Rightarrow> grid_t \<Rightarrow> bool" where
  "buffer_ok P g \<longleftrightarrow>
     list_all (row_ok P) (cells g) \<and> scrollback_len g \<le> length (cells g) \<and> pending_start g \<le> scrollback_len g"

lemma grid_ok_buffer: "grid_ok P g \<Longrightarrow> buffer_ok P g"
proof -
  assume g: "grid_ok P g"
  have "list_all (row_ok P) (take (scrollback_len g) (cells g) @ drop (scrollback_len g) (cells g))"
    using g unfolding list_all_append by (auto simp: grid_ok_def list_all_iff row_fits_def)
  then show "buffer_ok P g" using g by (simp add: buffer_ok_def grid_ok_def)
qed

lemma grid_ok_control:
  assumes "grid_ok P g" and "cursor_x h < cols g" "cursor_y h < rows g"
    "scroll_top h \<le> scroll_bottom h" "scroll_bottom h < rows g" "length (tab_stops h) = cols g"
    "cols h = cols g" "rows h = rows g" "cells h = cells g" "scrollback_len h = scrollback_len g"
    "pending_start h \<le> scrollback_len g"
  shows "grid_ok P h"
  using assms by (simp add: grid_ok_def)

lemma fit_row_fits:
  assumes "row_ok P r" "P cell_default" "n < 65536"
  shows "row_fits P n (row_resize n cell_default (fix_wide_char_orphan_at_boundary n r))"
  using assms by (intro row_resize_fits fix_orphan_ok)

text \<open>What a resize does to the buffer: the history is untouched, the visible rows are cut or filled.\<close>

definition fit_rows :: "nat \<Rightarrow> nat \<Rightarrow> row list \<Rightarrow> row list" where
  "fit_rows c r v =
     map (\<lambda>w. row_resize c cell_default (fix_wide_char_orphan_at_boundary c w)) (vresize r (row_new c) v)"

definition grid_resize_spec :: "nat \<Rightarrow> nat \<Rightarrow> grid_t \<Rightarrow> grid_t" where
  "grid_resize_spec c0 r0 g =
     (let c = max c0 1; r = max r0 1 in
      g\<lparr>cols := c, rows := r,
        cells := take (scrollback_len g) (cells g) @ fit_rows c r (drop (scrollback_len g) (cells g)),
        cursor_x := min (cursor_x g) (c - 1), cursor_y := min (cursor_y g) (r - 1),
        wrap_pending := False, scroll_top := 0, scroll_bottom := r - 1, tab_stops := default_tab_stops c\<rparr>)"

lemma grid_resize_eq:
  assumes "buffer_ok P g"
  shows "grid_resize c r g = Some (grid_resize_spec c r g)"
proof -
  let ?h = "take (scrollback_len g) (cells g)" and ?v = "drop (scrollback_len g) (cells g)"
  define c1 r1 where "c1 = max c 1" and "r1 = max r 1"
  have pos: "0 < c1" "0 < r1" by (simp_all add: c1_def r1_def)
  have sb: "scrollback_len g \<le> length (cells g)" "pending_start g \<le> scrollback_len g"
    using assms by (auto simp: buffer_ok_def)
  define fit where "fit = (if r1 < length (cells g) - scrollback_len g
        then take (length (cells g) - (length (cells g) - scrollback_len g - r1)) (cells g)
        else if length (cells g) - scrollback_len g < r1
        then cells g @ replicate (r1 - (length (cells g) - scrollback_len g)) (row_new c1) else cells g)"
  have fit: "fit = ?h @ vresize r1 (row_new c1) ?v"
    unfolding fit_def using sb append_take_drop_id[of "scrollback_len g" "cells g"]
    by (auto simp: vresize_def take_add[symmetric])
  have upd: "(if a then h\<lparr>cells := xs\<rparr> else if b then h\<lparr>cells := ys\<rparr> else h)
      = h\<lparr>cells := (if a then xs else if b then ys else cells h)\<rparr>" for a b xs ys and h :: grid_t
    by simp
  have cur: "(if cursor_x h \<ge> c1 then h\<lparr>cursor_x := c1 - 1\<rparr> else h) = h\<lparr>cursor_x := min (cursor_x h) (c1 - 1)\<rparr>"
    "(if cursor_y h \<ge> r1 then h\<lparr>cursor_y := r1 - 1\<rparr> else h) = h\<lparr>cursor_y := min (cursor_y h) (r1 - 1)\<rparr>"
    for h :: grid_t
    using pos by (auto simp: min_def intro!: grid_t.equality)
  have len: "length fit = scrollback_len g + r1" using sb by (simp add: fit)
  have vis: "usub (length (cells g)) (scrollback_len g) = Some (length (cells g) - scrollback_len g)"
    using sb by (simp add: usub_def)
  have "grid_resize c r g = check_invariants (g\<lparr>cols := c1, rows := r1,
      cells := take (scrollback_len g) fit @ map (\<lambda>w. row_resize c1 cell_default
        (fix_wide_char_orphan_at_boundary c1 w)) (drop (scrollback_len g) fit),
      cursor_x := min (cursor_x g) (c1 - 1), cursor_y := min (cursor_y g) (r1 - 1),
      wrap_pending := False, scroll_top := 0, scroll_bottom := r1 - 1, tab_stops := default_tab_stops c1\<rparr>)"
    unfolding grid_resize_def sanitize_dimensions_def terminal_size.simps Let_def
      c1_def[symmetric] r1_def[symmetric] upd cur
    by (simp add: vis fit_def)
  also have "\<dots> = Some (grid_resize_spec c r g)"
    unfolding grid_resize_spec_def Let_def c1_def[symmetric] r1_def[symmetric]
    using sb by (simp add: check_invariants_def fit fit_rows_def)
  finally show ?thesis .
qed

lemma fit_rows_fits:
  assumes "list_all (row_ok P) v" "P cell_default" "c < 65536"
  shows "list_all (row_fits P c) (fit_rows c r v)" "length (fit_rows c r v) = r"
proof -
  have "list_all (row_ok P) (vresize r (row_new c) v)"
    using assms by (simp add: row_fits_ok[of P c])
  then show "list_all (row_fits P c) (fit_rows c r v)"
    using assms(2,3) by (auto simp: fit_rows_def list_all_iff intro: fit_row_fits)
qed (simp add: fit_rows_def)

lemma grid_resize_ok:
  assumes g: "buffer_ok P g" and P: "P cell_default" and "c \<le> u16_max" "r \<le> u16_max"
  shows "grid_ok P (grid_resize_spec c r g)"
proof -
  have v: "list_all (row_ok P) (drop (scrollback_len g) (cells g))" using g by (simp add: buffer_ok_def)
  then have "list_all (row_fits P (max c 1)) (fit_rows (max c 1) (max r 1) (drop (scrollback_len g) (cells g)))"
    using P assms(3) by (intro fit_rows_fits) auto
  then show ?thesis
    using assms
    by (auto simp: grid_ok_def grid_resize_spec_def buffer_ok_def Let_def fit_rows_def max_def min_def)
qed

lemma clear_scrollback_eq:
  assumes "grid_ok P g"
  shows "clear_scrollback g =
    Some (g\<lparr>cells := drop (scrollback_len g) (cells g), scrollback_len := 0, pending_start := 0\<rparr>)"
  using assms by (simp add: clear_scrollback_def check_invariants_def grid_ok_def)

lemma clear_scrollback_ok:
  "grid_ok P g \<Longrightarrow>
   grid_ok P (g\<lparr>cells := drop (scrollback_len g) (cells g), scrollback_len := 0, pending_start := 0\<rparr>)"
  by (simp add: grid_ok_def)

lemma next_tab_stop_bound:
  assumes "grid_ok P g"
  shows "returns (next_tab_stop x g) (\<lambda>c. c < cols g)"
proof -
  have "as_u16 c < cols g" if "find p [x + 1..<length (tab_stops g)] = Some c" for p c
    using that assms by (auto simp: find_Some_iff grid_ok_def)
  then show ?thesis
    using assms by (auto simp: next_tab_stop_def grid_ok_def split: option.split)
qed

end
