(* ===== verification/Utf8.thy ===== *)
theory Utf8
  imports Prelude
begin

text \<open>
  The part of Rust's string library the emulator uses: the encoding of a \<open>char\<close> (its code point)
  as UTF-8, the validity test of \<open>str::from_utf8\<close>, the boundary test behind string slicing, and
  \<open>str::parse::<u16>\<close>. Texts are byte lists.

  Shown here: an encoded character is valid UTF-8 and validity is closed under concatenation, so
  that texts built from characters are valid.
\<close>

abbreviation bval :: "byte \<Rightarrow> nat" where
  "bval c \<equiv> of_char c"

definition byte_of :: "nat \<Rightarrow> byte" where
  "byte_of n = char_of n"

lemma bval_byte_of [simp]: "n < 256 \<Longrightarrow> bval (byte_of n) = n"
  by (simp add: byte_of_def)

text \<open>The values a Rust \<open>char\<close> can have.\<close>

definition scalar :: "rchar \<Rightarrow> bool" where
  "scalar c \<longleftrightarrow> c < 0xD800 \<or> 0xE000 \<le> c \<and> c < 0x110000"

definition encode_utf8 :: "rchar \<Rightarrow> bytes" where
  "encode_utf8 c =
     (if c < 0x80 then [byte_of c]
      else if c < 0x800 then [byte_of (0xC0 + c div 64), byte_of (0x80 + c mod 64)]
      else if c < 0x10000 then
        [byte_of (0xE0 + c div 4096), byte_of (0x80 + c div 64 mod 64), byte_of (0x80 + c mod 64)]
      else
        [byte_of (0xF0 + c div 262144), byte_of (0x80 + c div 4096 mod 64),
         byte_of (0x80 + c div 64 mod 64), byte_of (0x80 + c mod 64)])"

definition is_cont :: "byte \<Rightarrow> bool" where
  "is_cont b \<longleftrightarrow> 0x80 \<le> bval b \<and> bval b \<le> 0xBF"

text \<open>The second byte of a three or four byte sequence excludes overlong forms, surrogates and
  values beyond \<open>0x10FFFF\<close>.\<close>

definition second_ok :: "byte \<Rightarrow> byte \<Rightarrow> bool" where
  "second_ok a b \<longleftrightarrow>
     (if bval a = 0xE0 then 0xA0 \<le> bval b \<and> bval b \<le> 0xBF
      else if bval a = 0xED then 0x80 \<le> bval b \<and> bval b \<le> 0x9F
      else if bval a = 0xF0 then 0x90 \<le> bval b \<and> bval b \<le> 0xBF
      else if bval a = 0xF4 then 0x80 \<le> bval b \<and> bval b \<le> 0x8F
      else is_cont b)"

text \<open>The length of the character a byte starts, as in the table of \<open>core::str::validations\<close>.\<close>

definition char_len :: "byte \<Rightarrow> nat" where
  "char_len a =
     (if bval a < 0x80 then 1 else if 0xC2 \<le> bval a \<and> bval a \<le> 0xDF then 2
      else if 0xE0 \<le> bval a \<and> bval a \<le> 0xEF then 3
      else if 0xF0 \<le> bval a \<and> bval a \<le> 0xF4 then 4 else 0)"

fun utf8_valid :: "bytes \<Rightarrow> bool" where
  "utf8_valid [] \<longleftrightarrow> True"
| "utf8_valid (a # bs) \<longleftrightarrow>
     (if char_len a = 1 then utf8_valid bs
      else if char_len a = 2 then
        (case bs of b # bs \<Rightarrow> is_cont b \<and> utf8_valid bs | _ \<Rightarrow> False)
      else if char_len a = 3 then
        (case bs of b # c # bs \<Rightarrow> second_ok a b \<and> is_cont c \<and> utf8_valid bs | _ \<Rightarrow> False)
      else if char_len a = 4 then
        (case bs of b # c # d # bs \<Rightarrow> second_ok a b \<and> is_cont c \<and> is_cont d \<and> utf8_valid bs | _ \<Rightarrow> False)
      else False)"

declare utf8_valid.simps(2) [simp del]

text \<open>\<open>s.is_char_boundary(i)\<close>, the condition under which \<open>&s[..i]\<close> does not panic.\<close>

definition is_char_boundary :: "bytes \<Rightarrow> nat \<Rightarrow> bool" where
  "is_char_boundary s i \<longleftrightarrow>
     i = 0 \<or> i = length s \<or> (i < length s \<and> \<not> is_cont (s ! i))"

text \<open>\<open>parse::<u16>\<close> and \<open>parse::<usize>\<close>: an optional plus sign, at least one digit, no overflow.\<close>

definition parse_digits :: "nat \<Rightarrow> bytes \<Rightarrow> nat option" where
  "parse_digits limit ds =
     (if ds \<noteq> [] \<and> list_all (\<lambda>c. 48 \<le> bval c \<and> bval c \<le> 57) ds
      then (let n = foldl (\<lambda>n c. 10 * n + (bval c - 48)) 0 ds
            in if n \<le> limit then Some n else None)
      else None)"

definition parse_uint :: "nat \<Rightarrow> bytes \<Rightarrow> nat option" where
  "parse_uint limit s =
     (case s of c # ds \<Rightarrow> if c = CHR ''+'' then parse_digits limit ds else parse_digits limit s | [] \<Rightarrow> None)"

abbreviation parse_u16 :: "bytes \<Rightarrow> nat option" where
  "parse_u16 \<equiv> parse_uint u16_max"

subsection \<open>Encoded characters are valid\<close>

lemma encode_utf8_split:
  assumes "scalar c"
  shows "utf8_valid (encode_utf8 c @ bs) = utf8_valid bs"
proof -
  have low: "n mod 64 \<le> 63" for n :: nat
    using mod_less_divisor[of 64 n] by linarith
  have d: "c div 64 = 64 * (c div 4096) + c div 64 mod 64" "c div 4096 = 64 * (c div 262144) + c div 4096 mod 64"
    using div_mult_mod_eq[of "c div 64" 64] div_mult_mod_eq[of "c div 4096" 64]
    by (simp_all add: div_mult2_eq[symmetric])
  consider "c < 0x80" | "0x80 \<le> c" "c < 0x800" | "0x800 \<le> c" "c < 0x10000" | "0x10000 \<le> c" "c < 0x110000"
    using assms by (force simp: scalar_def)
  then show ?thesis
  proof cases
    case 1
    then show ?thesis by (simp add: encode_utf8_def char_len_def utf8_valid.simps(2))
  next
    case 2
    then have "2 \<le> c div 64" "c div 64 \<le> 31" by linarith+
    with 2 low show ?thesis
      by (simp add: encode_utf8_def char_len_def is_cont_def utf8_valid.simps(2)[of "byte_of _"])
  next
    case 3
    have hi: "c div 4096 \<le> 15" using 3 by linarith
    have e0: "32 \<le> c div 64" "c div 64 \<le> 63" if "c div 4096 = 0"
      using that 3 d by linarith+
    have ed: "c div 64 mod 64 \<le> 31" if "c div 4096 = 13"
    proof -
      have "c < 0xD800" using that assms by (simp add: scalar_def) linarith
      with that d show ?thesis by linarith
    qed
    show ?thesis
      using 3 hi e0 ed low
      by (simp add: encode_utf8_def char_len_def is_cont_def second_ok_def utf8_valid.simps(2)[of "byte_of _"])
  next
    case 4
    have hi: "c div 262144 \<le> 4" using 4 by linarith
    have f0: "16 \<le> c div 4096" "c div 4096 \<le> 63" if "c div 262144 = 0" using that 4 d by linarith+
    have f4: "c div 4096 mod 64 \<le> 15" if "c div 262144 = 4" using that 4 d by linarith
    show ?thesis
      using 4 hi f0 f4 low
      by (simp add: encode_utf8_def char_len_def is_cont_def second_ok_def utf8_valid.simps(2)[of "byte_of _"])
  qed
qed

lemma utf8_valid_append: "utf8_valid xs \<Longrightarrow> utf8_valid (xs @ ys) = utf8_valid ys"
proof (induction xs rule: utf8_valid.induct)
  case (2 a bs)
  then show ?case
    unfolding append_Cons utf8_valid.simps(2)[of a] by (auto split: list.splits if_splits)
qed simp

lemma utf8_valid_encode [simp]: "scalar c \<Longrightarrow> utf8_valid (encode_utf8 c)"
  using encode_utf8_split[of c "[]"] by simp

lemma utf8_valid_concat: "list_all utf8_valid xs \<Longrightarrow> utf8_valid (concat xs)"
  by (induction xs) (auto simp: utf8_valid_append)

lemma parse_uint_le: "parse_uint limit s = Some n \<Longrightarrow> n \<le> limit"
  by (auto simp: parse_uint_def parse_digits_def Let_def split: list.splits if_splits)

end
