(* ===== verification/Performer.thy ===== *)
theory Performer
  imports Grid Utf8
begin

text \<open>
  \<open>src/src/screen/performer.rs\<close> (\<open>ScreenPerformer\<close>: the interpreter of escape sequences) with the
  state it works on, \<open>ScreenState\<close> and \<open>SavedCursor\<close> of \<open>src/src/screen/mod.rs\<close>, and the style
  garbage collection \<open>compact_styles\<close> of the same file. The grid is reached through the trait of
  \<open>src/src/screen/grid_mutator.rs\<close>, whose only implementation outside tests is \<open>Grid\<close>.

  The \<open>vte\<close> parser calls the methods of the \<open>Perform\<close> trait; \<open>action\<close> has one constructor per
  method and \<open>perform\<close> is the dispatch. The display width of a character comes from the
  \<open>unicode-width\<close> package and is the parameter \<open>cwidth\<close>.

  A screen operation is a function \<open>screen_t \<Rightarrow> screen_t option\<close>, \<open>None\<close> being a panic.
\<close>

subsection \<open>State\<close>

record saved_cursor =
  sc_x :: nat
  sc_y :: nat
  sc_style :: style
  sc_g0_charset :: charset
  sc_g1_charset :: charset
  sc_active_charset :: active_charset_t
  sc_autowrap_mode :: bool
  sc_origin_mode :: bool
  sc_wrap_pending :: bool

record screen_state =
  current_style :: style
  in_alt_screen :: bool
  saved_grid :: "saved_grid_t option"
  saved_cursor_state :: "saved_cursor option"
  saved_modes :: "terminal_modes option"
  saved_scroll_region :: "(nat \<times> nat) option"
  pending_responses :: "bytes list"
  pending_passthrough :: "bytes list"
  queued_notifications :: "bytes list"
  title :: bytes
  title_stack :: "bytes list"
  last_printed_char :: rchar

abbreviation MAX_PENDING :: nat where "MAX_PENDING \<equiv> 1024"
abbreviation MAX_QUEUED_NOTIFICATIONS :: nat where "MAX_QUEUED_NOTIFICATIONS \<equiv> 50"
abbreviation MAX_COMBINING :: nat where "MAX_COMBINING \<equiv> 16"

definition screen_state_default :: screen_state where
  "screen_state_default = \<lparr>current_style = style_default, in_alt_screen = False, saved_grid = None,
     saved_cursor_state = None, saved_modes = None, saved_scroll_region = None,
     pending_responses = [], pending_passthrough = [], queued_notifications = [],
     title = [], title_stack = [], last_printed_char = 32\<rparr>"

definition push_response :: "bytes \<Rightarrow> screen_state \<Rightarrow> screen_state" where
  "push_response d st = st\<lparr>pending_responses := push_drop_new MAX_PENDING d (pending_responses st)\<rparr>"

definition push_passthrough :: "bytes \<Rightarrow> screen_state \<Rightarrow> screen_state" where
  "push_passthrough d st = st\<lparr>pending_passthrough := push_drop_new MAX_PENDING d (pending_passthrough st)\<rparr>"

definition push_notification :: "bytes \<Rightarrow> screen_state \<Rightarrow> screen_state" where
  "push_notification d st =
     st\<lparr>queued_notifications := push_drop_old MAX_QUEUED_NOTIFICATIONS d (queued_notifications st)\<rparr>"

record screen_t =
  grid :: grid_t
  state :: screen_state

definition on_grid :: "(grid_t \<Rightarrow> grid_t) \<Rightarrow> screen_t \<Rightarrow> screen_t" where
  "on_grid f s = s\<lparr>grid := f (grid s)\<rparr>"

definition try_grid :: "(grid_t \<Rightarrow> grid_t option) \<Rightarrow> screen_t \<Rightarrow> screen_t option" where
  "try_grid f s = do { g \<leftarrow> f (grid s); Some (s\<lparr>grid := g\<rparr>) }"

definition on_state :: "(screen_state \<Rightarrow> screen_state) \<Rightarrow> screen_t \<Rightarrow> screen_t" where
  "on_state f s = s\<lparr>state := f (state s)\<rparr>"

subsection \<open>Styles\<close>

definition mark_live :: "cell \<Rightarrow> bool list \<Rightarrow> bool list" where
  "mark_live cl live = (if style_id cl < length live then live[style_id cl := True] else live)"

definition mark_rows :: "row list \<Rightarrow> bool list \<Rightarrow> bool list" where
  "mark_rows rs live = fold (\<lambda>r. fold mark_live (row_cells r)) rs live"

definition compact_styles :: "saved_grid_t option \<Rightarrow> grid_t \<Rightarrow> grid_t" where
  "compact_styles saved g =
     (let cap = style_capacity (style_table g) in
      if cap \<le> 1 then g
      else
        (let live = (replicate cap False)[0 := True];
             live = mark_rows (scrollback_rows g @ visible_rows g) live;
             live = (case saved of Some sg \<Rightarrow> mark_rows (visible_cells sg) live | None \<Rightarrow> live)
         in g\<lparr>style_table := reclaim live (style_table g)\<rparr>))"

text \<open>\<open>self.grid.style_table_mut().intern(style)\<close>.\<close>

definition intern_style :: "style \<Rightarrow> screen_t \<Rightarrow> (nat \<times> screen_t) option" where
  "intern_style sty s =
     do { (i, t) \<leftarrow> intern sty (style_table (grid s));
          Some (i, s\<lparr>grid := (grid s)\<lparr>style_table := t\<rparr>\<rparr>) }"

definition intern_with_gc :: "style \<Rightarrow> screen_t \<Rightarrow> (nat \<times> screen_t) option" where
  "intern_with_gc sty s =
     do { (i, s) \<leftarrow> intern_style sty s;
          if i = 0 \<and> \<not> style_is_default sty \<and> style_is_full (style_table (grid s))
          then intern_style sty (on_grid (compact_styles (saved_grid (state s))) s)
          else Some (i, s) }"

definition blank_cell :: "screen_t \<Rightarrow> (cell \<times> screen_t) option" where
  "blank_cell s =
     do { (i, s) \<leftarrow> intern_with_gc (style_default\<lparr>bg := bg (current_style (state s))\<rparr>) s;
          Some (cell_new 32 i 1, s) }"

definition p_scroll_up :: "screen_t \<Rightarrow> screen_t option" where
  "p_scroll_up s =
     do { (fill, s) \<leftarrow> blank_cell s; try_grid (scroll_up (in_alt_screen (state s)) fill) s }"

definition p_scroll_down :: "screen_t \<Rightarrow> screen_t option" where
  "p_scroll_down s = do { (fill, s) \<leftarrow> blank_cell s; try_grid (scroll_down fill) s }"

subsection \<open>Character sets, saved cursor, alternate screen\<close>

text \<open>The DEC line drawing characters, by code point.\<close>

definition line_drawing :: "(rchar \<times> rchar) list" where
  "line_drawing =
     [(106, 0x2518), (107, 0x2510), (108, 0x250C), (109, 0x2514), (110, 0x253C),
      (113, 0x2500), (116, 0x251C), (117, 0x2524), (118, 0x2534), (119, 0x252C),
      (120, 0x2502), (97, 0x2592), (96, 0x25C6)]"

definition map_charset :: "terminal_modes \<Rightarrow> rchar \<Rightarrow> rchar" where
  "map_charset m c =
     (case (case active_charset m of G0 \<Rightarrow> g0_charset m | G1 \<Rightarrow> g1_charset m) of
        LineDrawing \<Rightarrow> (case map_of line_drawing c of Some d \<Rightarrow> d | None \<Rightarrow> c)
      | Ascii \<Rightarrow> c)"

definition save_cursor :: "screen_t \<Rightarrow> screen_t" where
  "save_cursor s =
     (let g = grid s; m = modes g in
      on_state (\<lambda>st. st\<lparr>saved_cursor_state := Some
        \<lparr>sc_x = cursor_x g, sc_y = cursor_y g, sc_style = current_style st,
         sc_g0_charset = g0_charset m, sc_g1_charset = g1_charset m,
         sc_active_charset = active_charset m, sc_autowrap_mode = autowrap_mode m,
         sc_origin_mode = origin_mode m, sc_wrap_pending = wrap_pending g\<rparr>\<rparr>) s)"

definition restore_cursor :: "screen_t \<Rightarrow> screen_t option" where
  "restore_cursor s =
     (case saved_cursor_state (state s) of
        None \<Rightarrow> Some s
      | Some sc \<Rightarrow>
          do { mx \<leftarrow> usub (cols (grid s)) 1;
               my \<leftarrow> usub (rows (grid s)) 1;
               let s = on_grid (set_cursor_y_unclamped (min (sc_y sc) my)
                   \<circ> set_cursor_x_unclamped (min (sc_x sc) mx)
                   \<circ> set_wrap_pending (sc_wrap_pending sc)) s;
               let s = on_state (\<lambda>st. st\<lparr>current_style := sc_style sc\<rparr>) s;
               Some (on_grid (modes_mut (\<lambda>m. m\<lparr>g0_charset := sc_g0_charset sc,
                   g1_charset := sc_g1_charset sc, active_charset := sc_active_charset sc,
                   autowrap_mode := sc_autowrap_mode sc, origin_mode := sc_origin_mode sc\<rparr>)) s) })"

definition enter_alt_screen :: "bool \<Rightarrow> screen_t \<Rightarrow> screen_t option" where
  "enter_alt_screen do_save s =
     (if in_alt_screen (state s) then Some s
      else
        do { let s = (if do_save then save_cursor s else s);
             let s = on_state (\<lambda>st. st\<lparr>saved_scroll_region :=
                 Some (scroll_top (grid s), scroll_bottom (grid s))\<rparr>) s;
             (saved_visible, g) \<leftarrow> drain_visible (grid s);
             let s = s\<lparr>grid := g\<rparr>;
             let s = on_state (\<lambda>st. st\<lparr>saved_grid := Some \<lparr>visible_cells = saved_visible,
                 sg_scrollback_limit = scrollback_limit (grid s)\<rparr>\<rparr>) s;
             s \<leftarrow> try_grid fill_visible_blank s;
             let s = on_grid (set_scrollback_limit 0) s;
             let s = on_state (\<lambda>st. st\<lparr>saved_modes := Some (modes (grid s)), in_alt_screen := True\<rparr>) s;
             let s = on_grid (set_cursor_y_unclamped 0 \<circ> set_cursor_x_unclamped 0) s;
             s \<leftarrow> try_grid reset_scroll_region s;
             Some (on_grid (set_wrap_pending False) s) })"

text \<open>The rows of the saved screen are cut and filled to the width the screen has now.\<close>

definition refit_visible :: "grid_t \<Rightarrow> grid_t option" where
  "refit_visible g =
     foldm (\<lambda>y g. do { g \<leftarrow> visible_row_mut y (\<lambda>r. Some (fix_wide_char_orphan_at_boundary (cols g) r)) g;
                       visible_row_mut y (\<lambda>r. Some (row_resize (cols g) cell_default r)) g })
       [0..<visible_row_count g] g"

definition restore_saved_grid :: "saved_grid_t \<Rightarrow> grid_t \<Rightarrow> grid_t option" where
  "restore_saved_grid sg g =
     do { let g = replace_visible (visible_cells sg) g;
          let g = set_scrollback_limit (sg_scrollback_limit sg) g;
          g \<leftarrow> adjust_visible_to_fit g;
          refit_visible g }"

definition restore_scroll_region :: "(nat \<times> nat) option \<Rightarrow> grid_t \<Rightarrow> grid_t option" where
  "restore_scroll_region saved g =
     (case saved of
        Some (t, b) \<Rightarrow>
          (let bottom_max = rows g - 1; tp = min t bottom_max; bt = max (min b bottom_max) tp
           in Some (set_scroll_region tp bt g))
      | None \<Rightarrow> reset_scroll_region g)"

definition exit_alt_screen :: "bool \<Rightarrow> screen_t \<Rightarrow> screen_t option" where
  "exit_alt_screen do_restore_cursor s =
     (if \<not> in_alt_screen (state s) then Some s
      else
        do { let s = on_state (\<lambda>st. st\<lparr>in_alt_screen := False\<rparr>) s;
             s \<leftarrow> (case saved_grid (state s) of
                 Some sg \<Rightarrow> try_grid (restore_saved_grid sg) (on_state (\<lambda>st. st\<lparr>saved_grid := None\<rparr>) s)
               | None \<Rightarrow> Some s);
             let s = (case saved_modes (state s) of
                 Some m \<Rightarrow> on_grid (set_modes m) (on_state (\<lambda>st. st\<lparr>saved_modes := None\<rparr>) s)
               | None \<Rightarrow> s);
             s \<leftarrow> (if do_restore_cursor then restore_cursor s else Some s);
             let sr = saved_scroll_region (state s);
             s \<leftarrow> try_grid (restore_scroll_region sr)
                   (on_state (\<lambda>st. st\<lparr>saved_scroll_region := None\<rparr>) s);
             Some (on_grid (compact_styles None) s) })"

subsection \<open>Control sequences\<close>

definition csi_cursor_up :: "nat \<Rightarrow> grid_t \<Rightarrow> grid_t" where
  "csi_cursor_up n g0 =
     (let g = set_wrap_pending False g0;
          tp = (if cursor_y g \<ge> scroll_top g then scroll_top g else 0)
      in set_cursor_y_unclamped (max (cursor_y g - n) tp) g)"

definition csi_cursor_down :: "nat \<Rightarrow> grid_t \<Rightarrow> grid_t option" where
  "csi_cursor_down n g0 =
     do { let g = set_wrap_pending False g0;
          bottom \<leftarrow> (if cursor_y g \<le> scroll_bottom g then Some (scroll_bottom g) else usub (rows g) 1);
          Some (set_cursor_y_unclamped (min (sat_add16 (cursor_y g) n) bottom) g) }"

definition csi_cursor_forward :: "nat \<Rightarrow> grid_t \<Rightarrow> grid_t option" where
  "csi_cursor_forward n g0 =
     do { let g = set_wrap_pending False g0;
          mx \<leftarrow> usub (cols g) 1;
          Some (set_cursor_x_unclamped (min (sat_add16 (cursor_x g) n) mx) g) }"

definition csi_cursor_back :: "nat \<Rightarrow> grid_t \<Rightarrow> grid_t" where
  "csi_cursor_back n g0 =
     (let g = set_wrap_pending False g0 in set_cursor_x_unclamped (cursor_x g - n) g)"

definition csi_cursor_next_line :: "nat \<Rightarrow> grid_t \<Rightarrow> grid_t option" where
  "csi_cursor_next_line n g0 =
     do { let g = set_cursor_x_unclamped 0 (set_wrap_pending False g0);
          bottom \<leftarrow> (if cursor_y g \<le> scroll_bottom g then Some (scroll_bottom g) else usub (rows g) 1);
          Some (set_cursor_y_unclamped (min (sat_add16 (cursor_y g) n) bottom) g) }"

definition csi_cursor_prev_line :: "nat \<Rightarrow> grid_t \<Rightarrow> grid_t" where
  "csi_cursor_prev_line n g0 =
     (let g = set_cursor_x_unclamped 0 (set_wrap_pending False g0);
          tp = (if cursor_y g \<ge> scroll_top g then scroll_top g else 0)
      in set_cursor_y_unclamped (max (cursor_y g - n) tp) g)"

definition csi_cursor_horizontal_absolute :: "nat \<Rightarrow> grid_t \<Rightarrow> grid_t option" where
  "csi_cursor_horizontal_absolute col g0 =
     do { let g = set_wrap_pending False g0;
          mx \<leftarrow> usub (cols g) 1;
          Some (set_cursor_x_unclamped (min (col - 1) mx) g) }"

definition csi_line_position_absolute :: "nat \<Rightarrow> grid_t \<Rightarrow> grid_t option" where
  "csi_line_position_absolute row g0 =
     do { let g = set_wrap_pending False g0;
          if origin_mode (modes g) then
            Some (set_cursor_y_unclamped (min (sat_add16 (scroll_top g) (row - 1)) (scroll_bottom g)) g)
          else
            do { my \<leftarrow> usub (rows g) 1; Some (set_cursor_y_unclamped (min (row - 1) my) g) } }"

definition csi_cursor_position :: "nat \<Rightarrow> nat \<Rightarrow> grid_t \<Rightarrow> grid_t option" where
  "csi_cursor_position row col g0 =
     do { let g = set_wrap_pending False g0;
          g \<leftarrow> (if origin_mode (modes g) then
                 Some (set_cursor_y_unclamped (min (sat_add16 (scroll_top g) (row - 1)) (scroll_bottom g)) g)
               else
                 do { my \<leftarrow> usub (rows g) 1; Some (set_cursor_y_unclamped (min (row - 1) my) g) });
          mx \<leftarrow> usub (cols g) 1;
          Some (set_cursor_x_unclamped (min (col - 1) mx) g) }"

definition clear_seq :: bytes where
  "clear_seq = ESC # ''[3J''"

definition csi_erase_display :: "nat \<Rightarrow> screen_t \<Rightarrow> screen_t option" where
  "csi_erase_display mode s0 =
     do { (blank, s) \<leftarrow> blank_cell s0;
          let y = cursor_y (grid s);
          let x = cursor_x (grid s);
          if mode = 0 then
            try_grid (\<lambda>g. do { g \<leftarrow> erase_cells y x (cols g) blank g; erase_rows (y + 1) (rows g) blank g }) s
          else if mode = 1 then
            try_grid (\<lambda>g. do { g \<leftarrow> erase_rows 0 y blank g; erase_cells y 0 (min (x + 1) (cols g)) blank g }) s
          else if mode = 2 then try_grid (\<lambda>g. erase_rows 0 (rows g) blank g) s
          else if mode = 3 then
            do { s \<leftarrow> try_grid clear_scrollback s; Some (on_state (push_passthrough clear_seq) s) }
          else Some s }"

definition csi_erase_line :: "nat \<Rightarrow> screen_t \<Rightarrow> screen_t option" where
  "csi_erase_line mode s0 =
     do { (blank, s) \<leftarrow> blank_cell s0;
          let y = cursor_y (grid s);
          let x = cursor_x (grid s);
          if mode = 0 then try_grid (\<lambda>g. erase_cells y x (cols g) blank g) s
          else if mode = 1 then try_grid (\<lambda>g. erase_cells y 0 (min (x + 1) (cols g)) blank g) s
          else if mode = 2 then try_grid (\<lambda>g. erase_cells y 0 (cols g) blank g) s
          else Some s }"

definition csi_erase_character :: "nat \<Rightarrow> screen_t \<Rightarrow> screen_t option" where
  "csi_erase_character n s0 =
     do { (blank, s) \<leftarrow> blank_cell s0;
          let y = cursor_y (grid s);
          let x = cursor_x (grid s);
          if y < rows (grid s)
          then try_grid (\<lambda>g. erase_cells y x (min (x + n) (cols g)) blank g) s
          else Some s }"

definition csi_delete_character :: "nat \<Rightarrow> screen_t \<Rightarrow> screen_t option" where
  "csi_delete_character n s0 =
     do { (blank, s) \<leftarrow> blank_cell s0;
          let y = cursor_y (grid s);
          let x = cursor_x (grid s);
          if y < rows (grid s) then
            try_grid (\<lambda>g.
              do { g \<leftarrow> fixup_wide_char_at x y g;
                   g \<leftarrow> iter (min n (cols g - x))
                     (\<lambda>g. do { g \<leftarrow> visible_row_mut y (row_remove x) g;
                               visible_row_mut y (\<lambda>r. Some (row_push blank r)) g }) g;
                   if x < cols g then
                     do { cl \<leftarrow> visible_row y g \<bind> row_get x;
                          if cell_width cl = 0 then
                            do { g \<leftarrow> visible_row_mut y (row_set x blank) g;
                                 if x > 0 then
                                   do { left \<leftarrow> visible_row y g \<bind> row_get (x - 1);
                                        if cell_width left = 2
                                        then visible_row_mut y (row_set (x - 1) blank) g
                                        else Some g }
                                 else Some g }
                          else Some g }
                   else Some g }) s
          else Some s }"

definition csi_insert_character :: "nat \<Rightarrow> screen_t \<Rightarrow> screen_t option" where
  "csi_insert_character n s0 =
     do { (blank, s) \<leftarrow> blank_cell s0;
          let y = cursor_y (grid s);
          let x = cursor_x (grid s);
          if y < rows (grid s) then
            try_grid (\<lambda>g.
              do { g \<leftarrow> fixup_wide_char_at x y g;
                   g \<leftarrow> iter (min n (cols g - x))
                     (\<lambda>g. do { g \<leftarrow> visible_row_mut y (\<lambda>r. Some (row_pop r)) g;
                               visible_row_mut y (row_insert x blank) g }) g;
                   last \<leftarrow> usub (cols g) 1;
                   cl \<leftarrow> visible_row y g \<bind> row_get last;
                   if cell_width cl = 2 then visible_row_mut y (row_set last blank) g
                   else if cell_width cl = 0 then
                     do { g \<leftarrow> visible_row_mut y (row_set last blank) g;
                          if last > 0 then
                            do { left \<leftarrow> visible_row y g \<bind> row_get (last - 1);
                                 if cell_width left = 2
                                 then visible_row_mut y (row_set (last - 1) blank) g
                                 else Some g }
                          else Some g }
                   else Some g }) s
          else Some s }"

definition csi_scroll_up_n :: "nat \<Rightarrow> screen_t \<Rightarrow> screen_t option" where
  "csi_scroll_up_n n s = iter (min n (rows (grid s))) p_scroll_up s"

definition csi_scroll_down_n :: "nat \<Rightarrow> screen_t \<Rightarrow> screen_t option" where
  "csi_scroll_down_n n s = iter (min n (rows (grid s))) p_scroll_down s"

definition csi_delete_lines :: "nat \<Rightarrow> screen_t \<Rightarrow> screen_t option" where
  "csi_delete_lines n s0 =
     do { (blank, s) \<leftarrow> blank_cell s0;
          let y = cursor_y (grid s);
          let tp = scroll_top (grid s);
          let bt = scroll_bottom (grid s);
          if tp \<le> y \<and> y \<le> bt then
            try_grid (\<lambda>g. iter (min n (bt - y + 1))
                (\<lambda>g. if y \<le> bt \<and> bt < visible_row_count g then
                       do { g \<leftarrow> remove_visible_row y g; insert_visible_row bt (new_blank_row blank g) g }
                     else Some g) g)
              (on_grid (set_wrap_pending False) s)
          else Some s }"

definition csi_insert_lines :: "nat \<Rightarrow> screen_t \<Rightarrow> screen_t option" where
  "csi_insert_lines n s0 =
     do { (blank, s) \<leftarrow> blank_cell s0;
          let y = cursor_y (grid s);
          let tp = scroll_top (grid s);
          let bt = scroll_bottom (grid s);
          if tp \<le> y \<and> y \<le> bt then
            try_grid (\<lambda>g. iter (min n (bt - y + 1))
                (\<lambda>g. if y \<le> bt \<and> bt < visible_row_count g then
                       do { g \<leftarrow> remove_visible_row bt g; insert_visible_row y (new_blank_row blank g) g }
                     else Some g) g)
              (on_grid (set_wrap_pending False) s)
          else Some s }"

definition csi_set_scrolling_region :: "nat \<Rightarrow> nat \<Rightarrow> grid_t \<Rightarrow> grid_t option" where
  "csi_set_scrolling_region t b g =
     do { my \<leftarrow> usub (rows g) 1;
          let tp = t - 1;
          let bt = min (b - 1) my;
          if tp \<le> bt then
            (let g = set_cursor_x_unclamped 0 (set_scroll_region tp bt g);
                 g = set_cursor_y_unclamped (if origin_mode (modes g) then tp else 0) g
             in Some (set_wrap_pending False g))
          else Some g }"

subsection \<open>Printing\<close>

text \<open>The column a combining mark goes to, if any.\<close>

definition mark_column :: "grid_t \<Rightarrow> nat option" where
  "mark_column g =
     (if cursor_y g \<ge> rows g then None
      else if wrap_pending g then (if cursor_x g \<ge> cols g then None else Some (cursor_x g))
      else if cursor_x g > 0 then (if cursor_x g - 1 \<ge> cols g then None else Some (cursor_x g - 1))
      else None)"

definition handle_combining_mark :: "rchar \<Rightarrow> grid_t \<Rightarrow> grid_t option" where
  "handle_combining_mark c g =
     (case mark_column g of
        None \<Rightarrow> Some g
      | Some tx \<Rightarrow>
          do { r \<leftarrow> visible_row (cursor_y g) g;
               cl \<leftarrow> row_get tx r;
               let tx = (if cell_width cl = 0 \<and> tx > 0 then tx - 1 else tx);
               if combining_len (as_u16 tx) r < MAX_COMBINING
               then visible_row_mut (cursor_y g) (\<lambda>r. Some (push_combining (as_u16 tx) c r)) g
               else Some g })"

text \<open>A line feed: the last lines of \<open>perform_deferred_wrap\<close>, LF, IND and NEL.\<close>

definition line_feed :: "screen_t \<Rightarrow> screen_t option" where
  "line_feed s =
     (if cursor_y (grid s) = scroll_bottom (grid s) then p_scroll_up s
      else
        do { my \<leftarrow> usub (rows (grid s)) 1;
             if cursor_y (grid s) < my
             then try_grid (\<lambda>g. do { y \<leftarrow> add16 (cursor_y g) 1; Some (set_cursor_y_unclamped y g) }) s
             else Some s })"

definition perform_deferred_wrap :: "screen_t \<Rightarrow> screen_t option" where
  "perform_deferred_wrap s = line_feed (on_grid (set_cursor_x_unclamped 0 \<circ> set_wrap_pending False) s)"

text \<open>The tail of \<open>print\<close>: writing the character at the cursor and advancing.\<close>

definition print_at_cursor :: "rchar \<Rightarrow> nat \<Rightarrow> screen_t \<Rightarrow> screen_t option" where
  "print_at_cursor c w s =
     (let x = cursor_x (grid s); y = cursor_y (grid s) in
      if x < cols (grid s) \<and> y < rows (grid s) then
        do { (sid, s) \<leftarrow> intern_with_gc (current_style (state s)) s;
             s \<leftarrow> try_grid (set_cell x y (cell_new c sid w)) s;
             new_x \<leftarrow> add16 (cursor_x (grid s)) w;
             if new_x \<ge> cols (grid s) then
               do { mx \<leftarrow> usub (cols (grid s)) 1;
                    let s = on_grid (set_cursor_x_unclamped mx) s;
                    Some (if autowrap_mode (modes (grid s)) then on_grid (set_wrap_pending True) s else s) }
             else Some (on_grid (set_cursor_x_unclamped new_x) s) }
      else Some s)"

text \<open>
  \<open>print\<close>. The wide character branch blanks the last cell and wraps; it is left by two early
  returns, modelled by \<open>None\<close> of the inner option.
\<close>

definition wide_char_wrap :: "screen_t \<Rightarrow> (screen_t option) option" where
  "wide_char_wrap s =
     (if \<not> autowrap_mode (modes (grid s)) then Some None
      else if cols (grid s) < 2 then Some None
      else
        do { let x = cursor_x (grid s);
             let y = cursor_y (grid s);
             s \<leftarrow> (if x < cols (grid s) \<and> y < rows (grid s)
                   then do { (blank, s) \<leftarrow> blank_cell s; try_grid (visible_row_mut y (row_set x blank)) s }
                   else Some s);
             s \<leftarrow> perform_deferred_wrap s;
             Some (Some s) })"

definition print :: "(rchar \<Rightarrow> nat option) \<Rightarrow> rchar \<Rightarrow> screen_t \<Rightarrow> screen_t option" where
  "print cwidth c0 s0 =
     (let s1 = on_state (\<lambda>st. st\<lparr>last_printed_char := c0\<rparr>) s0;
          c = map_charset (modes (grid s1)) c0;
          w = (case cwidth c of Some w \<Rightarrow> w | None \<Rightarrow> 0)
      in
      if w = 0 then try_grid (handle_combining_mark c) s1
      else
        do { s2 \<leftarrow> (if wrap_pending (grid s1) \<and> autowrap_mode (modes (grid s1))
                    then perform_deferred_wrap s1 else Some s1);
             at_margin \<leftarrow> (if w = 2 then do { mx \<leftarrow> usub (cols (grid s2)) 1; Some (cursor_x (grid s2) \<ge> mx) }
                           else Some False);
             if at_margin then
               do { r \<leftarrow> wide_char_wrap s2;
                    case r of None \<Rightarrow> Some s2 | Some s3 \<Rightarrow> print_at_cursor c w s3 }
             else print_at_cursor c w s2 })"

definition execute :: "byte \<Rightarrow> screen_t \<Rightarrow> screen_t option" where
  "execute b s =
     (let n = bval b in
      if n = 0x0D then Some (on_grid (set_wrap_pending False \<circ> set_cursor_x_unclamped 0) s)
      else if 0x0A \<le> n \<and> n \<le> 0x0C then line_feed (on_grid (set_wrap_pending False) s)
      else if n = 0x08 then
        Some (on_grid (\<lambda>g. let g = set_wrap_pending False g in
          if cursor_x g > 0 then set_cursor_x_unclamped (cursor_x g - 1) g else g) s)
      else if n = 0x09 then
        try_grid (\<lambda>g. do { let g = set_wrap_pending False g;
                           nxt \<leftarrow> next_tab_stop (cursor_x g) g;
                           Some (set_cursor_x_unclamped nxt g) }) s
      else if n = 0x0E then Some (on_grid (modes_mut (\<lambda>m. m\<lparr>active_charset := G1\<rparr>)) s)
      else if n = 0x0F then Some (on_grid (modes_mut (\<lambda>m. m\<lparr>active_charset := G0\<rparr>)) s)
      else if n = 0x07 then Some (on_state (push_passthrough [byte_of 7]) s)
      else Some s)"

subsection \<open>Dispatch\<close>

definition dec_private_mode :: "bool \<Rightarrow> nat list \<Rightarrow> screen_t \<Rightarrow> screen_t option" where
  "dec_private_mode enable param s =
     (case param of
        [] \<Rightarrow> Some s
      | n # _ \<Rightarrow>
        if n = 1 then Some (on_grid (modes_mut (\<lambda>m. m\<lparr>cursor_key_mode := enable\<rparr>)) s)
        else if n = 6 then
          (let s = on_grid (modes_mut (\<lambda>m. m\<lparr>origin_mode := enable\<rparr>)) s in
           Some (if enable
                 then on_grid (\<lambda>g. set_wrap_pending False
                        (set_cursor_y_unclamped (scroll_top g) (set_cursor_x_unclamped 0 g))) s
                 else s))
        else if n = 7 then Some (on_grid (modes_mut (\<lambda>m. m\<lparr>autowrap_mode := enable\<rparr>)) s)
        else if n = 12 then Some s
        else if n = 25 then Some (on_grid (set_cursor_visible enable) s)
        else if n = 1000 \<or> n = 1002 \<or> n = 1003 then
          Some (on_grid (modes_mut (\<lambda>m. m\<lparr>mouse_modes := mouse_modes_set n enable (mouse_modes m)\<rparr>)) s)
        else if n = 1005 \<or> n = 1006 then
          Some (on_grid (modes_mut (\<lambda>m. m\<lparr>mouse_encoding :=
            (if enable then (case mouse_encoding_from_param n of Some e \<Rightarrow> e | None \<Rightarrow> X10) else X10)\<rparr>)) s)
        else if n = 1004 then Some (on_grid (modes_mut (\<lambda>m. m\<lparr>focus_reporting := enable\<rparr>)) s)
        else if n = 1048 then (if enable then Some (save_cursor s) else restore_cursor s)
        else if n = 2004 then Some (on_grid (modes_mut (\<lambda>m. m\<lparr>bracketed_paste := enable\<rparr>)) s)
        else if n = 1049 then (if enable then enter_alt_screen True s else exit_alt_screen True s)
        else if n = 1047 \<or> n = 47 then (if enable then enter_alt_screen False s else exit_alt_screen False s)
        else Some s)"

definition csi_set_dec_private_mode :: "nat list list \<Rightarrow> bool \<Rightarrow> screen_t \<Rightarrow> screen_t option" where
  "csi_set_dec_private_mode ps enable s = foldm (dec_private_mode enable) ps s"

text \<open>The closure \<open>p\<close> of \<open>csi_dispatch\<close>: a parameter, where zero and absence mean the default.\<close>

definition csi_param :: "nat list list \<Rightarrow> nat \<Rightarrow> nat \<Rightarrow> nat" where
  "csi_param ps i d =
     (if i < length ps then (case ps ! i of v # _ \<Rightarrow> if v \<noteq> 0 then v else d | [] \<Rightarrow> d) else d)"

definition cursor_report :: "grid_t \<Rightarrow> bytes option" where
  "cursor_report g =
     do { row \<leftarrow> add16 (if origin_mode (modes g) then cursor_y g - scroll_top g else cursor_y g) 1;
          col \<leftarrow> add16 (cursor_x g) 1;
          Some (ESC # ''['' @ write_u16 row @ '';'' @ write_u16 col @ ''R'') }"

definition title_command :: "nat \<Rightarrow> nat \<Rightarrow> screen_state \<Rightarrow> screen_state option" where
  "title_command cmd scope st =
     (if cmd = 22 \<and> (scope = 0 \<or> scope = 2) then
        (if length (title_stack st) < 16
         then (if length (title st) \<le> 4096 then Some (st\<lparr>title_stack := title_stack st @ [title st]\<rparr>)
               else if is_char_boundary (title st) 4096
               then Some (st\<lparr>title_stack := title_stack st @ [take 4096 (title st)]\<rparr>)
               else None)
         else Some st)
      else if cmd = 23 \<and> (scope = 0 \<or> scope = 2) then
        Some (if title_stack st = [] then st
              else st\<lparr>title := last (title_stack st), title_stack := butlast (title_stack st)\<rparr>)
      else Some st)"

definition try_state :: "(screen_state \<Rightarrow> screen_state option) \<Rightarrow> screen_t \<Rightarrow> screen_t option" where
  "try_state f s = do { st \<leftarrow> f (state s); Some (s\<lparr>state := st\<rparr>) }"

definition csi_dispatch ::
  "(rchar \<Rightarrow> nat option) \<Rightarrow> nat list list \<Rightarrow> bytes \<Rightarrow> byte \<Rightarrow> screen_t \<Rightarrow> screen_t option" where
  "csi_dispatch cwidth ps intermediates act s =
     (let p = csi_param ps in
      if act = CHR ''A'' then Some (on_grid (csi_cursor_up (p 0 1)) s)
      else if act = CHR ''B'' then try_grid (csi_cursor_down (p 0 1)) s
      else if act = CHR ''C'' then try_grid (csi_cursor_forward (p 0 1)) s
      else if act = CHR ''D'' then Some (on_grid (csi_cursor_back (p 0 1)) s)
      else if act = CHR ''E'' then try_grid (csi_cursor_next_line (p 0 1)) s
      else if act = CHR ''F'' then Some (on_grid (csi_cursor_prev_line (p 0 1)) s)
      else if act = CHR ''G'' then try_grid (csi_cursor_horizontal_absolute (p 0 1)) s
      else if act = CHR ''H'' \<or> act = CHR ''f'' then try_grid (csi_cursor_position (p 0 1) (p 1 1)) s
      else if act = CHR ''d'' then try_grid (csi_line_position_absolute (p 0 1)) s
      else if act = CHR ''J'' then csi_erase_display (p 0 0) s
      else if act = CHR ''K'' then csi_erase_line (p 0 0) s
      else if act = CHR ''X'' then csi_erase_character (p 0 1) s
      else if act = CHR ''P'' then csi_delete_character (p 0 1) s
      else if act = CHR ''@'' then csi_insert_character (p 0 1) s
      else if act = CHR ''b'' then iter (p 0 1) (print cwidth (last_printed_char (state s))) s
      else if act = CHR ''m'' then
        Some (on_state (\<lambda>st. st\<lparr>current_style := apply_sgr ps (current_style st)\<rparr>) s)
      else if act = CHR ''n'' \<and> intermediates = [] then
        (if p 0 0 = 6 then do { r \<leftarrow> cursor_report (grid s); Some (on_state (push_response r) s) } else Some s)
      else if act = CHR ''c'' then
        (if intermediates = [] then
           (if p 0 0 = 0 then Some (on_state (push_response (ESC # ''[?62;c'')) s) else Some s)
         else if intermediates = ''>'' \<and> p 0 0 = 0 then
           Some (on_state (push_response (ESC # ''[>0;10;1c'')) s)
         else Some s)
      else if act = CHR ''q'' \<and> intermediates = '' '' then
        Some (on_grid (modes_mut (\<lambda>m. m\<lparr>cursor_shape := shape_from_param (word_of_nat (p 0 0))\<rparr>)) s)
      else if act = CHR ''S'' then csi_scroll_up_n (p 0 1) s
      else if act = CHR ''T'' \<and> length ps \<le> 1 then csi_scroll_down_n (p 0 1) s
      else if act = CHR ''M'' then csi_delete_lines (p 0 1) s
      else if act = CHR ''L'' then csi_insert_lines (p 0 1) s
      else if act = CHR ''r'' \<and> intermediates = [] then
        try_grid (csi_set_scrolling_region (p 0 1) (p 1 (rows (grid s)))) s
      else if act = CHR ''s'' \<and> intermediates = [] then Some (save_cursor s)
      else if act = CHR ''u'' \<and> intermediates = [] then restore_cursor s
      else if act = CHR ''g'' \<and> intermediates = [] then
        (if p 0 0 = 0 then Some (on_grid (\<lambda>g. clear_tab_stop (cursor_x g) g) s)
         else if p 0 0 = 3 then Some (on_grid clear_all_tab_stops s)
         else Some s)
      else if act = CHR ''t'' then try_state (title_command (p 0 0) (p 1 0)) s
      else if (act = CHR ''h'' \<or> act = CHR ''l'') \<and> intermediates = ''?'' then
        csi_set_dec_private_mode ps (act = CHR ''h'') s
      else Some s)"

definition reverse_index :: "screen_t \<Rightarrow> screen_t option" where
  "reverse_index s =
     (if cursor_y (grid s) = scroll_top (grid s) then p_scroll_down s
      else Some (on_grid (\<lambda>g. if cursor_y g > 0 then set_cursor_y_unclamped (cursor_y g - 1) g else g) s))"

text \<open>RIS (\<open>ESC c\<close>), the full reset, and DECALN (\<open>ESC # 8\<close>), the alignment pattern.\<close>

definition full_reset :: "screen_t \<Rightarrow> screen_t option" where
  "full_reset s0 =
     do { s \<leftarrow> try_grid reset_scroll_region (on_grid (set_cursor_y_unclamped 0 \<circ> set_cursor_x_unclamped 0) s0);
          let s = on_grid (set_modes terminal_modes_default \<circ> set_wrap_pending False
                           \<circ> set_cursor_visible True) s;
          let s = on_state (\<lambda>st. st\<lparr>current_style := style_default\<rparr>) s;
          let s = (case saved_grid (state s) of
                     Some sg \<Rightarrow> on_grid (set_scrollback_limit (sg_scrollback_limit sg)) s | None \<Rightarrow> s);
          let s = on_state (\<lambda>st. st\<lparr>in_alt_screen := False, saved_grid := None, saved_modes := None,
                     saved_cursor_state := None, saved_scroll_region := None, title := [],
                     title_stack := [], last_printed_char := 32\<rparr>) s;
          let s = on_grid reset_tab_stops s;
          let s = on_grid (\<lambda>g. g\<lparr>style_table := style_table_reset (style_table g)\<rparr>) s;
          s \<leftarrow> try_grid (\<lambda>g. erase_rows 0 (rows g) cell_default g) s;
          s \<leftarrow> try_grid clear_scrollback s;
          Some (on_state (push_passthrough clear_seq) s) }"

definition alignment_pattern :: "screen_t \<Rightarrow> screen_t option" where
  "alignment_pattern s0 =
     do { s \<leftarrow> try_grid reset_scroll_region s0;
          let s = on_grid (set_wrap_pending False \<circ> set_cursor_y_unclamped 0 \<circ> set_cursor_x_unclamped 0) s;
          (sid, s) \<leftarrow> intern_with_gc style_default s;
          let e_cell = cell_new 69 sid 1;
          try_grid (\<lambda>g. foldm (\<lambda>y g. foldm (\<lambda>x. set_cell x y e_cell) [0..<cols g] g) [0..<rows g] g) s }"

definition esc_dispatch :: "bytes \<Rightarrow> byte \<Rightarrow> screen_t \<Rightarrow> screen_t option" where
  "esc_dispatch intermediates b s =
     (if intermediates = [] then
        (if b = CHR ''H'' then Some (on_grid (\<lambda>g. set_tab_stop (cursor_x g) g) s)
         else if b = CHR ''D'' then line_feed (on_grid (set_wrap_pending False) s)
         else if b = CHR ''E'' then
           line_feed (on_grid (set_wrap_pending False \<circ> set_cursor_x_unclamped 0) s)
         else if b = CHR ''M'' then reverse_index s
         else if b = CHR ''7'' then Some (save_cursor s)
         else if b = CHR ''8'' then restore_cursor s
         else if b = CHR ''c'' then full_reset s
         else if b = CHR ''='' then Some (on_grid (modes_mut (\<lambda>m. m\<lparr>keypad_app_mode := True\<rparr>)) s)
         else if b = CHR ''>'' then Some (on_grid (modes_mut (\<lambda>m. m\<lparr>keypad_app_mode := False\<rparr>)) s)
         else Some s)
      else if intermediates = ''('' \<and> b = CHR ''B'' then Some (on_grid (modes_mut (\<lambda>m. m\<lparr>g0_charset := Ascii\<rparr>)) s)
      else if intermediates = ''('' \<and> b = CHR ''0'' then Some (on_grid (modes_mut (\<lambda>m. m\<lparr>g0_charset := LineDrawing\<rparr>)) s)
      else if intermediates = '')'' \<and> b = CHR ''B'' then Some (on_grid (modes_mut (\<lambda>m. m\<lparr>g1_charset := Ascii\<rparr>)) s)
      else if intermediates = '')'' \<and> b = CHR ''0'' then Some (on_grid (modes_mut (\<lambda>m. m\<lparr>g1_charset := LineDrawing\<rparr>)) s)
      else if intermediates = ''#'' \<and> b = CHR ''8'' then alignment_pattern s
      else Some s)"

text \<open>\<open>osc_sequence\<close> rebuilds a sequence for the outer terminal.\<close>

fun join_params :: "bytes list \<Rightarrow> bytes" where
  "join_params [] = []"
| "join_params [p] = p"
| "join_params (p # ps) = p @ '';'' @ join_params ps"

definition osc_sequence :: "bytes list \<Rightarrow> bool \<Rightarrow> bytes" where
  "osc_sequence ps bell =
     (ESC # '']'') @ join_params ps @ (if bell then [byte_of 7] else [ESC, byte_of 0x5C])"

definition osc_number :: "bytes \<Rightarrow> nat option" where
  "osc_number b = (if utf8_valid b then parse_u16 b else None)"

definition osc_dispatch :: "bytes list \<Rightarrow> bool \<Rightarrow> screen_state \<Rightarrow> screen_state option" where
  "osc_dispatch ps bell st =
     (case ps of
        [] \<Rightarrow> Some st
      | num # rest \<Rightarrow>
          (let osc_num = osc_number num in
           if osc_num = Some 0 \<or> osc_num = Some 2 then
             (case rest of
                t # _ \<Rightarrow>
                  if utf8_valid t then
                    (if length t \<le> 4096 then Some (st\<lparr>title := t\<rparr>)
                     else if is_char_boundary t 4096 then Some (st\<lparr>title := take 4096 t\<rparr>)
                     else None)
                  else Some st
              | [] \<Rightarrow> Some st)
           else
             (let buf = osc_sequence ps bell in
              if osc_num = Some 9 \<or> osc_num = Some 777 \<or> osc_num = Some 99
              then Some (push_notification buf st)
              else Some (push_passthrough buf st))))"

text \<open>The methods of \<open>vte::Perform\<close>, with the arguments the parser passes.\<close>

datatype action =
    Print rchar
  | Execute byte
  | CsiDispatch "nat list list" bytes bool byte
  | EscDispatch bytes bool byte
  | OscDispatch "bytes list" bool
  | Hook "nat list list" bytes bool byte
  | Put byte
  | Unhook

fun perform :: "(rchar \<Rightarrow> nat option) \<Rightarrow> action \<Rightarrow> screen_t \<Rightarrow> screen_t option" where
  "perform cwidth (Print c) s = print cwidth c s"
| "perform cwidth (Execute b) s = execute b s"
| "perform cwidth (CsiDispatch ps ims ign act) s = csi_dispatch cwidth ps ims act s"
| "perform cwidth (EscDispatch ims ign b) s = esc_dispatch ims b s"
| "perform cwidth (OscDispatch ps bell) s = try_state (osc_dispatch ps bell) s"
| "perform cwidth (Hook ps ims ign act) s = Some s"
| "perform cwidth (Put b) s = Some s"
| "perform cwidth Unhook s = Some s"

end
