(* ===== verification/Performer_Safe.thy ===== *)
theory Performer_Safe
  imports Performer
begin

text \<open>
  The invariant of the emulator, \<open>wf_screen\<close>, and that every operation of the performer keeps it and
  the width of the screen. Two kinds of actions can panic: a window title longer than 4096 bytes whose
  cut falls inside a character, and a character of three columns printed on a screen of more than
  65533 columns.

  The proofs are compositional: \<open>grid_keeps\<close> is the contract of an operation on the grid; one on the
  screen keeps \<open>wf_at wd\<close>, the invariant together with the width.
\<close>

subsection \<open>The invariant\<close>

definition live_cell :: "style_table_t \<Rightarrow> cell \<Rightarrow> bool" where
  "live_cell t cl \<longleftrightarrow> style_id cl \<in> live_ids t \<and> cell_width cl \<le> 3"

definition queues_ok :: "screen_state \<Rightarrow> bool" where
  "queues_ok st \<longleftrightarrow>
     length (pending_responses st) \<le> MAX_PENDING \<and> length (pending_passthrough st) \<le> MAX_PENDING
     \<and> length (queued_notifications st) \<le> MAX_QUEUED_NOTIFICATIONS
     \<and> length (title st) \<le> 4096 \<and> length (title_stack st) \<le> 16
     \<and> list_all (\<lambda>t. length t \<le> 4096) (title_stack st)"

text \<open>What is saved while the alternate screen is shown, and the bound on the history.\<close>

definition alt_ok :: "(cell \<Rightarrow> bool) \<Rightarrow> grid_t \<Rightarrow> screen_state \<Rightarrow> bool" where
  "alt_ok P g st \<longleftrightarrow>
     (case saved_grid st of
        None \<Rightarrow> \<not> in_alt_screen st \<and> saved_modes st = None \<and> saved_scroll_region st = None
          \<and> scrollback_len g \<le> scrollback_limit g
      | Some sg \<Rightarrow> in_alt_screen st \<and> saved_modes st \<noteq> None \<and> saved_scroll_region st \<noteq> None
          \<and> scrollback_limit g = 0 \<and> scrollback_len g \<le> sg_scrollback_limit sg
          \<and> list_all (row_ok P) (visible_cells sg))"

definition wf_screen :: "screen_t \<Rightarrow> bool" where
  "wf_screen s \<longleftrightarrow>
     (let g = grid s; t = style_table g in
      wf_style_table t \<and> grid_ok (live_cell t) g \<and> alt_ok (live_cell t) g (state s) \<and> queues_ok (state s))"

lemma wf_screenD:
  assumes "wf_screen s"
  shows "wf_style_table (style_table (grid s))" "grid_ok (live_cell (style_table (grid s))) (grid s)"
    "alt_ok (live_cell (style_table (grid s))) (grid s) (state s)" "queues_ok (state s)"
  using assms by (auto simp: wf_screen_def Let_def)

text \<open>The invariant of a screen of a given width, which no operation changes.\<close>

definition wf_at :: "nat \<Rightarrow> screen_t \<Rightarrow> bool" where
  "wf_at wd s \<longleftrightarrow> cols (grid s) = wd \<and> wf_screen s"

lemma wf_at_self: "wf_screen s \<Longrightarrow> wf_at (cols (grid s)) s"
  by (simp add: wf_at_def)

lemma wf_at_screen: "wf_at wd s \<Longrightarrow> wf_screen s"
  by (simp add: wf_at_def)

lemma wf_at_parts:
  "wf_at wd s \<longleftrightarrow> cols (grid s) = wd \<and> wf_style_table (style_table (grid s))
     \<and> grid_ok (live_cell (style_table (grid s))) (grid s)
     \<and> alt_ok (live_cell (style_table (grid s))) (grid s) (state s) \<and> queues_ok (state s)"
  by (simp add: wf_at_def wf_screen_def Let_def)

lemma returns_wf: "returns m (wf_at wd) \<Longrightarrow> returns m wf_screen"
  by (erule returns_mono) (rule wf_at_screen)

lemma wf_atD:
  assumes "wf_at wd s"
  shows "wf_style_table (style_table (grid s))" "grid_ok (live_cell (style_table (grid s))) (grid s)"
    "alt_ok (live_cell (style_table (grid s))) (grid s) (state s)" "queues_ok (state s)"
  using assms by (auto simp: wf_at_parts Let_def)

lemma live_default [simp]: "wf_style_table t \<Longrightarrow> live_cell t cell_default"
  by (simp add: live_cell_def cell_default_def zero_live)

lemma live_cell_new [simp]: "live_cell t (cell_new c i w) \<longleftrightarrow> i \<in> live_ids t \<and> w \<le> 3"
  by (simp add: live_cell_def cell_new_def)

lemma alt_ok_mono:
  "alt_ok P g st \<Longrightarrow> (\<And>cl. P cl \<Longrightarrow> Q cl) \<Longrightarrow> alt_ok Q g st"
  using row_ok_mono[of P _ Q] by (auto simp: alt_ok_def list_all_iff split: option.splits)

lemma alt_ok_frame:
  assumes "alt_ok P g st" "scrollback_limit g' = scrollback_limit g" "scrollback_len g' \<le> scrollback_len g"
  shows "alt_ok P g' st"
  using assms by (auto simp: alt_ok_def split: option.splits)

subsection \<open>Contracts of grid operations\<close>

definition grid_keeps :: "(cell \<Rightarrow> bool) \<Rightarrow> grid_t \<Rightarrow> grid_t \<Rightarrow> bool" where
  "grid_keeps P g g' \<longleftrightarrow>
     grid_ok P g' \<and> style_table g' = style_table g \<and> scrollback_limit g' = scrollback_limit g
     \<and> scrollback_len g' \<le> scrollback_len g \<and> cols g' = cols g \<and> rows g' = rows g"

lemma grid_keeps_refl [simp]: "grid_keeps P g g \<longleftrightarrow> grid_ok P g"
  by (simp add: grid_keeps_def)

lemma grid_keeps_trans: "grid_keeps P g g' \<Longrightarrow> grid_keeps P g' g'' \<Longrightarrow> grid_keeps P g g''"
  by (simp add: grid_keeps_def)

lemma grid_keeps_bind:
  assumes "returns m (grid_keeps P g)"
    and "\<And>g'. grid_keeps P g g' \<Longrightarrow> grid_ok P g' \<Longrightarrow> returns (f g') (grid_keeps P g')"
  shows "returns (m \<bind> f) (grid_keeps P g)"
  using assms(1)
  by (rule returns_bindI, intro returns_mono[OF assms(2)])
    (auto simp: grid_keeps_def)

lemma wf_at_grid:
  assumes "wf_at wd s" and "grid_keeps (live_cell (style_table (grid s))) (grid s) g'"
  shows "wf_at wd (s\<lparr>grid := g'\<rparr>)"
  using assms by (auto simp: wf_at_parts Let_def grid_keeps_def elim: alt_ok_frame)

lemma try_grid_safe:
  assumes "wf_at wd s" and "returns (f (grid s)) (grid_keeps (live_cell (style_table (grid s))) (grid s))"
  shows "returns (try_grid f s) (wf_at wd)"
  using assms(2) by (auto simp: try_grid_def elim!: returns_mono intro: wf_at_grid[OF assms(1)])

lemma try_grid_state: "try_grid f s = Some s' \<Longrightarrow> state s' = state s"
  by (cases "f (grid s)") (auto simp: try_grid_def)

lemma on_grid_safe:
  assumes "wf_at wd s" and "grid_keeps (live_cell (style_table (grid s))) (grid s) (f (grid s))"
  shows "wf_at wd (on_grid f s)"
  unfolding on_grid_def using assms by (rule wf_at_grid)

text \<open>Operations on the cursor, margins and modes change no row.\<close>

lemma grid_keeps_control:
  assumes "grid_ok P g" "cursor_x h < cols g" "cursor_y h < rows g"
    "scroll_top h \<le> scroll_bottom h" "scroll_bottom h < rows g" "length (tab_stops h) = cols g"
    "cols h = cols g" "rows h = rows g" "cells h = cells g" "scrollback_len h = scrollback_len g"
    "pending_start h \<le> scrollback_len g" "style_table h = style_table g" "scrollback_limit h = scrollback_limit g"
  shows "grid_keeps P g h"
  using assms by (simp add: grid_keeps_def grid_ok_control[of P g h])

lemma grid_keeps_edit:
  assumes "grid_ok P g" "y < rows g" "\<And>r. row_fits P (cols g) r \<Longrightarrow> row_fits P (cols g) (h r)"
  shows "grid_keeps P g (edit_row y h g)"
  using assms by (simp add: grid_keeps_def grid_ok_edit_row)

lemma set_cell_keeps:
  assumes "grid_ok P g" "P cell_default" "P cl" "P (cell_new 0 (style_id cl) 0)"
  shows "returns (set_cell x y cl g) (grid_keeps P g)"
proof (cases "y < rows g \<and> x < cols g")
  case True
  then have "set_cell x y cl g = Some (edit_row y (put_row x cl) g)"
    using assms by (intro set_cell_eq[where P = P]) auto
  then show ?thesis using True assms by (simp add: grid_keeps_edit)
next
  case False
  then show ?thesis using assms by (auto simp: set_cell_def not_less)
qed

lemma fixup_keeps:
  assumes "grid_ok P g" "P cell_default"
  shows "returns (fixup_wide_char_at x y g) (grid_keeps P g)"
proof (cases "y < rows g \<and> x < cols g")
  case True
  then show ?thesis using assms by (simp add: fixup_wide_char_at_eq[OF assms(1)] grid_keeps_edit)
next
  case False
  then show ?thesis using assms by (auto simp: fixup_wide_char_at_def not_less)
qed

lemma erase_cells_keeps:
  assumes "grid_ok P g" "P cell_default" "P blank" "y < rows g"
  shows "returns (erase_cells y a b blank g) (grid_keeps P g)"
proof (cases "min a (cols g) < min b (cols g)")
  case True
  have "erase_cells y a b blank g
      = Some (edit_row y (erase_span (min a (cols g)) (min b (cols g)) blank) g)"
    by (subst erase_cells_clamp, rule erase_cells_eq[OF assms(1,4,2)]) (use True in auto)
  then show ?thesis using assms by (simp add: grid_keeps_edit)
next
  case False
  then show ?thesis using assms by (simp add: erase_cells_empty[OF leI])
qed

lemma fold_edit_frame:
  "style_table (fold (\<lambda>y. edit_row y h) ys g) = style_table g"
  "scrollback_limit (fold (\<lambda>y. edit_row y h) ys g) = scrollback_limit g"
  "scrollback_len (fold (\<lambda>y. edit_row y h) ys g) = scrollback_len g"
  "cols (fold (\<lambda>y. edit_row y h) ys g) = cols g" "rows (fold (\<lambda>y. edit_row y h) ys g) = rows g"
  by (induction ys arbitrary: g) simp_all

lemma erase_rows_keeps:
  assumes "grid_ok P g" "P blank"
  shows "returns (erase_rows a b blank g) (grid_keeps P g)"
  using erase_rows_eq[OF assms, of a b]
  by (simp add: grid_keeps_def) (simp add: erase_rows_spec_def fold_edit_frame)

lemma clear_scrollback_keeps:
  assumes "grid_ok P g"
  shows "returns (clear_scrollback g) (grid_keeps P g)"
  using clear_scrollback_ok[OF assms] by (simp add: clear_scrollback_eq[OF assms] grid_keeps_def)

lemma scroll_down_keeps:
  assumes "grid_ok P g" "P fill"
  shows "returns (scroll_down fill g) (grid_keeps P g)"
  using scroll_down_ok[OF assms]
  by (simp add: scroll_down_eq[OF assms(1)] grid_keeps_def) (simp add: scroll_down_spec_def)

lemma reset_scroll_region_keeps:
  assumes "grid_ok P g"
  shows "returns (reset_scroll_region g) (grid_keeps P g)"
  using grid_okD[OF assms] assms
  by (auto simp: reset_scroll_region_def intro!: grid_keeps_control)

text \<open>Row edits through \<open>visible_row_mut\<close> that may panic.\<close>

lemma visible_row_mut_keeps:
  assumes g: "grid_ok P g" and y: "y < rows g"
    and f: "\<And>r. row_fits P (cols g) r \<Longrightarrow> returns (f r) (row_fits P (cols g))"
  shows "returns (visible_row_mut y f g) (grid_keeps P g)"
proof -
  let ?r = "cells g ! (scrollback_len g + y)"
  obtain r' where r': "f ?r = Some r'" "row_fits P (cols g) r'"
    using f[OF grid_ok_row[OF g y]] by (rule returnsE)
  have "visible_row_mut y f g = Some (edit_row y (\<lambda>r. if row_fits P (cols g) r \<and> r = ?r then r' else r) g)"
    by (rule visible_row_mut_edit[OF g y]) (simp add: r' grid_ok_row[OF g y])
  then show ?thesis
    using r' g y by (simp add: grid_keeps_edit)
qed

lemma visible_row_get:
  assumes "grid_ok P g" "y < rows g" "x < cols g"
  shows "returns (visible_row y g \<bind> row_get x) P"
  using assms grid_ok_row[OF assms(1,2)] grid_ok_index[OF assms(1,2)]
  by (auto simp: visible_row_def vget_def row_fits_def row_ok_def row_len_def list_all_length)

subsection \<open>Styles and garbage collection\<close>

text \<open>All rows whose style identifiers must stay meaningful.\<close>

definition used_rows :: "screen_t \<Rightarrow> row list" where
  "used_rows s = cells (grid s) @ (case saved_grid (state s) of Some sg \<Rightarrow> visible_cells sg | None \<Rightarrow> [])"

definition used_ids :: "screen_t \<Rightarrow> nat set" where
  "used_ids s = {style_id cl | cl r. r \<in> set (used_rows s) \<and> cl \<in> set (row_cells r)}"

lemma mark_live_length [simp]: "length (mark_live cl live) = length live"
  by (simp add: mark_live_def)

lemma mark_live_mono: "live ! i \<Longrightarrow> mark_live cl live ! i"
  by (cases "i < length live") (auto simp: mark_live_def nth_list_update)

lemma mark_live_sets: "style_id cl < length live \<Longrightarrow> mark_live cl live ! style_id cl"
  by (simp add: mark_live_def)

lemma fold_mark_live:
  "length (fold mark_live cs live) = length live"
  "live ! i \<Longrightarrow> fold mark_live cs live ! i"
  "cl \<in> set cs \<Longrightarrow> style_id cl < length live \<Longrightarrow> fold mark_live cs live ! style_id cl"
proof -
  show len: "length (fold mark_live cs live) = length live" for live
    by (induction cs arbitrary: live) simp_all
  show mono: "live ! i \<Longrightarrow> fold mark_live cs live ! i" for live i cs
    by (induction cs arbitrary: live) (simp_all add: mark_live_mono)
  show "cl \<in> set cs \<Longrightarrow> style_id cl < length live \<Longrightarrow> fold mark_live cs live ! style_id cl"
    by (induction cs arbitrary: live) (auto intro: mono mark_live_sets)
qed

lemma mark_rows_props:
  "length (mark_rows rs live) = length live"
  "live ! i \<Longrightarrow> mark_rows rs live ! i"
  "r \<in> set rs \<Longrightarrow> cl \<in> set (row_cells r) \<Longrightarrow> style_id cl < length live \<Longrightarrow> mark_rows rs live ! style_id cl"
proof -
  show "length (mark_rows rs live) = length live"
    unfolding mark_rows_def by (induction rs arbitrary: live) (simp_all add: fold_mark_live(1))
  show mono: "live ! i \<Longrightarrow> mark_rows rs live ! i" for live i rs
    unfolding mark_rows_def by (induction rs arbitrary: live) (simp_all add: fold_mark_live(2))
  show "r \<in> set rs \<Longrightarrow> cl \<in> set (row_cells r) \<Longrightarrow> style_id cl < length live \<Longrightarrow> mark_rows rs live ! style_id cl"
  proof (induction rs arbitrary: live)
    case (Cons r' rs)
    have step: "mark_rows (r' # rs) live = mark_rows rs (fold mark_live (row_cells r') live)"
      by (simp add: mark_rows_def)
    show ?case
    proof (cases "r = r'")
      case True
      with Cons.prems show ?thesis unfolding step by (intro mono) (simp add: fold_mark_live(3))
    next
      case False
      with Cons show ?thesis unfolding step by (simp add: fold_mark_live(1))
    qed
  qed simp
qed

lemma grid_rows_split: "grid_ok P g \<Longrightarrow> scrollback_rows g @ visible_rows g = cells g"
  by (simp add: scrollback_rows_def visible_rows_def grid_ok_def)

text \<open>Collecting keeps every identifier in use, and changes only the style table.\<close>

lemma compact_styles_frame:
  obtains t where "compact_styles saved g = g\<lparr>style_table := t\<rparr>"
proof -
  have "compact_styles saved g = g\<lparr>style_table := style_table (compact_styles saved g)\<rparr>"
    by (simp add: compact_styles_def Let_def)
  then show thesis by (rule that)
qed

lemma compact_styles_table:
  assumes wf: "wf_style_table (style_table g)" and g: "grid_ok P g"
    and "t' = style_table (compact_styles saved g)"
  shows "wf_style_table t'" "\<And>i. style_get t' i = style_get (style_table g) i"
    "\<And>r cl. r \<in> set (cells g @ (case saved of Some sg \<Rightarrow> visible_cells sg | None \<Rightarrow> [])) \<Longrightarrow>
       cl \<in> set (row_cells r) \<Longrightarrow> style_id cl \<in> live_ids (style_table g) \<Longrightarrow> style_id cl \<in> live_ids t'"
proof -
  let ?t = "style_table g"
  define live where "live = (let live = mark_rows (cells g) ((replicate (style_capacity ?t) False)[0 := True])
     in case saved of Some sg \<Rightarrow> mark_rows (visible_cells sg) live | None \<Rightarrow> live)"
  have t': "t' = (if style_capacity ?t \<le> 1 then ?t else reclaim live ?t)"
    using assms(3) by (simp add: compact_styles_def Let_def live_def grid_rows_split[OF g])
  show "wf_style_table t'" using wf by (simp add: t' reclaim_wf)
  show "style_get t' i = style_get ?t i" for i using wf by (simp add: t')
  fix r cl
  assume r: "r \<in> set (cells g @ (case saved of Some sg \<Rightarrow> visible_cells sg | None \<Rightarrow> []))"
    "cl \<in> set (row_cells r)" and i: "style_id cl \<in> live_ids ?t"
  have len: "length live = style_capacity ?t"
    by (simp add: live_def Let_def mark_rows_props(1) split: option.split)
  have bound: "style_id cl < style_capacity ?t"
    using i by (simp add: live_ids_def style_capacity_def)
  have "live ! style_id cl"
    using r bound by (cases saved) (auto simp: live_def Let_def mark_rows_props)
  then show "style_id cl \<in> live_ids t'"
    using st.gc_keep[OF wf i, of live] bound len i by (simp add: t')
qed

definition table_step :: "screen_t \<Rightarrow> screen_t \<Rightarrow> bool" where
  "table_step s s' \<longleftrightarrow>
     (\<exists>t. s' = s\<lparr>grid := (grid s)\<lparr>style_table := t\<rparr>\<rparr> \<and> wf_style_table t
          \<and> (\<forall>j\<in>used_ids s. j \<in> live_ids t \<and> style_get t j = style_get (style_table (grid s)) j))"

lemma table_step_rows: "table_step s s' \<Longrightarrow> used_rows s' = used_rows s"
  by (auto simp: table_step_def used_rows_def)

lemma table_step_used: "table_step s s' \<Longrightarrow> used_ids s' = used_ids s"
  by (simp add: used_ids_def table_step_rows)

lemma table_step_trans: "table_step s s' \<Longrightarrow> table_step s' s'' \<Longrightarrow> table_step s s''"
  using table_step_used[of s s'] by (fastforce simp: table_step_def)

lemma used_live:
  assumes "wf_at wd s" "j \<in> used_ids s"
  shows "j \<in> live_ids (style_table (grid s))"
proof -
  have "buffer_ok (live_cell (style_table (grid s))) (grid s)"
    using assms(1) by (simp add: wf_atD grid_ok_buffer)
  then show ?thesis
    using assms wf_atD(3)[OF assms(1)]
    by (fastforce simp: used_ids_def used_rows_def buffer_ok_def alt_ok_def list_all_iff row_ok_def
        live_cell_def split: option.splits)
qed

lemma grid_ok_cells_cong:
  assumes "grid_ok P g" and "\<And>r cl. r \<in> set (cells g) \<Longrightarrow> cl \<in> set (row_cells r) \<Longrightarrow> P cl \<Longrightarrow> Q cl"
  shows "grid_ok Q g"
proof -
  have row: "row_ok Q r" if "row_ok P r" "r \<in> set (cells g)" for r
    using that assms(2) by (auto simp: row_ok_def list_all_iff)
  have "list_all (row_ok Q) (take (scrollback_len g) (cells g))"
    using grid_okD(12)[OF assms(1)] by (auto simp: list_all_iff intro!: row dest: in_set_takeD)
  moreover have "list_all (row_fits Q (cols g)) (drop (scrollback_len g) (cells g))"
    using grid_okD(13)[OF assms(1)] by (auto simp: list_all_iff row_fits_def intro!: row dest: in_set_dropD)
  ultimately show ?thesis using assms(1) by (simp add: grid_ok_def)
qed

lemma table_step_wf:
  assumes s: "wf_at wd s" and step: "table_step s s'"
  shows "wf_at wd s'"
proof -
  obtain t where t: "s' = s\<lparr>grid := (grid s)\<lparr>style_table := t\<rparr>\<rparr>" "wf_style_table t"
    "\<forall>j\<in>used_ids s. j \<in> live_ids t"
    using step by (auto simp: table_step_def)
  let ?P = "live_cell (style_table (grid s))"
  have used: "live_cell t cl" if "r \<in> set (used_rows s)" "cl \<in> set (row_cells r)" "?P cl" for r cl
    using that t(3) by (auto simp: live_cell_def used_ids_def)
  have "grid_ok (live_cell t) (grid s)"
    by (rule grid_ok_cells_cong[OF wf_atD(2)[OF s]]) (auto simp: used_rows_def intro: used)
  then have "grid_ok (live_cell t) ((grid s)\<lparr>style_table := t\<rparr>)"
    by (simp add: grid_ok_def)
  moreover have "alt_ok (live_cell t) (grid s) (state s)"
    using wf_atD(3)[OF s] used
    by (fastforce simp: alt_ok_def used_rows_def row_ok_def list_all_iff split: option.splits)
  then have "alt_ok (live_cell t) ((grid s)\<lparr>style_table := t\<rparr>) (state s)"
    by (rule alt_ok_frame) simp_all
  ultimately show ?thesis
    using t s by (simp add: wf_at_parts Let_def)
qed

lemma intern_style_step:
  assumes s: "wf_at wd s"
  shows "returns (intern_style sty s)
    (\<lambda>(i, s'). table_step s s' \<and> i \<in> live_ids (style_table (grid s'))
       \<and> (style_get (style_table (grid s')) i = sty \<or> style_is_full (style_table (grid s)) \<and> i = 0 \<and> s' = s))"
proof -
  obtain i t where "intern sty (style_table (grid s)) = Some (i, t)"
    and post: "intern_post (style_table (grid s)) sty (i, t)"
    using intern_contract[OF wf_atD(1)[OF s], of sty] by (auto elim!: returnsE)
  moreover have "table_step s (s\<lparr>grid := (grid s)\<lparr>style_table := t\<rparr>\<rparr>)"
    using post used_live[OF s] by (auto simp: intern_post_def table_step_def)
  ultimately show ?thesis
    by (auto simp: intern_style_def intern_post_def)
qed

lemma compact_step:
  assumes s: "wf_at wd s"
  shows "table_step s (on_grid (compact_styles (saved_grid (state s))) s)"
proof -
  let ?t = "style_table (compact_styles (saved_grid (state s)) (grid s))"
  have "on_grid (compact_styles (saved_grid (state s))) s = s\<lparr>grid := (grid s)\<lparr>style_table := ?t\<rparr>\<rparr>"
    by (simp add: on_grid_def compact_styles_def Let_def)
  moreover have "j \<in> live_ids ?t" if "j \<in> used_ids s" for j
    using that used_live[OF s that] compact_styles_table(3)[OF wf_atD(1)[OF s] wf_atD(2)[OF s] refl]
    by (auto simp: used_ids_def used_rows_def)
  ultimately show ?thesis
    using compact_styles_table(1,2)[OF wf_atD(1)[OF s] wf_atD(2)[OF s] refl] by (auto simp: table_step_def)
qed

lemma intern_with_gc_step:
  assumes s: "wf_at wd s"
  shows "returns (intern_with_gc sty s)
    (\<lambda>(i, s'). table_step s s' \<and> i \<in> live_ids (style_table (grid s')))"
proof -
  let ?gc = "on_grid (compact_styles (saved_grid (state s))) s"
  obtain i s1 where 1: "intern_style sty s = Some (i, s1)" "table_step s s1"
    "i \<in> live_ids (style_table (grid s1))"
    using intern_style_step[OF s, of sty] by (auto elim!: returnsE)
  let ?gc = "on_grid (compact_styles (saved_grid (state s1))) s1"
  have wf1: "wf_at wd s1" using s 1(2) by (rule table_step_wf)
  have gc: "table_step s1 ?gc" using wf1 by (rule compact_step)
  obtain j s2 where 2: "intern_style sty ?gc = Some (j, s2)" "table_step ?gc s2"
    "j \<in> live_ids (style_table (grid s2))"
    using intern_style_step[OF table_step_wf[OF wf1 gc], of sty] by (auto elim!: returnsE)
  show ?thesis
    using 1 2 gc by (auto simp: intern_with_gc_def intro: table_step_trans)
qed

text \<open>The identifier denotes the style asked for, unless every slot is taken by a style in use.\<close>

lemma intern_style_denotes:
  assumes "wf_at wd s"
  shows "returns (intern_style sty s) (\<lambda>(i, s'). wf_style_table (style_table (grid s')) \<and>
    (style_get (style_table (grid s')) i = sty \<or> i = 0 \<and> style_is_full (style_table (grid s'))))"
  using intern_contract[OF wf_atD(1)[OF assms], of sty]
  by (auto simp: intern_style_def intern_post_def elim!: returns_mono)

lemma intern_with_gc_denotes:
  assumes s: "wf_at wd s"
  shows "returns (intern_with_gc sty s)
    (\<lambda>(i, s'). style_get (style_table (grid s')) i = sty \<or> i = 0 \<and> style_is_full (style_table (grid s')))"
proof -
  obtain i s1 where 1: "intern_style sty s = Some (i, s1)" "table_step s s1" "wf_style_table (style_table (grid s1))"
    "style_get (style_table (grid s1)) i = sty \<or> i = 0 \<and> style_is_full (style_table (grid s1))"
    using returns_conj[OF intern_style_step[OF s, of sty] intern_style_denotes[OF s, of sty]] by (auto elim!: returnsE)
  have wf1: "wf_at wd s1" using s 1(2) by (rule table_step_wf)
  note gc = table_step_wf[OF wf1 compact_step[OF wf1]]
  show ?thesis
    using 1(1,3,4) intern_style_denotes[OF gc, of sty] style_get_zero[OF 1(3)]
    by (auto simp: intern_with_gc_def style_is_default_def elim!: returns_mono)
qed

lemma blank_cell_step:
  assumes s: "wf_at wd s"
  shows "returns (blank_cell s) (\<lambda>(cl, s'). table_step s s' \<and> live_cell (style_table (grid s')) cl)"
proof -
  obtain i s' where "intern_with_gc (style_default\<lparr>bg := bg (current_style (state s))\<rparr>) s = Some (i, s')"
    "table_step s s'" "i \<in> live_ids (style_table (grid s'))"
    using intern_with_gc_step[OF s, of "style_default\<lparr>bg := bg (current_style (state s))\<rparr>"]
    by (auto elim!: returnsE)
  then show ?thesis by (simp add: blank_cell_def)
qed

subsection \<open>Operations on the screen\<close>

lemma with_blank_safe:
  assumes s: "wf_at wd s"
    and f: "\<And>cl s'. wf_at wd s' \<Longrightarrow> live_cell (style_table (grid s')) cl \<Longrightarrow> returns (f cl s') (wf_at wd)"
  shows "returns (blank_cell s \<bind> (\<lambda>(cl, s'). f cl s')) (wf_at wd)"
  using blank_cell_step[OF s] by (rule returns_bindI) (auto intro: f table_step_wf[OF s])

lemma live_default_grid [simp]: "wf_at wd s \<Longrightarrow> live_cell (style_table (grid s)) cell_default"
  by (simp add: wf_atD)

lemma scroll_up_alt:
  "alt_ok P g st \<Longrightarrow> alt_ok P (scroll_up_spec (in_alt_screen st) fill g) st"
  by (auto simp: alt_ok_def scroll_up_spec_def Let_def split: option.splits)

lemma scroll_up_spec_table [simp]: "style_table (scroll_up_spec in_alt fill g) = style_table g"
  by (simp add: scroll_up_spec_def Let_def)

lemma p_scroll_up_safe: "wf_at wd s \<Longrightarrow> returns (p_scroll_up s) (wf_at wd)"
  unfolding p_scroll_up_def
proof (rule with_blank_safe)
  fix cl and s' :: screen_t
  assume s': "wf_at wd s'" and cl: "live_cell (style_table (grid s')) cl"
  let ?g = "scroll_up_spec (in_alt_screen (state s')) cl (grid s')"
  have "grid_ok (live_cell (style_table (grid s'))) ?g"
    by (rule scroll_up_ok[OF wf_atD(2)[OF s'] cl])
  then have "wf_at wd (s'\<lparr>grid := ?g\<rparr>)"
    using s' by (simp add: wf_at_parts scroll_up_alt) (simp add: scroll_up_spec_def Let_def)
  then show "returns (try_grid (scroll_up (in_alt_screen (state s')) cl) s') (wf_at wd)"
    by (simp add: try_grid_def scroll_up_eq[OF wf_atD(2)[OF s']])
qed

lemma p_scroll_down_safe: "wf_at wd s \<Longrightarrow> returns (p_scroll_down s) (wf_at wd)"
  unfolding p_scroll_down_def
  by (rule with_blank_safe) (auto intro!: try_grid_safe scroll_down_keeps simp: wf_atD)

interpretation up: total_step "wf_at wd" p_scroll_up
  by unfold_locales (rule p_scroll_up_safe)

interpretation down: total_step "wf_at wd" p_scroll_down
  by unfold_locales (rule p_scroll_down_safe)

subsubsection \<open>Cursor movement\<close>

text \<open>Each assignment to a control field keeps the contract; the rules peel a sequence of them.\<close>

lemma keeps_update [simp]:
  assumes h: "grid_keeps P g h"
  shows "x < cols h \<Longrightarrow> grid_keeps P g (h\<lparr>cursor_x := x\<rparr>)"
    "y < rows h \<Longrightarrow> grid_keeps P g (h\<lparr>cursor_y := y\<rparr>)"
    "grid_keeps P g (h\<lparr>wrap_pending := b\<rparr>)"
    "grid_keeps P g (h\<lparr>cursor_visible := b\<rparr>)"
    "grid_keeps P g (h\<lparr>modes := m\<rparr>)"
    "length ts = cols h \<Longrightarrow> grid_keeps P g (h\<lparr>tab_stops := ts\<rparr>)"
    "t \<le> u \<Longrightarrow> u < rows h \<Longrightarrow> grid_keeps P g (h\<lparr>scroll_top := t, scroll_bottom := u\<rparr>)"
  using h by (auto simp: grid_keeps_def grid_ok_def)

lemma cursor_up_keeps:
  assumes g: "grid_ok P g"
  shows "grid_keeps P g (csi_cursor_up n g)" "grid_keeps P g (csi_cursor_prev_line n g)"
    "grid_keeps P g (csi_cursor_back n g)"
  using g grid_okD(1,3,7-10)[OF g]
  by (simp_all add: csi_cursor_up_def csi_cursor_prev_line_def csi_cursor_back_def Let_def less_imp_diff_less)

lemma cursor_down_keeps:
  assumes g: "grid_ok P g"
  shows "returns (csi_cursor_down n g) (grid_keeps P g)" "returns (csi_cursor_next_line n g) (grid_keeps P g)"
    "returns (csi_cursor_forward n g) (grid_keeps P g)"
    "returns (csi_cursor_horizontal_absolute n g) (grid_keeps P g)"
proof -
  have y: "min m (scroll_bottom g) < rows g" "min m (rows g - Suc 0) < rows g"
    and x: "min m (cols g - Suc 0) < cols g" for m
    using grid_okD[OF g] by auto
  show "returns (csi_cursor_down n g) (grid_keeps P g)" "returns (csi_cursor_next_line n g) (grid_keeps P g)"
    "returns (csi_cursor_forward n g) (grid_keeps P g)"
    "returns (csi_cursor_horizontal_absolute n g) (grid_keeps P g)"
    using g x y grid_okD(1,3)[OF g]
    by (simp_all add: csi_cursor_down_def csi_cursor_next_line_def csi_cursor_forward_def
        csi_cursor_horizontal_absolute_def Let_def)
qed

lemma cursor_position_keeps:
  assumes g: "grid_ok P g"
  shows "returns (csi_line_position_absolute n g) (grid_keeps P g)"
    "returns (csi_cursor_position n m g) (grid_keeps P g)"
    "returns (csi_set_scrolling_region n m g) (grid_keeps P g)"
proof -
  have y: "min m (scroll_bottom g) < rows g" "min m (rows g - Suc 0) < rows g"
    and x: "min m (cols g - Suc 0) < cols g" for m
    using grid_okD[OF g] by auto
  show "returns (csi_line_position_absolute n g) (grid_keeps P g)"
    "returns (csi_cursor_position n m g) (grid_keeps P g)"
    using g x y grid_okD(1,3)[OF g]
    by (simp_all add: csi_line_position_absolute_def csi_cursor_position_def Let_def)
  have "n - Suc 0 < rows g" if "n - Suc 0 \<le> min (m - Suc 0) (rows g - Suc 0)"
    using that y(2)[of "m - Suc 0"] by linarith
  then show "returns (csi_set_scrolling_region n m g) (grid_keeps P g)"
    using g y grid_okD(1,3)[OF g] by (auto simp: csi_set_scrolling_region_def Let_def)
qed

lemmas cursor_op_keeps = cursor_up_keeps cursor_down_keeps cursor_position_keeps

lemma control_keeps:
  assumes g: "grid_ok P g"
  shows "grid_keeps P g (set_wrap_pending b g)" "grid_keeps P g (set_cursor_visible b g)"
    "grid_keeps P g (modes_mut f g)" "grid_keeps P g (set_modes m g)"
    "grid_keeps P g (set_cursor_x_unclamped 0 g)" "grid_keeps P g (set_cursor_y_unclamped 0 g)"
    "grid_keeps P g (set_tab_stop x g)" "grid_keeps P g (clear_tab_stop x g)"
    "grid_keeps P g (clear_all_tab_stops g)" "grid_keeps P g (reset_tab_stops g)"
  using g grid_okD(1,3,11)[OF g]
  by (simp_all add: set_tab_stop_def clear_tab_stop_def clear_all_tab_stops_def reset_tab_stops_def)

lemma modes_mut_safe: "wf_at wd s \<Longrightarrow> wf_at wd (on_grid (modes_mut f) s)"
  by (intro on_grid_safe control_keeps wf_atD)

lemma line_feed_safe: "wf_at wd s \<Longrightarrow> returns (line_feed s) (wf_at wd)"
proof -
  assume s: "wf_at wd s"
  note g = wf_atD(2)[OF s]
  have "returns (try_grid (\<lambda>g. add16 (cursor_y g) 1 \<bind> (\<lambda>y. Some (set_cursor_y_unclamped y g))) s) (wf_at wd)"
    if "cursor_y (grid s) < rows (grid s) - 1"
    using that g grid_okD[OF g] by (intro try_grid_safe[OF s]) (auto intro!: grid_keeps_control)
  then show ?thesis
    using s p_scroll_up_safe[OF s] grid_okD(3)[OF g] by (auto simp: line_feed_def)
qed

lemma perform_deferred_wrap_safe: "wf_at wd s \<Longrightarrow> returns (perform_deferred_wrap s) (wf_at wd)"
  unfolding perform_deferred_wrap_def
  by (intro line_feed_safe on_grid_safe) (simp_all add: wf_atD wf_atD(2)[THEN grid_okD(1)])

subsubsection \<open>Erasing, inserting, deleting\<close>

text \<open>A state change outside the grid that touches only the queues.\<close>

lemma on_state_safe:
  assumes "wf_at wd s" "queues_ok (f (state s))"
    "saved_grid (f (state s)) = saved_grid (state s)" "in_alt_screen (f (state s)) = in_alt_screen (state s)"
    "saved_modes (f (state s)) = saved_modes (state s)"
    "saved_scroll_region (f (state s)) = saved_scroll_region (state s)"
  shows "wf_at wd (on_state f s)"
  using assms by (cases "saved_grid (state s)") (simp_all add: wf_at_parts on_state_def alt_ok_def Let_def)

interpretation responses: bounded_push "push_drop_new MAX_PENDING" MAX_PENDING
  by (rule push_drop_new_contract)

interpretation notifications: bounded_push "push_drop_old MAX_QUEUED_NOTIFICATIONS" MAX_QUEUED_NOTIFICATIONS
  by (rule push_drop_old_contract) simp

lemma push_safe:
  assumes "wf_at wd s"
  shows "wf_at wd (on_state (push_response d) s)" "wf_at wd (on_state (push_passthrough d) s)"
    "wf_at wd (on_state (push_notification d) s)"
  using assms wf_atD(4)[OF assms]
  by (intro on_state_safe; simp add: push_response_def push_passthrough_def push_notification_def
      queues_ok_def responses.push_bound notifications.push_bound)+

lemma csi_erase_display_safe: "wf_at wd s \<Longrightarrow> returns (csi_erase_display mode s) (wf_at wd)"
  unfolding csi_erase_display_def Let_def
proof (rule with_blank_safe)
  fix cl and s' :: screen_t
  let ?y = "cursor_y (grid s')" and ?x = "cursor_x (grid s')"
  assume s': "wf_at wd s'" and cl: "live_cell (style_table (grid s')) cl"
  note g = wf_atD(2)[OF s'] and P = live_default_grid[OF s']
  have y: "?y < rows (grid s')" by (rule grid_okD(8)[OF g])
  have 0: "returns (try_grid (\<lambda>g. erase_cells ?y ?x (cols g) cl g \<bind>
      (\<lambda>g. erase_rows (?y + 1) (rows g) cl g)) s') (wf_at wd)"
    by (rule try_grid_safe[OF s'], rule grid_keeps_bind[OF erase_cells_keeps[OF g P cl y]],
        rule erase_rows_keeps) (use cl in auto)
  have 1: "returns (try_grid (\<lambda>g. erase_rows 0 ?y cl g \<bind>
      (\<lambda>g. erase_cells ?y 0 (min (?x + 1) (cols g)) cl g)) s') (wf_at wd)"
    by (rule try_grid_safe[OF s'], rule grid_keeps_bind[OF erase_rows_keeps[OF g cl]],
        rule erase_cells_keeps) (use P cl y in \<open>auto simp: grid_keeps_def\<close>)
  have 2: "returns (try_grid (\<lambda>g. erase_rows 0 (rows g) cl g) s') (wf_at wd)"
    by (rule try_grid_safe[OF s'], rule erase_rows_keeps[OF g cl])
  have 3: "returns (try_grid clear_scrollback s') (wf_at wd)"
    by (rule try_grid_safe[OF s'], rule clear_scrollback_keeps[OF g])
  then have "returns (try_grid clear_scrollback s' \<bind> (\<lambda>s. Some (on_state (push_passthrough clear_seq) s))) (wf_at wd)"
    by (rule returns_bindI) (simp add: push_safe)
  then show "returns (if mode = 0 then try_grid (\<lambda>g. erase_cells ?y ?x (cols g) cl g \<bind>
          (\<lambda>g. erase_rows (?y + 1) (rows g) cl g)) s'
        else if mode = 1 then try_grid (\<lambda>g. erase_rows 0 ?y cl g \<bind>
          (\<lambda>g. erase_cells ?y 0 (min (?x + 1) (cols g)) cl g)) s'
        else if mode = 2 then try_grid (\<lambda>g. erase_rows 0 (rows g) cl g) s'
        else if mode = 3 then try_grid clear_scrollback s' \<bind> (\<lambda>s. Some (on_state (push_passthrough clear_seq) s))
        else Some s') (wf_at wd)"
    using 0 1 2 s' by simp
qed

lemma csi_erase_line_safe: "wf_at wd s \<Longrightarrow> returns (csi_erase_line mode s) (wf_at wd)"
  unfolding csi_erase_line_def Let_def
  by (rule with_blank_safe)
    (auto intro!: try_grid_safe erase_cells_keeps intro: grid_okD(8) dest: wf_atD(2))

lemma csi_erase_character_safe: "wf_at wd s \<Longrightarrow> returns (csi_erase_character n s) (wf_at wd)"
  unfolding csi_erase_character_def Let_def
  by (rule with_blank_safe)
    (auto intro!: try_grid_safe erase_cells_keeps dest: wf_atD(2))

lemma row_set_keeps:
  assumes "grid_ok P g" "y < rows g" "x < cols g" "P cl"
  shows "returns (visible_row_mut y (row_set x cl) g) (grid_keeps P g)"
  using assms
  by (intro visible_row_mut_keeps) (auto simp: row_fits_len row_set_fits)

lemma iter_keeps:
  assumes "grid_ok P g" and "\<And>g'. grid_keeps P g g' \<Longrightarrow> returns (f g') (grid_keeps P g')"
  shows "returns (iter n f g) (grid_keeps P g)"
  using assms
proof (induction n arbitrary: g)
  case (Suc n)
  have "returns (f g) (grid_keeps P g)" using Suc.prems by simp
  then show ?case
    unfolding iter.simps by (rule grid_keeps_bind) (rule Suc.IH, auto intro: Suc.prems grid_keeps_trans)
qed simp

text \<open>Deleting and inserting cells keep the width of the row: two edits that only together do.\<close>

lemma visible_row_mut_compose:
  assumes g: "grid_ok P g" and y: "y < rows g"
    and f: "f (cells g ! (scrollback_len g + y)) = Some r"
  shows "visible_row_mut y f g \<bind> visible_row_mut y h
       = visible_row_mut y (\<lambda>r. f r \<bind> h) g"
  using grid_ok_index[OF g y] y
  by (cases "h r") (simp_all add: visible_row_mut_def visible_row_def vget_def f)

lemma delete_cell_keeps:
  assumes g: "grid_ok P g" and y: "y < rows g" and x: "x < cols g" and cl: "P cl"
  shows "returns (visible_row_mut y (row_remove x) g \<bind> visible_row_mut y (\<lambda>r. Some (row_push cl r)))
    (grid_keeps P g)"
proof -
  have n: "cols g < 65536" using grid_okD(2)[OF g] by simp
  note fits = row_remove_push_fits[where P = P and x = x and cl = cl, OF _ x n cl]
  obtain r where "row_remove x (cells g ! (scrollback_len g + y)) = Some r"
    using fits[OF grid_ok_row[OF g y]] by (auto elim: returnsE)
  then show ?thesis
    by (subst visible_row_mut_compose[OF g y]) (auto intro!: visible_row_mut_keeps[OF g y] dest: fits)
qed

lemma insert_cell_keeps:
  assumes g: "grid_ok P g" and y: "y < rows g" and x: "x < cols g" and cl: "P cl"
  shows "returns (visible_row_mut y (\<lambda>r. Some (row_pop r)) g \<bind> visible_row_mut y (row_insert x cl))
    (grid_keeps P g)"
proof -
  have n: "cols g < 65536" using grid_okD(2)[OF g] by simp
  note fits = row_pop_insert_fits[where P = P and x = x and cl = cl, OF _ x n cl]
  show ?thesis
    by (subst visible_row_mut_compose[OF g y refl]) (auto intro!: visible_row_mut_keeps[OF g y] dest: fits)
qed

lemma blank_pair_keeps:
  assumes g: "grid_ok P g" and y: "y < rows g" and x: "x < cols g" and cl: "P cl"
  shows "returns (do { g \<leftarrow> visible_row_mut y (row_set x cl) g;
       if x > 0 then
         do { left \<leftarrow> visible_row y g \<bind> row_get (x - 1);
              if cell_width left = 2 then visible_row_mut y (row_set (x - 1) cl) g else Some g }
       else Some g }) (grid_keeps P g)"
proof (rule grid_keeps_bind[OF row_set_keeps[OF assms]])
  fix g' assume k: "grid_keeps P g g'" and g': "grid_ok P g'"
  have y': "y < rows g'" and x': "x - 1 < cols g'" using k y x by (auto simp: grid_keeps_def)
  show "returns (if x > 0 then visible_row y g' \<bind> row_get (x - 1) \<bind>
       (\<lambda>left. if cell_width left = 2 then visible_row_mut y (row_set (x - 1) cl) g' else Some g')
     else Some g') (grid_keeps P g')"
  proof (cases "x > 0")
    case True
    show ?thesis
      unfolding if_P[OF True] using g' row_set_keeps[where P = P and cl = cl, OF g' y' x' cl]
      by (intro returns_bindI[OF visible_row_get[OF g' y' x']]) simp
  qed (use g' in simp)
qed

lemma csi_delete_character_safe: "wf_at wd s \<Longrightarrow> returns (csi_delete_character n s) (wf_at wd)"
  unfolding csi_delete_character_def Let_def
proof (rule with_blank_safe, goal_cases)
  case (2 cl s')
  note g = wf_atD(2)[OF 2(2)] and P = live_default_grid[OF 2(2)] and cl = 2(3)
  let ?P = "live_cell (style_table (grid s'))" and ?y = "cursor_y (grid s')" and ?x = "cursor_x (grid s')"
  have y: "?y < rows (grid s')" and x: "?x < cols (grid s')" using grid_okD[OF g] by auto
  have last: "returns (visible_row ?y h \<bind> row_get ?x \<bind> (\<lambda>c. if cell_width c = 0
      then visible_row_mut ?y (row_set ?x cl) h \<bind> (\<lambda>g. if 0 < ?x
        then visible_row ?y g \<bind> row_get (?x - 1) \<bind> (\<lambda>left. if cell_width left = 2
          then visible_row_mut ?y (row_set (?x - 1) cl) g else Some g) else Some g)
      else Some h)) (grid_keeps ?P h)" if h: "grid_ok ?P h" "?y < rows h" "?x < cols h" for h
    using blank_pair_keeps[OF h, of cl] cl h(1)
    by (intro returns_bindI[OF visible_row_get[OF h]]) (simp del: returns_bind)
  show ?case
    unfolding if_P[OF y]
  proof (rule try_grid_safe[OF 2(2)], rule grid_keeps_bind[OF fixup_keeps[OF g P]], rule grid_keeps_bind, goal_cases)
    case (1 g1)
    then show ?case
      using y x cl by (intro iter_keeps delete_cell_keeps) (auto simp: grid_keeps_def)
  next
    case (2 g1 g2)
    then have g2: "grid_ok ?P g2" "?y < rows g2" "?x < cols g2" using y x by (auto simp: grid_keeps_def)
    show ?case unfolding if_P[OF g2(3)] by (rule last[OF g2])
  qed
qed simp

lemma csi_insert_character_safe: "wf_at wd s \<Longrightarrow> returns (csi_insert_character n s) (wf_at wd)"
  unfolding csi_insert_character_def Let_def
proof (rule with_blank_safe, goal_cases)
  case (2 cl s')
  note g = wf_atD(2)[OF 2(2)] and P = live_default_grid[OF 2(2)] and cl = 2(3)
  let ?P = "live_cell (style_table (grid s'))" and ?y = "cursor_y (grid s')" and ?x = "cursor_x (grid s')"
  have y: "?y < rows (grid s')" and x: "?x < cols (grid s')" using grid_okD[OF g] by auto
  have last: "returns (visible_row ?y h \<bind> row_get l \<bind> (\<lambda>c. if cell_width c = 2
      then visible_row_mut ?y (row_set l cl) h
      else if cell_width c = 0
      then visible_row_mut ?y (row_set l cl) h \<bind> (\<lambda>g. if 0 < l
        then visible_row ?y g \<bind> row_get (l - 1) \<bind> (\<lambda>left. if cell_width left = 2
          then visible_row_mut ?y (row_set (l - 1) cl) g else Some g) else Some g)
      else Some h)) (grid_keeps ?P h)" if h: "grid_ok ?P h" "?y < rows h" "l < cols h" for h l
    using blank_pair_keeps[OF h, of cl] row_set_keeps[OF h, of cl] cl h(1)
    by (intro returns_bindI[OF visible_row_get[OF h]]) (simp del: returns_bind)
  show ?case
    unfolding if_P[OF y]
  proof (rule try_grid_safe[OF 2(2)], rule grid_keeps_bind[OF fixup_keeps[OF g P]], rule grid_keeps_bind, goal_cases)
    case (1 g1)
    then show ?case
      using y x cl by (intro iter_keeps insert_cell_keeps) (auto simp: grid_keeps_def)
  next
    case (2 g1 g2)
    then have g2: "grid_ok ?P g2" "?y < rows g2" "cols g2 - 1 < cols g2" "1 \<le> cols g2"
      using y x by (auto simp: grid_keeps_def)
    show ?case unfolding usub_def if_P[OF g2(4)] Option.bind.simps by (rule last[OF g2(1-3)])
  qed
qed simp

subsubsection \<open>Deleting and inserting lines\<close>

lemma visible_part:
  assumes "grid_ok P g"
  obtains h v where "cells g = h @ v" "length h = scrollback_len g" "length v = rows g"
    "list_all (row_ok P) h" "list_all (row_fits P (cols g)) v"
proof -
  show thesis
    by (rule that[of "take (scrollback_len g) (cells g)" "drop (scrollback_len g) (cells g)"])
      (use assms in \<open>auto simp: grid_ok_def\<close>)
qed

lemma visible_part_keeps:
  assumes "grid_ok P g" "cells g = h @ v" "length h = scrollback_len g"
    "list_all (row_fits P (cols g)) v'" "length v' = rows g"
  shows "grid_keeps P g (g\<lparr>cells := h @ v'\<rparr>)"
  using assms by (simp add: grid_keeps_def grid_ok_def)

lemma delete_line_eq:
  assumes "cells g = h @ v" "length h = scrollback_len g" "length v = rows g" "y \<le> bt" "bt < rows g"
  shows "remove_visible_row y g \<bind> (\<lambda>g. insert_visible_row bt (new_blank_row fill g) g)
       = Some (g\<lparr>cells := h @ region_up y bt (new_blank_row fill g) v\<rparr>)"
  using assms
  by (simp add: remove_visible_row_def insert_visible_row_def vremove_def vinsert_def remove_at_append
      insert_at_append region_up_def)

lemma insert_line_eq:
  assumes "cells g = h @ v" "length h = scrollback_len g" "length v = rows g" "y \<le> bt" "bt < rows g"
  shows "remove_visible_row bt g \<bind> (\<lambda>g. insert_visible_row y (new_blank_row fill g) g)
       = Some (g\<lparr>cells := h @ region_down y bt (new_blank_row fill g) v\<rparr>)"
  using assms
  by (simp add: remove_visible_row_def insert_visible_row_def vremove_def vinsert_def remove_at_append
      insert_at_append region_down_def)

lemma line_op_keeps:
  assumes g: "grid_ok P g" and y: "y \<le> bt" "bt < rows g" and P: "P fill"
  shows "returns (remove_visible_row y g \<bind> (\<lambda>g. insert_visible_row bt (new_blank_row fill g) g)) (grid_keeps P g)"
    "returns (remove_visible_row bt g \<bind> (\<lambda>g. insert_visible_row y (new_blank_row fill g) g)) (grid_keeps P g)"
proof -
  obtain h v where v: "cells g = h @ v" "length h = scrollback_len g" "length v = rows g"
    "list_all (row_ok P) h" "list_all (row_fits P (cols g)) v"
    using visible_part[OF g] .
  have "row_fits P (cols g) (new_blank_row fill g)" using P by simp
  then show "returns (remove_visible_row y g \<bind> (\<lambda>g. insert_visible_row bt (new_blank_row fill g) g)) (grid_keeps P g)"
    "returns (remove_visible_row bt g \<bind> (\<lambda>g. insert_visible_row y (new_blank_row fill g) g)) (grid_keeps P g)"
    unfolding delete_line_eq[OF v(1-3) y] insert_line_eq[OF v(1-3) y] returns_Some
    using v y by (auto intro!: visible_part_keeps[OF g])
qed

lemma visible_row_count_ok: "grid_ok P g \<Longrightarrow> visible_row_count g = rows g"
  by (simp add: visible_row_count_def grid_ok_def)

lemma csi_delete_lines_safe: "wf_at wd s \<Longrightarrow> returns (csi_delete_lines n s) (wf_at wd)"
  unfolding csi_delete_lines_def Let_def
proof (rule with_blank_safe, goal_cases)
  case (2 cl s')
  let ?P = "live_cell (style_table (grid s'))" and ?y = "cursor_y (grid s')" and ?bt = "scroll_bottom (grid s')"
  let ?s = "on_grid (set_wrap_pending False) s'"
  have s: "wf_at wd ?s"
    using 2(2) by (intro on_grid_safe control_keeps wf_atD)
  have "returns (try_grid (\<lambda>g. iter (min n (?bt - ?y + 1))
      (\<lambda>g. if ?y \<le> ?bt \<and> ?bt < visible_row_count g
        then remove_visible_row ?y g \<bind> (\<lambda>g. insert_visible_row ?bt (new_blank_row cl g) g)
        else Some g) g) ?s) (wf_at wd)" if "?y \<le> ?bt"
    using that 2(3) grid_okD(10)[OF wf_atD(2)[OF s]] wf_atD(2)[OF s]
    by (intro try_grid_safe[OF s] iter_keeps)
      (auto simp: grid_keeps_def on_grid_def visible_row_count_ok simp del: returns_bind
        intro!: line_op_keeps(1))
  then show ?case using 2(2) by (simp del: returns_bind)
qed simp

lemma csi_insert_lines_safe: "wf_at wd s \<Longrightarrow> returns (csi_insert_lines n s) (wf_at wd)"
  unfolding csi_insert_lines_def Let_def
proof (rule with_blank_safe, goal_cases)
  case (2 cl s')
  let ?P = "live_cell (style_table (grid s'))" and ?y = "cursor_y (grid s')" and ?bt = "scroll_bottom (grid s')"
  let ?s = "on_grid (set_wrap_pending False) s'"
  have s: "wf_at wd ?s"
    using 2(2) by (intro on_grid_safe control_keeps wf_atD)
  have "returns (try_grid (\<lambda>g. iter (min n (?bt - ?y + 1))
      (\<lambda>g. if ?y \<le> ?bt \<and> ?bt < visible_row_count g
        then remove_visible_row ?bt g \<bind> (\<lambda>g. insert_visible_row ?y (new_blank_row cl g) g)
        else Some g) g) ?s) (wf_at wd)" if "?y \<le> ?bt"
    using that 2(3) grid_okD(10)[OF wf_atD(2)[OF s]] wf_atD(2)[OF s]
    by (intro try_grid_safe[OF s] iter_keeps)
      (auto simp: grid_keeps_def on_grid_def visible_row_count_ok simp del: returns_bind
        intro!: line_op_keeps(2))
  then show ?case using 2(2) by (simp del: returns_bind)
qed simp

lemma csi_scroll_safe:
  assumes "wf_at wd s"
  shows "returns (csi_scroll_up_n n s) (wf_at wd)" "returns (csi_scroll_down_n n s) (wf_at wd)"
  using assms by (simp_all add: csi_scroll_up_n_def csi_scroll_down_n_def up.iter_total down.iter_total)

subsubsection \<open>Printing\<close>

lemma mark_column_less: "mark_column g = Some x \<Longrightarrow> x < cols g \<and> cursor_y g < rows g"
  by (auto simp: mark_column_def split: if_splits)

lemma handle_combining_mark_keeps:
  assumes g: "grid_ok P g"
  shows "returns (handle_combining_mark c g) (grid_keeps P g)"
proof (cases "mark_column g")
  case None
  then show ?thesis using g by (simp add: handle_combining_mark_def)
next
  case (Some x)
  let ?r = "cells g ! (scrollback_len g + cursor_y g)"
  have x: "x < cols g" and y: "cursor_y g < rows g" using mark_column_less[OF Some] by auto
  have len: "row_len ?r = cols g" using grid_ok_row[OF g y] by (rule row_fits_len)
  have push: "returns (visible_row_mut (cursor_y g) (\<lambda>r. Some (push_combining (as_u16 i) c r)) g) (grid_keeps P g)"
    if i: "i < cols g" and room: "combining_len (as_u16 i) ?r < 16" for i
  proof -
    let ?h = "\<lambda>r. if r = ?r then push_combining i c r else r"
    have i16: "as_u16 i = i" using i grid_okD(2)[OF g] by simp
    have "visible_row_mut (cursor_y g) (\<lambda>r. Some (push_combining (as_u16 i) c r)) g
        = Some (edit_row (cursor_y g) ?h g)"
      by (rule visible_row_mut_edit[OF g y]) (simp add: i16)
    then show ?thesis
      using i room i16 g y by (auto intro!: grid_keeps_edit push_combining_fits)
  qed
  show ?thesis
    using Some x y len g push[of x] push[of "x - 1"] grid_ok_index[OF g y]
    by (auto simp: handle_combining_mark_def visible_row_def vget_def row_get_def row_len_def Let_def)
qed

lemma intern_or:
  assumes s: "wf_at wd s"
    and f: "\<And>i s'. wf_at wd s' \<Longrightarrow> table_step s s' \<Longrightarrow> i \<in> live_ids (style_table (grid s')) \<Longrightarrow>
      returns_or b (f i s') (wf_at wd)"
  shows "returns_or b (intern_with_gc sty s \<bind> (\<lambda>(i, s'). f i s')) (wf_at wd)"
  by (rule returns_or_bindI[OF returns_orI[OF intern_with_gc_step[OF s]]]) (auto intro: f table_step_wf[OF s])

lemmas intern_safe = intern_or[where b = False, unfolded returns_or_False]

lemma print_at_cursor_safe:
  assumes s: "wf_at wd s" and w: "w = 1 \<or> w = 2 \<and> cursor_x (grid s) + 1 < cols (grid s) \<or> w = 3"
  shows "returns_or (w = 3 \<and> 65533 < wd) (print_at_cursor c w s) (wf_at wd)"
proof -
  let ?x = "cursor_x (grid s)" and ?y = "cursor_y (grid s)"
  have xy: "?x < cols (grid s) \<and> ?y < rows (grid s)"
    using grid_okD[OF wf_atD(2)[OF s]] by simp
  show ?thesis
    unfolding print_at_cursor_def Let_def if_P[OF xy]
  proof (rule intern_or[OF s])
    fix i s'
    assume s': "wf_at wd s'" and step: "table_step s s'" and i: "i \<in> live_ids (style_table (grid s'))"
    let ?P = "live_cell (style_table (grid s'))" and ?g = "grid s'"
    note g = wf_atD(2)[OF s'] and P = live_default_grid[OF s']
    have same: "cursor_x ?g = ?x" "cols ?g = cols (grid s)" using step by (auto simp: table_step_def)
    define g' where "g' = edit_row ?y (put_row ?x (cell_new c i w)) ?g"
    have set: "set_cell ?x ?y (cell_new c i w) ?g = Some g'"
      unfolding g'_def using xy step i w P
      by (intro set_cell_eq[OF g]) (auto simp: table_step_def)
    have "returns (set_cell ?x ?y (cell_new c i w) ?g) (grid_keeps ?P ?g)"
      using i w P by (intro set_cell_keeps[OF g]) (auto simp: cell_new_def live_cell_def)
    then have k: "grid_keeps ?P ?g g'" by (simp add: set)
    have x': "cursor_x g' = ?x" "cols g' = cols (grid s)" by (simp_all add: g'_def same)
    have s2: "wf_at wd (s'\<lparr>grid := g'\<rparr>)" by (rule wf_at_grid[OF s' k])
    have "cols (grid s) = wd" using s by (simp add: wf_at_def)
    then have bound: "?x + w \<le> u16_max \<or> w = 3 \<and> 65533 < wd" using xy w grid_okD(2)[OF g] same by auto
    have "grid_keeps ?P ?g (g'\<lparr>cursor_x := x\<rparr>)" if "x < cols (grid s)" for x
      using that k x' by simp
    then have move: "wf_at wd (s'\<lparr>grid := g'\<lparr>cursor_x := x\<rparr>\<rparr>)"
        "wf_at wd (s'\<lparr>grid := g'\<lparr>cursor_x := x, wrap_pending := b\<rparr>\<rparr>)" if "x < cols (grid s)" for x b
      using that by (auto intro!: wf_at_grid[OF s'])
    show "returns_or (w = 3 \<and> 65533 < wd) (try_grid (set_cell ?x ?y (cell_new c i w)) s' \<bind>
        (\<lambda>s. add16 (cursor_x (grid s)) w \<bind> (\<lambda>new_x.
          if cols (grid s) \<le> new_x
          then usub (cols (grid s)) 1 \<bind> (\<lambda>mx. Some
            (if autowrap_mode (modes (grid (on_grid (set_cursor_x_unclamped mx) s)))
             then on_grid (set_wrap_pending True) (on_grid (set_cursor_x_unclamped mx) s)
             else on_grid (set_cursor_x_unclamped mx) s))
          else Some (on_grid (set_cursor_x_unclamped new_x) s)))) (wf_at wd)"
      using bound xy by (auto simp: try_grid_def set x' on_grid_def move add16_def usub_def)
  qed
qed

text \<open>What the line feed leaves alone.\<close>

lemma p_scroll_up_frame:
  assumes s: "wf_at wd s"
  shows "returns (p_scroll_up s) (\<lambda>s'. wf_at wd s' \<and> state s' = state s \<and> cols (grid s') = cols (grid s)
    \<and> rows (grid s') = rows (grid s) \<and> cursor_x (grid s') = cursor_x (grid s)
    \<and> cursor_y (grid s') = cursor_y (grid s) \<and> modes (grid s') = modes (grid s)
    \<and> wrap_pending (grid s') = wrap_pending (grid s))"
proof -
  obtain cl s1 where b: "blank_cell s = Some (cl, s1)" "table_step s s1"
    using blank_cell_step[OF s] by (auto elim!: returnsE)
  let ?g = "scroll_up_spec (in_alt_screen (state s1)) cl (grid s1)"
  have up: "p_scroll_up s = Some (s1\<lparr>grid := ?g\<rparr>)"
    using scroll_up_eq[OF wf_atD(2)[OF table_step_wf[OF s b(2)]]] by (simp add: p_scroll_up_def b try_grid_def)
  then have "wf_at wd (s1\<lparr>grid := ?g\<rparr>)" using p_scroll_up_safe[OF s] by simp
  then show ?thesis
    using b(2) by (auto simp: up table_step_def scroll_up_spec_def Let_def)
qed

lemma perform_deferred_wrap_frame:
  assumes s: "wf_at wd s"
  shows "returns (perform_deferred_wrap s) (\<lambda>s'. wf_at wd s' \<and> cursor_x (grid s') = 0
    \<and> cols (grid s') = cols (grid s) \<and> \<not> wrap_pending (grid s'))"
proof -
  let ?s = "on_grid (set_cursor_x_unclamped 0 \<circ> set_wrap_pending False) s"
  have s': "wf_at wd ?s"
    using s by (intro on_grid_safe) (simp_all add: wf_atD wf_atD(2)[THEN grid_okD(1)])
  have move: "returns (line_feed ?s) (\<lambda>s'. cursor_x (grid s') = 0 \<and> cols (grid s') = cols (grid s)
      \<and> \<not> wrap_pending (grid s'))"
    if "cursor_y (grid s) \<noteq> scroll_bottom (grid s)"
    using that grid_okD(3,4,8)[OF wf_atD(2)[OF s]]
    by (auto simp: line_feed_def on_grid_def try_grid_def)
  show ?thesis
  proof (cases "cursor_y (grid s) = scroll_bottom (grid s)")
    case True
    then show ?thesis
      using p_scroll_up_frame[OF s'] unfolding perform_deferred_wrap_def
      by (auto simp: line_feed_def on_grid_def elim!: returns_mono)
  next
    case False
    show ?thesis
      using returns_conj[OF line_feed_safe[OF s'] move[OF False]] unfolding perform_deferred_wrap_def .
  qed
qed

lemma wide_char_wrap_safe:
  assumes s: "wf_at wd s"
  shows "returns (wide_char_wrap s) (\<lambda>r. case r of None \<Rightarrow> True
    | Some s' \<Rightarrow> wf_at wd s' \<and> cursor_x (grid s') = 0 \<and> 2 \<le> cols (grid s'))"
proof (cases "autowrap_mode (modes (grid s)) \<and> 2 \<le> cols (grid s)")
  case True
  let ?x = "cursor_x (grid s)" and ?y = "cursor_y (grid s)"
  have xy: "?x < cols (grid s) \<and> ?y < rows (grid s)"
    using grid_okD[OF wf_atD(2)[OF s]] by simp
  obtain cl s1 where b: "blank_cell s = Some (cl, s1)" "table_step s s1" "live_cell (style_table (grid s1)) cl"
    using blank_cell_step[OF s] by (auto elim!: returnsE)
  have s1: "wf_at wd s1" by (rule table_step_wf[OF s b(2)])
  have same: "cols (grid s1) = cols (grid s)" "rows (grid s1) = rows (grid s)"
    using b(2) by (auto simp: table_step_def)
  obtain g where g: "visible_row_mut ?y (row_set ?x cl) (grid s1) = Some g"
    "grid_keeps (live_cell (style_table (grid s1))) (grid s1) g"
    using row_set_keeps[OF wf_atD(2)[OF s1], of ?y ?x cl] xy same b(3) by (auto elim: returnsE)
  have s2: "wf_at wd (s1\<lparr>grid := g\<rparr>)" by (rule wf_at_grid[OF s1 g(2)])
  have "cols g = cols (grid s)" using g(2) same by (simp add: grid_keeps_def)
  then have "returns (perform_deferred_wrap (s1\<lparr>grid := g\<rparr>)) (\<lambda>s'. wf_at wd s' \<and> cursor_x (grid s') = 0
      \<and> 2 \<le> cols (grid s'))"
    using True perform_deferred_wrap_frame[OF s2] by (auto elim!: returns_mono)
  then show ?thesis
    using True xy by (simp add: wide_char_wrap_def Let_def b try_grid_def g)
next
  case False
  then show ?thesis by (auto simp: wide_char_wrap_def)
qed

text \<open>
  What \<open>unicode-width\<close> documents: a character is at most three columns wide, and U+17D8 is. \<open>print\<close>
  treats only two columns as wide; three are added to the cursor as they are, and the addition
  overflows \<open>u16\<close> at one of the last two columns that a screen can have.
\<close>

definition width_ok :: "(rchar \<Rightarrow> nat option) \<Rightarrow> bool" where
  "width_ok cwidth \<longleftrightarrow> (\<forall>c w. cwidth c = Some w \<longrightarrow> w \<le> 3)"

definition too_wide :: "(rchar \<Rightarrow> nat option) \<Rightarrow> nat \<Rightarrow> bool" where
  "too_wide cwidth wd \<longleftrightarrow> 65533 < wd \<and> (\<exists>c. cwidth c = Some 3)"

lemma print_safe:
  assumes s: "wf_at wd s" and cw: "width_ok cwidth"
  shows "returns_or (too_wide cwidth wd) (print cwidth c s) (wf_at wd)"
proof -
  let ?s1 = "on_state (\<lambda>st. st\<lparr>last_printed_char := c\<rparr>) s" and ?b = "too_wide cwidth wd"
  let ?c = "map_charset (modes (grid ?s1)) c"
  let ?w = "case cwidth ?c of Some w \<Rightarrow> w | None \<Rightarrow> 0"
  have s1: "wf_at wd ?s1"
    using s wf_atD(4)[OF s] by (intro on_state_safe) (simp_all add: queues_ok_def)
  have w: "?w \<le> 3" "?w = 3 \<and> 65533 < wd \<Longrightarrow> ?b"
    using cw by (auto simp: width_ok_def too_wide_def split: option.splits)
  have comb: "returns (try_grid (handle_combining_mark ?c) ?s1) (wf_at wd)"
    by (rule try_grid_safe[OF s1], rule handle_combining_mark_keeps[OF wf_atD(2)[OF s1]])
  have wrapped: "returns (if wrap_pending (grid ?s1) \<and> autowrap_mode (modes (grid ?s1))
      then perform_deferred_wrap ?s1 else Some ?s1) (wf_at wd)"
    using perform_deferred_wrap_safe[OF s1] s1 by simp
  have put: "returns_or ?b (print_at_cursor ?c ?w s2) (wf_at wd)"
    if "wf_at wd s2" "?w = 1 \<or> ?w = 2 \<and> cursor_x (grid s2) + 1 < cols (grid s2) \<or> ?w = 3" for s2
    using print_at_cursor_safe[OF that] by (rule returns_or_mono) (use w(2) in auto)
  have rest: "returns_or ?b (do { at_margin \<leftarrow> (if ?w = 2 then do { mx \<leftarrow> usub (cols (grid s2)) 1; Some (cursor_x (grid s2) \<ge> mx) }
                           else Some False);
             if at_margin then
               do { r \<leftarrow> wide_char_wrap s2;
                    case r of None \<Rightarrow> Some s2 | Some s3 \<Rightarrow> print_at_cursor ?c ?w s3 }
             else print_at_cursor ?c ?w s2 }) (wf_at wd)"
    if s2: "wf_at wd s2" and w0: "?w \<noteq> 0" for s2
  proof (cases "?w = 2 \<and> cols (grid s2) - 1 \<le> cursor_x (grid s2)")
    case True
    have two: "returns_or ?b (print_at_cursor ?c 2 s3) (wf_at wd)" if "wf_at wd s3" "cursor_x (grid s3) = 0" "2 \<le> cols (grid s3)" for s3
      using put[OF that(1)] True that(2,3) by simp
    have "returns_or ?b (wide_char_wrap s2 \<bind> (\<lambda>r. case r of None \<Rightarrow> Some s2
        | Some s3 \<Rightarrow> print_at_cursor ?c 2 s3)) (wf_at wd)"
      using s2 by (intro returns_or_bindI[OF returns_orI[OF wide_char_wrap_safe[OF s2]]])
        (use two in \<open>auto split: option.splits\<close>)
    then show ?thesis
      using True grid_okD(1)[OF wf_atD(2)[OF s2]] by (simp del: returns_or_bind add: usub_def Suc_leI)
  next
    case False
    then have "returns_or ?b (print_at_cursor ?c ?w s2) (wf_at wd)"
      using w(1) w0 by (intro put[OF s2]) linarith
    then show ?thesis
      using False grid_okD(1)[OF wf_atD(2)[OF s2]] by (auto simp: usub_def Suc_leI)
  qed
  show ?thesis
  proof (cases "?w = 0")
    case True
    then show ?thesis using returns_orI[OF comb] by (simp add: print_def Let_def)
  next
    case False
    show ?thesis
      unfolding print_def Let_def if_not_P[OF False]
      by (rule returns_or_bindI[OF returns_orI[OF wrapped]]) (rule rest[OF _ False])
  qed
qed

text \<open>The overflow happens: the cell is set, and then the cursor cannot be moved.\<close>

lemma print_overflows:
  assumes s: "wf_screen s" and c: "cwidth (map_charset (modes (grid s)) c) = Some 3"
    and x: "65533 \<le> cursor_x (grid s)" and p: "\<not> wrap_pending (grid s)"
  shows "print cwidth c s = None"
proof -
  let ?s1 = "on_state (\<lambda>st. st\<lparr>last_printed_char := c\<rparr>) s" and ?c = "map_charset (modes (grid s)) c"
  have g1: "grid ?s1 = grid s" by (simp add: on_state_def)
  have xy: "cursor_x (grid s) < cols (grid s) \<and> cursor_y (grid s) < rows (grid s)"
    using grid_okD[OF wf_screenD(2)[OF s]] by simp
  have s1: "wf_at (cols (grid s)) ?s1"
    using wf_at_self[OF s] wf_screenD(4)[OF s] by (intro on_state_safe) (simp_all add: queues_ok_def)
  obtain i s2 where i: "intern_with_gc (current_style (state ?s1)) ?s1 = Some (i, s2)" "table_step ?s1 s2"
    using intern_with_gc_step[OF s1, of "current_style (state ?s1)"] by (auto elim!: returnsE)
  have keep: "cursor_x (grid s3) = cursor_x (grid s)" if "try_grid (set_cell (cursor_x (grid s)) (cursor_y (grid s)) cl) s2 = Some s3" for s3 cl
  proof -
    have x2: "cursor_x (grid s2) = cursor_x (grid s)" using i(2) g1 by (auto simp: table_step_def)
    have g2: "grid_ok (\<lambda>_. True) (grid s2)"
      by (rule grid_ok_mono[OF wf_atD(2)[OF table_step_wf[OF s1 i(2)]]]) simp
    have "cursor_x (grid s) < cols (grid s2)" "cursor_y (grid s) < rows (grid s2)"
      using xy i(2) g1 by (auto simp: table_step_def)
    then show ?thesis
      using that set_cell_eq[OF g2, of "cursor_y (grid s)" "cursor_x (grid s)" cl] x2 by (auto simp: try_grid_def)
  qed
  have "print_at_cursor ?c 3 ?s1 = None"
    using keep[of "cell_new ?c i 3"] x i(1) unfolding print_at_cursor_def Let_def g1 if_P[OF xy]
    by (cases "try_grid (set_cell (cursor_x (grid s)) (cursor_y (grid s)) (cell_new ?c i 3)) s2")
      (auto simp: add16_def)
  then show ?thesis using c p by (simp add: print_def Let_def g1 split del: if_split)
qed

subsubsection \<open>Saved cursor and alternate screen\<close>

lemma save_cursor_safe: "wf_at wd s \<Longrightarrow> wf_at wd (save_cursor s)"
  unfolding save_cursor_def Let_def
  by (rule on_state_safe) (auto simp: queues_ok_def dest: wf_atD(4))

definition cursor_grid :: "saved_cursor \<Rightarrow> grid_t \<Rightarrow> grid_t" where
  "cursor_grid sc g = g\<lparr>cursor_x := min (sc_x sc) (cols g - 1), cursor_y := min (sc_y sc) (rows g - 1),
     wrap_pending := sc_wrap_pending sc, modes := (modes g)\<lparr>g0_charset := sc_g0_charset sc,
     g1_charset := sc_g1_charset sc, active_charset := sc_active_charset sc,
     autowrap_mode := sc_autowrap_mode sc, origin_mode := sc_origin_mode sc\<rparr>\<rparr>"

definition restored :: "screen_t \<Rightarrow> screen_t" where
  "restored s = (case saved_cursor_state (state s) of None \<Rightarrow> s
     | Some sc \<Rightarrow> s\<lparr>grid := cursor_grid sc (grid s), state := (state s)\<lparr>current_style := sc_style sc\<rparr>\<rparr>)"

lemma restore_cursor_eq:
  assumes "grid_ok P (grid s)"
  shows "restore_cursor s = Some (restored s)"
  using grid_okD(1,3)[OF assms]
  by (auto simp: restore_cursor_def restored_def cursor_grid_def on_grid_def on_state_def Let_def usub_def
      split: option.split intro!: screen_t.equality grid_t.equality)

lemma cursor_grid_keeps: "grid_ok P g \<Longrightarrow> grid_keeps P g (cursor_grid sc g)"
  by (simp add: cursor_grid_def grid_keeps_def grid_ok_def min_less_iff_disj)

lemma restored_safe: "wf_at wd s \<Longrightarrow> wf_at wd (restored s)"
proof (cases "saved_cursor_state (state s)")
  case (Some sc)
  assume s: "wf_at wd s"
  have "wf_at wd (on_state (\<lambda>st. st\<lparr>current_style := sc_style sc\<rparr>) (s\<lparr>grid := cursor_grid sc (grid s)\<rparr>))"
    using s wf_atD(4)[OF s]
    by (intro on_state_safe wf_at_grid cursor_grid_keeps wf_atD) (auto simp: queues_ok_def)
  then show ?thesis using Some by (simp add: restored_def on_state_def)
qed (simp add: restored_def)

lemma restore_cursor_safe: "wf_at wd s \<Longrightarrow> returns (restore_cursor s) (wf_at wd)"
  by (simp add: restore_cursor_eq[OF wf_atD(2)] restored_safe)

text \<open>Entering: the visible rows move into the saved grid and blank rows take their place.\<close>

definition alt_grid :: "grid_t \<Rightarrow> grid_t" where
  "alt_grid g = g\<lparr>cells := take (scrollback_len g) (cells g) @ replicate (rows g) (row_new (cols g)),
     scrollback_limit := 0, cursor_x := 0, cursor_y := 0, scroll_top := 0, scroll_bottom := rows g - 1,
     wrap_pending := False\<rparr>"

definition alt_state :: "grid_t \<Rightarrow> screen_state \<Rightarrow> screen_state" where
  "alt_state g st = st\<lparr>in_alt_screen := True,
     saved_grid := Some \<lparr>visible_cells = drop (scrollback_len g) (cells g),
       sg_scrollback_limit = scrollback_limit g\<rparr>,
     saved_modes := Some (modes g), saved_scroll_region := Some (scroll_top g, scroll_bottom g)\<rparr>"

lemma enter_alt_screen_eq:
  assumes g: "grid_ok P (grid s)" and alt: "\<not> in_alt_screen (state s)"
  shows "enter_alt_screen sv s = Some \<lparr>grid = alt_grid (grid s),
    state = alt_state (grid s) (state (if sv then save_cursor s else s))\<rparr>"
  using alt grid_okD(3,5,6)[OF g]
  by (cases sv) (simp_all add: enter_alt_screen_def Let_def drain_visible_def fill_visible_blank_def
      check_invariants_def try_grid_def on_grid_def on_state_def save_cursor_def reset_scroll_region_def
      usub_def alt_grid_def alt_state_def Suc_leI)

lemma enter_alt_screen_safe:
  assumes s: "wf_at wd s"
  shows "returns (enter_alt_screen sv s) (wf_at wd)"
proof (cases "in_alt_screen (state s)")
  case False
  let ?t = "style_table (grid s)" and ?s = "if sv then save_cursor s else s"
  note g = wf_atD(2)[OF s]
  have "buffer_ok (live_cell ?t) (grid s)" by (rule grid_ok_buffer[OF g])
  then have rows: "list_all (row_ok (live_cell ?t)) (drop (scrollback_len (grid s)) (cells (grid s)))"
    by (simp add: buffer_ok_def)
  have len: "scrollback_len (grid s) \<le> scrollback_limit (grid s)"
    using wf_atD(3)[OF s] False by (auto simp: alt_ok_def split: option.splits)
  have ga: "grid_ok (live_cell ?t) (alt_grid (grid s))"
    using g wf_atD(1)[OF s] by (auto simp: grid_ok_def alt_grid_def)
  have t: "style_table (alt_grid (grid s)) = ?t" by (simp add: alt_grid_def)
  have "wf_at wd ?s" using s by (simp add: save_cursor_safe)
  then have q: "queues_ok (state ?s)" by (rule wf_atD(4))
  have "alt_ok (live_cell ?t) (alt_grid (grid s)) (alt_state (grid s) (state ?s))"
    using rows len by (simp add: alt_ok_def alt_state_def alt_grid_def)
  moreover have "queues_ok (alt_state (grid s) (state ?s))"
    using q by (simp add: queues_ok_def alt_state_def)
  ultimately show ?thesis
    using ga s by (simp add: enter_alt_screen_eq[OF g False] wf_at_parts t) (simp add: alt_grid_def)
qed (simp add: enter_alt_screen_def s)

text \<open>Leaving: the saved rows come back, cut and filled to the present size.\<close>

abbreviation fit_row :: "nat \<Rightarrow> row \<Rightarrow> row" where
  "fit_row c r \<equiv> row_resize c cell_default (fix_wide_char_orphan_at_boundary c r)"

lemma visible_row_mut_Some:
  assumes "y < rows g" "length (cells g) = scrollback_len g + rows g"
  shows "visible_row_mut y (\<lambda>r. Some (f r)) g = Some (edit_row y f g)"
  using assms by (simp add: visible_row_mut_def visible_row_def vget_def edit_row_def)

lemma refit_prefix:
  assumes len: "length (cells g) = scrollback_len g + rows g" and "n \<le> rows g"
  shows "foldm (\<lambda>y g. visible_row_mut y (\<lambda>r. Some (fix_wide_char_orphan_at_boundary (cols g) r)) g \<bind>
      (\<lambda>g. visible_row_mut y (\<lambda>r. Some (row_resize (cols g) cell_default r)) g)) [0..<n] g
    = Some (g\<lparr>cells := take (scrollback_len g) (cells g)
        @ map (fit_row (cols g)) (take n (drop (scrollback_len g) (cells g)))
        @ drop (scrollback_len g + n) (cells g)\<rparr>)"
  using assms(2)
proof (induction n)
  case 0
  then show ?case by (simp add: append_take_drop_id)
next
  case (Suc n)
  let ?b = "scrollback_len g" and ?m = "map (fit_row (cols g)) (take n (drop (scrollback_len g) (cells g)))"
  let ?g = "g\<lparr>cells := take ?b (cells g) @ ?m @ drop (?b + n) (cells g)\<rparr>"
  have n: "n < rows g" "?b + n < length (cells g)" using Suc.prems len by auto
  have drop: "drop (?b + n) (cells g) = cells g ! (?b + n) # drop (?b + Suc n) (cells g)"
    using n by (simp add: Cons_nth_drop_Suc)
  have l: "length (take ?b (cells g) @ ?m) = ?b + n" using n by simp
  have lg: "n < rows ?g" "length (cells ?g) = scrollback_len ?g + rows ?g" using n len by auto
  have e: "edit_row n (fit_row (cols g)) ?g
      = g\<lparr>cells := (take ?b (cells g) @ ?m) @ fit_row (cols g) (cells g ! (?b + n)) # drop (?b + Suc n) (cells g)\<rparr>"
    unfolding edit_row_def using l by (simp add: drop nth_append list_update_append)
  have t: "take (Suc n) (drop ?b (cells g)) = take n (drop ?b (cells g)) @ [cells g ! (?b + n)]"
    using n by (simp add: take_Suc_conv_app_nth)
  have two: "edit_row n h2 (edit_row n h1 ?g) = edit_row n (h2 \<circ> h1) ?g" for h1 h2
    using lg by (intro edit_row_compose) simp
  show ?case
    using Suc.IH Suc.prems lg
    by (simp add: foldm_append visible_row_mut_Some two[unfolded comp_def] e[unfolded comp_def] t del: upt_Suc)
      (simp add: upt_Suc foldm_append visible_row_mut_Some two[unfolded comp_def] e t)
qed

definition saved_back :: "saved_grid_t \<Rightarrow> grid_t \<Rightarrow> grid_t" where
  "saved_back sg g = g\<lparr>cells := take (scrollback_len g) (cells g) @ fit_rows (cols g) (rows g) (visible_cells sg),
     scrollback_limit := sg_scrollback_limit sg\<rparr>"

lemma adjust_visible_to_fit_eq:
  assumes "cells g = h @ v" "length h = scrollback_len g" "pending_start g \<le> scrollback_len g"
  shows "adjust_visible_to_fit g = Some (g\<lparr>cells := h @ vresize (rows g) (row_new (cols g)) v\<rparr>)"
proof -
  have "length (h @ v) - (visible_row_count g - rows g) = length h + min (rows g) (length v)"
    using assms by (simp add: visible_row_count_def)
  then have "take (length (cells g) - (visible_row_count g - rows g)) (cells g) = h @ take (rows g) v"
    using assms by (simp add: min_def)
  then show ?thesis
    using assms by (simp add: adjust_visible_to_fit_def Let_def visible_row_count_def check_invariants_def
        vresize_def min_def)
qed

lemma restore_saved_grid_eq:
  assumes g: "grid_ok P g"
  shows "restore_saved_grid sg g = Some (saved_back sg g)"
proof -
  let ?h = "take (scrollback_len g) (cells g)" and ?v = "visible_cells sg"
  have h: "length ?h = scrollback_len g" using g by (simp add: grid_ok_def)
  let ?g = "g\<lparr>cells := ?h @ vresize (rows g) (row_new (cols g)) ?v, scrollback_limit := sg_scrollback_limit sg\<rparr>"
  have "adjust_visible_to_fit (set_scrollback_limit (sg_scrollback_limit sg) (replace_visible ?v g)) = Some ?g"
    using h grid_okD(6)[OF g] by (subst adjust_visible_to_fit_eq[of _ ?h ?v]) (auto simp: replace_visible_def)
  moreover have "refit_visible ?g = Some (saved_back sg g)"
    unfolding refit_visible_def using h
    by (subst refit_prefix) (auto simp: visible_row_count_def saved_back_def fit_rows_def)
  ultimately show ?thesis
    by (simp add: restore_saved_grid_def Let_def)
qed

lemma saved_back_ok:
  assumes g: "grid_ok P g" and P: "P cell_default" and v: "list_all (row_ok P) (visible_cells sg)"
  shows "grid_ok P (saved_back sg g)"
proof -
  have "list_all (row_fits P (cols g)) (fit_rows (cols g) (rows g) (visible_cells sg))"
    using v P grid_okD(2)[OF g] by (intro fit_rows_fits) auto
  then show ?thesis
    using g fit_rows_fits(2)[OF v P, of "cols g" "rows g"] grid_okD(2)[OF g]
    by (simp add: grid_ok_def saved_back_def)
qed

lemma restore_scroll_region_keeps:
  assumes g: "grid_ok P g"
  shows "returns (restore_scroll_region sr g) (grid_keeps P g)"
proof (cases sr)
  case (Some tb)
  obtain t b where tb: "tb = (t, b)" by force
  have "max (min b (rows g - Suc 0)) (min t (rows g - Suc 0)) < rows g"
    using grid_okD(3)[OF g] by auto
  then show ?thesis using Some tb g by (simp add: restore_scroll_region_def Let_def)
qed (use g in \<open>simp add: restore_scroll_region_def reset_scroll_region_keeps\<close>)

lemma compact_safe: "wf_at wd s \<Longrightarrow> saved_grid (state s) = None \<Longrightarrow> wf_at wd (on_grid (compact_styles None) s)"
  using compact_step[of wd s] table_step_wf[of wd s] by simp

text \<open>The screen after the saved rows and modes are back, before the cursor is.\<close>

definition left_alt :: "saved_grid_t \<Rightarrow> terminal_modes \<Rightarrow> screen_t \<Rightarrow> screen_t" where
  "left_alt sg m s = s\<lparr>state := (state s)\<lparr>in_alt_screen := False, saved_grid := None, saved_modes := None\<rparr>,
     grid := (saved_back sg (grid s))\<lparr>modes := m\<rparr>\<rparr>"

lemma exit_alt_screen_eq:
  assumes g: "grid_ok P (grid s)" "in_alt_screen (state s)" "saved_grid (state s) = Some sg"
    "saved_modes (state s) = Some m"
    and P: "P cell_default" "list_all (row_ok P) (visible_cells sg)"
  shows "exit_alt_screen rc s =
    do { let s = left_alt sg m s;
         let s = (if rc then restored s else s);
         s' \<leftarrow> try_grid (restore_scroll_region (saved_scroll_region (state s)))
               (on_state (\<lambda>st. st\<lparr>saved_scroll_region := None\<rparr>) s);
         Some (on_grid (compact_styles None) s') }"
proof -
  have ok: "grid_ok P (grid (left_alt sg m s))"
    using saved_back_ok[OF g(1) P] by (simp add: left_alt_def grid_ok_def)
  show ?thesis
    using g(2-4) restore_cursor_eq[OF ok]
    by (simp add: exit_alt_screen_def try_grid_def[of "restore_saved_grid sg"] restore_saved_grid_eq[OF g(1)]
        on_state_def on_grid_def Let_def left_alt_def)
qed

lemma exit_alt_screen_safe:
  assumes s: "wf_at wd s"
  shows "returns (exit_alt_screen rc s) (wf_at wd)"
proof (cases "in_alt_screen (state s)")
  case True
  let ?P = "live_cell (style_table (grid s))"
  obtain sg m sr where sv: "saved_grid (state s) = Some sg" "saved_modes (state s) = Some m"
    "saved_scroll_region (state s) = Some sr" "scrollback_len (grid s) \<le> sg_scrollback_limit sg"
    "list_all (row_ok ?P) (visible_cells sg)"
    using True wf_atD(3)[OF s] by (auto simp: alt_ok_def split: option.splits)
  define s1 where "s1 = (if rc then restored (left_alt sg m s) else left_alt sg m s)"
  let ?s2 = "on_state (\<lambda>st. st\<lparr>saved_scroll_region := None\<rparr>) s1"
  have "on_state (\<lambda>st. st\<lparr>saved_scroll_region := None\<rparr>) (restored s') = restored (on_state (\<lambda>st. st\<lparr>saved_scroll_region := None\<rparr>) s')" for s'
    by (auto simp: restored_def on_state_def split: option.split)
  moreover have "wf_at wd (on_state (\<lambda>st. st\<lparr>saved_scroll_region := None\<rparr>) (left_alt sg m s))"
    using s sv(4) saved_back_ok[OF wf_atD(2)[OF s] live_default_grid[OF s] sv(5)] wf_atD(4)[OF s]
    by (simp add: wf_at_parts Let_def left_alt_def on_state_def alt_ok_def queues_ok_def saved_back_def grid_ok_def)
  ultimately have s2: "wf_at wd ?s2" by (simp add: s1_def restored_safe)
  have none: "saved_grid (state ?s2) = None"
    by (auto simp: s1_def left_alt_def restored_def on_state_def split: option.split)
  have "returns (try_grid (restore_scroll_region r) ?s2) (\<lambda>s. wf_at wd s \<and> saved_grid (state s) = None)" for r
    using try_grid_safe[where f = "restore_scroll_region r", OF s2 restore_scroll_region_keeps[OF wf_atD(2)[OF s2], of r]] none
      try_grid_state[of "restore_scroll_region r" ?s2]
    by (auto simp: returns_def)
  then have "returns (try_grid (restore_scroll_region r) ?s2 \<bind> (\<lambda>s. Some (on_grid (compact_styles None) s))) (wf_at wd)" for r
    by (rule returns_bindI) (simp add: compact_safe)
  then show ?thesis
    by (simp add: exit_alt_screen_eq[OF wf_atD(2)[OF s] True sv(1,2) live_default_grid[OF s] sv(5)]
        s1_def[symmetric] Let_def del: returns_bind)
qed (simp add: exit_alt_screen_def s)

text \<open>
  Rows that already have the width of the screen come back unchanged, so leaving the alternate
  screen undoes entering it, whatever happened on it in between.
\<close>

lemma fit_row_id: "row_fits P c r \<Longrightarrow> fit_row c r = r"
  by (auto simp: row_fits_def row_resize_def fix_wide_char_orphan_at_boundary_def vresize_def row_len_def Let_def
      intro: row.equality)

lemma fit_rows_id: "list_all (row_fits P c) v \<Longrightarrow> fit_rows c (length v) v = v"
  by (simp add: fit_rows_def vresize_def list_all_iff fit_row_id[of P] map_idI)

lemma restore_scroll_region_id:
  "t \<le> b \<Longrightarrow> b < rows g \<Longrightarrow> restore_scroll_region (Some (t, b)) g = Some (g\<lparr>scroll_top := t, scroll_bottom := b\<rparr>)"
  by (simp add: restore_scroll_region_def Let_def min_def max_def)

lemma leave_alt_screen:
  assumes s: "wf_screen s" "\<not> in_alt_screen (state s)" and a: "wf_screen a" "in_alt_screen (state a)"
    and saved: "saved_grid (state a) = saved_grid (alt_state (grid s) (state s))"
      "saved_modes (state a) = Some (modes (grid s))"
      "saved_scroll_region (state a) = Some (scroll_top (grid s), scroll_bottom (grid s))"
      "saved_cursor_state (state a) = saved_cursor_state (state (save_cursor s))"
    and size: "cols (grid a) = cols (grid s)" "rows (grid a) = rows (grid s)"
  shows "returns (exit_alt_screen True a) (\<lambda>s'. wf_screen s' \<and> \<not> in_alt_screen (state s')
    \<and> visible_rows (grid s') = visible_rows (grid s) \<and> scrollback_rows (grid s') = scrollback_rows (grid a)
    \<and> cursor_pos (grid s') = cursor_pos (grid s) \<and> wrap_pending (grid s') = wrap_pending (grid s)
    \<and> scroll_region (grid s') = scroll_region (grid s) \<and> modes (grid s') = modes (grid s)
    \<and> scrollback_limit (grid s') = scrollback_limit (grid s) \<and> current_style (state s') = current_style (state s))"
proof -
  let ?v = "drop (scrollback_len (grid s)) (cells (grid s))" and ?sg = "\<lparr>visible_cells = drop (scrollback_len (grid s)) (cells (grid s)),
    sg_scrollback_limit = scrollback_limit (grid s)\<rparr>"
  note g = wf_screenD(2)[OF s(1)] and ga = wf_screenD(2)[OF a(1)]
  have sg: "saved_grid (state a) = Some ?sg" using saved(1) by (simp add: alt_state_def)
  have v: "list_all (row_fits (live_cell (style_table (grid s))) (cols (grid s))) ?v" "length ?v = rows (grid s)"
    using grid_okD(5,13)[OF g] by simp_all
  have backv: "fit_rows (cols (grid a)) (rows (grid a)) ?v = ?v"
    using fit_rows_id[OF v(1)] v(2) size by simp
  have ok: "list_all (row_ok (live_cell (style_table (grid a)))) (visible_cells ?sg)"
    using wf_screenD(3)[OF a(1)] sg by (simp add: alt_ok_def)
  define s1 where "s1 = restored (left_alt ?sg (modes (grid s)) a)"
  have cur: "saved_cursor_state (state (left_alt ?sg (modes (grid s)) a)) = saved_cursor_state (state (save_cursor s))"
    using saved(4) by (simp add: left_alt_def)
  let ?g = "(saved_back ?sg (grid a))\<lparr>cursor_x := cursor_x (grid s), cursor_y := cursor_y (grid s),
     wrap_pending := wrap_pending (grid s), modes := modes (grid s)\<rparr>"
  have g1: "grid s1 = ?g" "saved_scroll_region (state s1) = Some (scroll_top (grid s), scroll_bottom (grid s))"
    "in_alt_screen (state s1) = False" "current_style (state s1) = current_style (state s)"
    using cur saved(3) size grid_okD(7,8)[OF g]
    by (auto simp: s1_def restored_def save_cursor_def on_state_def Let_def left_alt_def cursor_grid_def saved_back_def
        intro!: grid_t.equality)
  have "exit_alt_screen True a = Some (on_grid (compact_styles None)
      (s1\<lparr>state := (state s1)\<lparr>saved_scroll_region := None\<rparr>,
          grid := ?g\<lparr>scroll_top := scroll_top (grid s), scroll_bottom := scroll_bottom (grid s)\<rparr>\<rparr>))"
    using g1 grid_okD(9,10)[OF g] size
    by (simp add: exit_alt_screen_eq[OF ga a(2) sg saved(2) live_default_grid[OF wf_at_self[OF a(1)]] ok] s1_def[symmetric]
        Let_def try_grid_def on_state_def restore_scroll_region_id saved_back_def)
  moreover obtain t where "compact_styles None (?g\<lparr>scroll_top := scroll_top (grid s), scroll_bottom := scroll_bottom (grid s)\<rparr>)
      = ?g\<lparr>scroll_top := scroll_top (grid s), scroll_bottom := scroll_bottom (grid s), style_table := t\<rparr>"
    by (rule compact_styles_frame)
  ultimately have e: "exit_alt_screen True a = Some (s1\<lparr>state := (state s1)\<lparr>saved_scroll_region := None\<rparr>,
      grid := ?g\<lparr>scroll_top := scroll_top (grid s), scroll_bottom := scroll_bottom (grid s), style_table := t\<rparr>\<rparr>)"
    by (simp add: on_grid_def)
  have "wf_screen (s1\<lparr>state := (state s1)\<lparr>saved_scroll_region := None\<rparr>,
      grid := ?g\<lparr>scroll_top := scroll_top (grid s), scroll_bottom := scroll_bottom (grid s), style_table := t\<rparr>\<rparr>)"
    using exit_alt_screen_safe[OF wf_at_self[OF a(1)], of True] by (simp add: e wf_at_def)
  then show ?thesis
    using g1 backv v(2) size grid_okD(5)[OF ga] grid_okD(5)[OF g]
    by (simp add: e saved_back_def visible_rows_def scrollback_rows_def cursor_pos_def scroll_region_def)
qed

subsubsection \<open>Reset, alignment pattern, titles\<close>

lemma full_reset_safe:
  assumes s: "wf_at wd s"
  shows "returns (full_reset s) (wf_at wd)"
proof -
  let ?g = "grid s" and ?lim = "case saved_grid (state s) of Some sg \<Rightarrow> sg_scrollback_limit sg | None \<Rightarrow> scrollback_limit (grid s)"
  let ?t = "style_table_reset (style_table ?g)"
  note g = wf_atD(2)[OF s]
  define g1 where "g1 = ?g\<lparr>cursor_x := 0, cursor_y := 0, scroll_top := 0, scroll_bottom := rows ?g - 1,
    cursor_visible := True, wrap_pending := False, modes := terminal_modes_default,
    scrollback_limit := ?lim, tab_stops := default_tab_stops (cols ?g), style_table := ?t\<rparr>"
  define st where "st = (state s)\<lparr>current_style := style_default, in_alt_screen := False, saved_grid := None,
    saved_modes := None, saved_cursor_state := None, saved_scroll_region := None, title := [],
    title_stack := [], last_printed_char := 32\<rparr>"
  define g2 where "g2 = erase_rows_spec 0 (rows ?g) cell_default g1"
  have g1: "grid_ok (\<lambda>_. True) g1"
    using grid_ok_mono[OF g, of "\<lambda>_. True"] by (auto simp: grid_ok_def g1_def)
  have g2: "erase_rows 0 (rows g1) cell_default g1 = Some g2" "grid_ok (\<lambda>_. True) g2"
    using erase_rows_eq[OF g1, where blank = cell_default and a = 0 and b = "rows ?g"] by (simp_all add: g2_def g1_def)
  let ?g3 = "g2\<lparr>cells := drop (scrollback_len g2) (cells g2), scrollback_len := 0, pending_start := 0\<rparr>"
  have reset: "full_reset s = Some (on_state (push_passthrough clear_seq) (s\<lparr>grid := ?g3, state := st\<rparr>))"
    using g2(1) grid_okD(3)[OF g] clear_scrollback_eq[OF g2(2)]
    by (cases "saved_grid (state s)")
      (simp_all add: full_reset_def try_grid_def on_grid_def on_state_def reset_scroll_region_def usub_def
        reset_tab_stops_def Let_def g1_def st_def Suc_leI)
  have len1: "length (cells g1) = scrollback_len g1 + rows g1" by (rule grid_okD(5)[OF g1])
  have frame: "g2 = g1\<lparr>cells := cells g2\<rparr>" unfolding g2_def by (rule erase_rows_spec_frame)
  have rows2: "drop (scrollback_len g2) (cells g2) = map (erase_row cell_default) (drop (scrollback_len ?g) (cells ?g))"
    using erase_all_rows[OF len1, of cell_default] by (simp add: g2_def g1_def erase_rows_spec_def fold_edit_frame)
  have fits: "list_all (row_fits (live_cell ?t) (cols ?g)) (drop (scrollback_len g2) (cells g2))"
    unfolding rows2 list.pred_map comp_def
    by (rule list.pred_mono_strong[OF grid_okD(13)[OF g]])
      (rule erase_row_blank[where P = "live_cell ?t", OF live_default[OF wf_style_table_reset]])
  have sel: "cols g2 = cols ?g" "rows g2 = rows ?g" "cursor_x g2 = 0" "cursor_y g2 = 0" "scroll_top g2 = 0"
    "scroll_bottom g2 = rows ?g - 1" "tab_stops g2 = default_tab_stops (cols ?g)" "style_table g2 = ?t"
    by (subst frame, simp add: g1_def)+
  have len: "length (drop (scrollback_len g2) (cells g2)) = rows ?g"
    unfolding rows2 using grid_okD(5)[OF g] by simp
  have "grid_ok (live_cell ?t) ?g3"
    using fits sel len grid_okD(1-4)[OF g] by (simp add: grid_ok_def)
  moreover have "queues_ok st"
    using wf_atD(4)[OF s] by (simp add: queues_ok_def st_def)
  ultimately have "wf_at wd (s\<lparr>grid := ?g3, state := st\<rparr>)"
    using s by (simp add: wf_at_parts sel wf_style_table_reset alt_ok_def st_def)
  then show ?thesis by (simp add: reset push_safe)
qed

lemma alignment_pattern_safe:
  assumes s: "wf_at wd s"
  shows "returns (alignment_pattern s) (wf_at wd)"
proof -
  have fill: "returns (try_grid (\<lambda>g. foldm (\<lambda>y g. foldm (\<lambda>x. set_cell x y (cell_new 69 i 1)) [0..<cols g] g)
      [0..<rows g] g) s') (wf_at wd)"
    if s': "wf_at wd s'" and i: "i \<in> live_ids (style_table (grid s'))" for i s'
  proof -
    let ?P = "live_cell (style_table (grid s'))" and ?g = "grid s'"
    have cell: "returns (set_cell x y (cell_new 69 i 1) g) (grid_keeps ?P ?g)" if "grid_keeps ?P ?g g" for x y g
    proof -
      have g: "grid_ok ?P g" using that by (simp add: grid_keeps_def)
      have "returns (set_cell x y (cell_new 69 i 1) g) (grid_keeps ?P g)"
        by (rule set_cell_keeps[OF g live_default_grid[OF s']]) (use i in \<open>simp_all add: cell_new_def live_cell_def\<close>)
      then show ?thesis by (rule returns_mono) (rule grid_keeps_trans[OF that])
    qed
    have "returns (foldm (\<lambda>y g. foldm (\<lambda>x. set_cell x y (cell_new 69 i 1)) [0..<cols g] g) [0..<rows ?g] ?g)
        (grid_keeps ?P ?g)"
      using wf_atD(2)[OF s'] cell by (intro foldm_inv) simp_all
    then show ?thesis by (rule try_grid_safe[OF s'])
  qed
  have region: "returns (try_grid reset_scroll_region s) (wf_at wd)"
    by (rule try_grid_safe[OF s], rule reset_scroll_region_keeps[OF wf_atD(2)[OF s]])
  show ?thesis
    unfolding alignment_pattern_def Let_def
  proof (rule returns_bindI[OF region], rule intern_safe)
    fix s1 assume s1: "wf_at wd s1"
    show "wf_at wd (on_grid (set_wrap_pending False \<circ> set_cursor_y_unclamped 0 \<circ> set_cursor_x_unclamped 0) s1)"
      using s1 grid_okD(1,3)[OF wf_atD(2)[OF s1]]
      by (intro on_grid_safe[OF s1]) (simp add: wf_atD)
  qed (rule fill)
qed

lemma queues_ok_title:
  "queues_ok st \<Longrightarrow> length t \<le> 4096 \<Longrightarrow> queues_ok (st\<lparr>title := t\<rparr>)"
  by (simp add: queues_ok_def)

lemma try_state_safe:
  assumes s: "wf_at wd s"
    and f: "returns (f (state s)) (\<lambda>st. queues_ok st \<and> saved_grid st = saved_grid (state s)
      \<and> in_alt_screen st = in_alt_screen (state s) \<and> saved_modes st = saved_modes (state s)
      \<and> saved_scroll_region st = saved_scroll_region (state s))"
  shows "returns (try_state f s) (wf_at wd)"
proof -
  obtain st where st: "f (state s) = Some st" "queues_ok st" "saved_grid st = saved_grid (state s)"
    "in_alt_screen st = in_alt_screen (state s)" "saved_modes st = saved_modes (state s)"
    "saved_scroll_region st = saved_scroll_region (state s)"
    using f by (auto elim!: returnsE)
  then have "wf_at wd (on_state (\<lambda>_. st) s)" using s by (intro on_state_safe) auto
  then show ?thesis using st(1) by (simp add: try_state_def on_state_def)
qed

lemma title_command_safe: "wf_at wd s \<Longrightarrow> returns (try_state (title_command cmd scope) s) (wf_at wd)"
  by (rule try_state_safe)
    (auto simp: title_command_def queues_ok_def list_all_iff dest!: wf_atD(4) in_set_butlastD)

text \<open>The title that cannot be cut.\<close>

fun bad_title :: "action \<Rightarrow> bool" where
  "bad_title (OscDispatch (num # t # ps) bell) \<longleftrightarrow>
     (osc_number num = Some 0 \<or> osc_number num = Some 2) \<and> utf8_valid t \<and> 4096 < length t
     \<and> \<not> is_char_boundary t 4096"
| "bad_title _ \<longleftrightarrow> False"

lemma osc_dispatch_bad: "bad_title (OscDispatch ps bell) \<Longrightarrow> osc_dispatch ps bell st = None"
  by (auto simp: osc_dispatch_def elim!: bad_title.elims)

lemma osc_dispatch_safe:
  assumes s: "wf_at wd s" and t: "\<not> bad_title (OscDispatch ps bell)"
  shows "returns (try_state (osc_dispatch ps bell) s) (wf_at wd)"
  by (rule try_state_safe[OF s])
    (use t wf_atD(4)[OF s] in
      \<open>auto simp: osc_dispatch_def Let_def push_notification_def push_passthrough_def queues_ok_def
        responses.push_bound notifications.push_bound split: list.split\<close>)

subsection \<open>Every action\<close>

lemma next_tab_safe:
  assumes s: "wf_at wd s"
  shows "returns (try_grid (\<lambda>g. let g = set_wrap_pending False g in
    next_tab_stop (cursor_x g) g \<bind> (\<lambda>nxt. Some (set_cursor_x_unclamped nxt g))) s) (wf_at wd)"
proof (rule try_grid_safe[OF s])
  let ?g = "(grid s)\<lparr>wrap_pending := False\<rparr>" and ?P = "live_cell (style_table (grid s))"
  note g = wf_atD(2)[OF s]
  have g': "grid_ok ?P ?g" using g by (simp add: grid_ok_def)
  show "returns (let g = set_wrap_pending False (grid s) in
      next_tab_stop (cursor_x g) g \<bind> (\<lambda>nxt. Some (set_cursor_x_unclamped nxt g))) (grid_keeps ?P (grid s))"
    using next_tab_stop_bound[OF g', of "cursor_x ?g"] g
    by (auto simp: Let_def elim!: returns_mono)
qed

lemma execute_safe:
  assumes s: "wf_at wd s"
  shows "returns (execute b s) (wf_at wd)"
proof -
  note g = wf_atD(2)[OF s]
  have cr: "wf_at wd (on_grid (set_wrap_pending False \<circ> set_cursor_x_unclamped 0) s)"
    using g grid_okD(1)[OF g] by (intro on_grid_safe[OF s]) simp
  have lf: "returns (line_feed (on_grid (set_wrap_pending False) s)) (wf_at wd)"
    using g by (intro line_feed_safe on_grid_safe[OF s]) simp
  have bs: "wf_at wd (on_grid (\<lambda>g. let g = set_wrap_pending False g in
      if cursor_x g > 0 then set_cursor_x_unclamped (cursor_x g - 1) g else g) s)"
    using g grid_okD(7)[OF g] by (intro on_grid_safe[OF s]) (simp add: Let_def less_imp_diff_less)
  show ?thesis
    unfolding execute_def Let_def[of "bval b"]
    using cr lf bs next_tab_safe[OF s] modes_mut_safe[OF s] push_safe(2)[OF s] s
    by (simp add: if_split[of "\<lambda>m. returns m (wf_at wd)"] del: modes_mut_def set_wrap_pending_def set_cursor_x_unclamped_def)
qed

lemma reverse_index_safe: "wf_at wd s \<Longrightarrow> returns (reverse_index s) (wf_at wd)"
proof -
  assume s: "wf_at wd s"
  note g = wf_atD(2)[OF s]
  have "wf_at wd (on_grid (\<lambda>g. if cursor_y g > 0 then set_cursor_y_unclamped (cursor_y g - 1) g else g) s)"
    using g grid_okD(8)[OF g] by (intro on_grid_safe[OF s]) simp
  then show ?thesis using p_scroll_down_safe[OF s] by (simp add: reverse_index_def)
qed

lemma dec_private_mode_safe:
  assumes s: "wf_at wd s"
  shows "returns (dec_private_mode en param s) (wf_at wd)"
proof -
  note g = wf_atD(2)[OF s]
  have origin: "wf_at wd (on_grid (\<lambda>g. set_wrap_pending False
      (set_cursor_y_unclamped (scroll_top g) (set_cursor_x_unclamped 0 g))) s')" if s': "wf_at wd s'" for s'
    using grid_okD(1,9,10)[OF wf_atD(2)[OF s']] by (intro on_grid_safe[OF s']) (simp add: wf_atD(2)[OF s'])
  have vis: "wf_at wd (on_grid (set_cursor_visible en) s)"
    using g by (intro on_grid_safe[OF s]) simp
  show ?thesis
    using s origin[OF modes_mut_safe[OF s]] vis modes_mut_safe[OF s] save_cursor_safe[OF s]
      restore_cursor_safe[OF s] enter_alt_screen_safe[OF s] exit_alt_screen_safe[OF s]
    by (cases param)
      (simp_all add: dec_private_mode_def Let_def del: modes_mut_def set_wrap_pending_def
        set_cursor_x_unclamped_def set_cursor_y_unclamped_def set_cursor_visible_def)
qed

interpretation dec: total_steps "wf_at wd" "\<lambda>_. True" "dec_private_mode en"
  by unfold_locales (rule dec_private_mode_safe)

lemma cursor_report_returns:
  assumes "grid_ok P g"
  shows "returns (cursor_report g) (\<lambda>_. True)"
  using grid_okD(2,4,7,8)[OF assms] by (auto simp: cursor_report_def)

lemmas [safe_intro] = returns_ifI returns_SomeI push_safe save_cursor_safe restore_cursor_safe modes_mut_safe
  csi_erase_display_safe csi_erase_line_safe csi_erase_character_safe csi_delete_character_safe
  csi_insert_character_safe csi_delete_lines_safe csi_insert_lines_safe csi_scroll_safe title_command_safe
  full_reset_safe alignment_pattern_safe reverse_index_safe

lemma on_grid_ops_safe [safe_intro]:
  assumes s: "wf_at wd s"
  shows "wf_at wd (on_grid (csi_cursor_up n) s)" "wf_at wd (on_grid (csi_cursor_back n) s)"
    "wf_at wd (on_grid (csi_cursor_prev_line n) s)" "wf_at wd (on_grid clear_all_tab_stops s)"
    "wf_at wd (on_grid (\<lambda>g. clear_tab_stop (cursor_x g) g) s)" "wf_at wd (on_grid (\<lambda>g. set_tab_stop (cursor_x g) g) s)"
  using wf_atD(2)[OF s] by (auto intro!: on_grid_safe[OF s] cursor_op_keeps control_keeps)

lemma try_grid_ops_safe [safe_intro]:
  assumes s: "wf_at wd s"
  shows "returns (try_grid (csi_cursor_down n) s) (wf_at wd)" "returns (try_grid (csi_cursor_forward n) s) (wf_at wd)"
    "returns (try_grid (csi_cursor_next_line n) s) (wf_at wd)"
    "returns (try_grid (csi_cursor_horizontal_absolute n) s) (wf_at wd)"
    "returns (try_grid (csi_line_position_absolute n) s) (wf_at wd)"
    "returns (try_grid (csi_cursor_position n m) s) (wf_at wd)"
    "returns (try_grid (csi_set_scrolling_region n m) s) (wf_at wd)"
  using wf_atD(2)[OF s] by (auto intro!: try_grid_safe[OF s] cursor_op_keeps)

lemma csi_dispatch_safe:
  assumes s: "wf_at wd s" and cw: "width_ok cwidth"
  shows "returns_or (act = CHR ''b'' \<and> too_wide cwidth wd) (csi_dispatch cwidth ps ims act s) (wf_at wd)"
proof (cases "act = CHR ''b''")
  case True
  have "returns_or (too_wide cwidth wd) (iter n (print cwidth c) s) (wf_at wd)" for n c
    by (rule iter_or[where I = "wf_at wd", OF s]) (rule print_safe[OF _ cw])
  then show ?thesis using True by (simp add: csi_dispatch_def Let_def)
next
  case False
  have sgr: "wf_at wd (on_state (\<lambda>st. st\<lparr>current_style := apply_sgr ps (current_style st)\<rparr>) s)"
    using s wf_atD(4)[OF s] by (intro on_state_safe) (simp_all add: queues_ok_def)
  have dsr: "returns (cursor_report (grid s) \<bind> (\<lambda>r. Some (on_state (push_response r) s))) (wf_at wd)"
    by (rule returns_bindI[OF cursor_report_returns[OF wf_atD(2)[OF s]]]) (simp add: push_safe s)
  have decset: "returns (csi_set_dec_private_mode ps b s) (wf_at wd)" for b
    unfolding csi_set_dec_private_mode_def by (rule dec.foldm_total[OF s]) (simp add: list_all_iff)
  have "returns (csi_dispatch cwidth ps ims act s) (wf_at wd)"
    unfolding csi_dispatch_def Let_def if_not_P[OF False]
    by (intro safe_intro s sgr dsr decset)
  then show ?thesis by (rule returns_orI)
qed

lemma esc_dispatch_safe:
  assumes s: "wf_at wd s"
  shows "returns (esc_dispatch ims b s) (wf_at wd)"
proof -
  note g = wf_atD(2)[OF s]
  have lf: "returns (line_feed (on_grid (set_wrap_pending False) s)) (wf_at wd)"
    "returns (line_feed (on_grid (set_wrap_pending False \<circ> set_cursor_x_unclamped 0) s)) (wf_at wd)"
    using g grid_okD(1)[OF g] by (auto intro!: line_feed_safe on_grid_safe[OF s])
  show ?thesis
    unfolding esc_dispatch_def by (intro safe_intro s lf)
qed

text \<open>The actions that print: a character, and REP, which repeats one.\<close>

fun prints :: "action \<Rightarrow> bool" where
  "prints (Print c) \<longleftrightarrow> True"
| "prints (CsiDispatch ps ims ign act) \<longleftrightarrow> act = CHR ''b''"
| "prints _ \<longleftrightarrow> False"

lemma perform_at:
  assumes s: "wf_at wd s" and cw: "width_ok cwidth" and t: "\<not> bad_title a"
  shows "returns_or (prints a \<and> too_wide cwidth wd) (perform cwidth a s) (wf_at wd)"
  using print_safe[OF s cw] csi_dispatch_safe[OF s cw] returns_orI[OF execute_safe[OF s]]
    returns_orI[OF esc_dispatch_safe[OF s]] returns_orI[OF osc_dispatch_safe[OF s]] s t
  by (cases a) auto

lemma perform_bad: "bad_title a \<Longrightarrow> perform cwidth a s = None"
  by (cases a) (auto simp: try_state_def osc_dispatch_bad)

text \<open>The same without the width of the screen.\<close>

lemmas on_state_wf = on_state_safe[OF wf_at_self, THEN wf_at_screen]

lemma perform_safe:
  assumes "wf_screen s" "width_ok cwidth" "perform cwidth a s = Some s'"
  shows "wf_screen s'"
  using perform_at[OF wf_at_self[OF assms(1)] assms(2), of a] perform_bad[of a cwidth s] assms(3)
  by (cases "bad_title a") (auto simp: wf_at_def)

end
