(* ===== verification/Render.thy ===== *)
theory Render
  imports Performer_Safe
begin

text \<open>
  \<open>src/src/screen/render.rs\<close>: the translation of a grid into the byte sequence that makes the outer
  terminal show it, with the per-connection cache that lets an incremental frame skip rows and
  modes that have not changed.

  A function that appends to the output buffer returns the bytes it appends. The row hash comes
  from Rust's \<open>DefaultHasher\<close>, whose algorithm is unspecified; it is the parameter \<open>H\<close>. The \<open>+ 1\<close> on
  \<open>u16\<close> coordinates can overflow, so the functions are option valued.
\<close>

subsection \<open>The cache\<close>

record render_cache =
  row_hashes :: "64 word list"
  last_modes :: "terminal_modes option"
  last_scroll_region :: "(nat \<times> nat) option"
  last_title :: bytes
  last_cursor :: "(nat \<times> nat) option"
  last_cursor_visible :: "bool option"

definition cache_new :: render_cache where
  "cache_new = \<lparr>row_hashes = [], last_modes = None, last_scroll_region = None, last_title = [],
     last_cursor = None, last_cursor_visible = None\<rparr>"

definition invalidate :: "render_cache \<Rightarrow> render_cache" where
  "invalidate c = c\<lparr>row_hashes := [], last_modes := None, last_scroll_region := None, last_title := [],
     last_cursor := None, last_cursor_visible := None\<rparr>"

subsection \<open>Rows\<close>

definition has_content :: "cell \<Rightarrow> bool" where
  "has_content cl \<longleftrightarrow> (cell_c cl \<noteq> 32 \<and> cell_c cl \<noteq> 0) \<or> style_id cl \<noteq> 0"

definition last_content_position :: "cell list \<Rightarrow> nat option" where
  "last_content_position cs = find (\<lambda>i. has_content (cs ! i)) (rev [0..<length cs])"

definition cell_text :: "row \<Rightarrow> nat \<Rightarrow> cell \<Rightarrow> bytes" where
  "cell_text r x cl = encode_utf8 (cell_c cl) @ concat (map encode_utf8 (combining_at (as_u16 x) r))"

text \<open>The cell loop, from column \<open>x\<close>, stopping at \<open>lim\<close>; \<open>sid\<close> is the style in force.\<close>

fun draw_cells :: "style_table_t \<Rightarrow> row \<Rightarrow> nat \<Rightarrow> nat \<Rightarrow> nat \<Rightarrow> cell list \<Rightarrow> bytes \<times> nat" where
  "draw_cells t r lim x sid [] = ([], sid)"
| "draw_cells t r lim x sid (cl # cs) =
     (if x \<ge> lim then ([], sid)
      else if cell_width cl = 0 then draw_cells t r lim (Suc x) sid cs
      else
        (let sgr = (if style_id cl \<noteq> sid then to_sgr_with_reset (style_get t (style_id cl)) else []);
             (rest, sid') = draw_cells t r lim (Suc x) (style_id cl) cs
         in (sgr @ cell_text r x cl @ rest, sid')))"

definition render_line :: "style_table_t \<Rightarrow> row \<Rightarrow> bytes" where
  "render_line t r =
     (case last_content_position (row_cells r) of
        None \<Rightarrow> []
      | Some last_non_space \<Rightarrow>
          (let (out, current_id) = draw_cells t r (last_non_space + 1) 0 0 (row_cells r)
           in out @ (if current_id \<noteq> 0 then ESC # ''[0m'' else [])))"

subsection \<open>Modes\<close>

definition emit_dec_mode :: "nat \<Rightarrow> bool \<Rightarrow> bytes" where
  "emit_dec_mode code enabled = ESC # ''[?'' @ write_u16 code @ (if enabled then ''h'' else ''l'')"

definition emit_charset :: "byte \<Rightarrow> charset \<Rightarrow> bytes" where
  "emit_charset slot cs = [ESC, slot, (case cs of Ascii \<Rightarrow> CHR ''B'' | LineDrawing \<Rightarrow> CHR ''0'')]"

fun emit_mouse_encoding :: "mouse_encoding_t \<Rightarrow> bytes" where
  "emit_mouse_encoding Sgr = (ESC # ''[?1005l'') @ (ESC # ''[?1006h'')"
| "emit_mouse_encoding Utf8Enc = (ESC # ''[?1006l'') @ (ESC # ''[?1005h'')"
| "emit_mouse_encoding X10 = (ESC # ''[?1006l'') @ (ESC # ''[?1005l'')"

definition emit_cursor_shape :: "cursor_shape_t \<Rightarrow> bytes" where
  "emit_cursor_shape sh = (ESC # ''['') @ [digit (unat (shape_to_param sh))] @ '' q''"

definition emit_keypad :: "bool \<Rightarrow> bytes" where
  "emit_keypad app = [ESC, if app then CHR ''='' else CHR ''>'']"

fun emit_active_charset :: "active_charset_t \<Rightarrow> bytes" where
  "emit_active_charset G0 = [byte_of 0x0F]"
| "emit_active_charset G1 = [byte_of 0x0E]"

definition emit_mode :: "terminal_modes \<Rightarrow> bytes" where
  "emit_mode m =
     emit_cursor_shape (cursor_shape m)
     @ emit_dec_mode 1 (cursor_key_mode m) @ emit_dec_mode 6 (origin_mode m)
     @ emit_dec_mode 7 (autowrap_mode m) @ emit_dec_mode 2004 (bracketed_paste m)
     @ emit_dec_mode 1000 (click (mouse_modes m)) @ emit_dec_mode 1002 (button (mouse_modes m))
     @ emit_dec_mode 1003 (any_motion (mouse_modes m))
     @ emit_mouse_encoding (mouse_encoding m)
     @ emit_dec_mode 1004 (focus_reporting m)
     @ emit_keypad (keypad_app_mode m)
     @ emit_charset CHR ''('' (g0_charset m) @ emit_charset CHR '')'' (g1_charset m)
     @ emit_active_charset (active_charset m)"

definition emit_mode_delta :: "terminal_modes \<Rightarrow> terminal_modes \<Rightarrow> bytes" where
  "emit_mode_delta m prev =
     (if cursor_shape m \<noteq> cursor_shape prev then emit_cursor_shape (cursor_shape m) else [])
     @ (if cursor_key_mode m \<noteq> cursor_key_mode prev then emit_dec_mode 1 (cursor_key_mode m) else [])
     @ (if origin_mode m \<noteq> origin_mode prev then emit_dec_mode 6 (origin_mode m) else [])
     @ (if autowrap_mode m \<noteq> autowrap_mode prev then emit_dec_mode 7 (autowrap_mode m) else [])
     @ (if bracketed_paste m \<noteq> bracketed_paste prev then emit_dec_mode 2004 (bracketed_paste m) else [])
     @ (if click (mouse_modes m) \<noteq> click (mouse_modes prev) then emit_dec_mode 1000 (click (mouse_modes m)) else [])
     @ (if button (mouse_modes m) \<noteq> button (mouse_modes prev) then emit_dec_mode 1002 (button (mouse_modes m)) else [])
     @ (if any_motion (mouse_modes m) \<noteq> any_motion (mouse_modes prev)
        then emit_dec_mode 1003 (any_motion (mouse_modes m)) else [])
     @ (if mouse_encoding m \<noteq> mouse_encoding prev then emit_mouse_encoding (mouse_encoding m) else [])
     @ (if focus_reporting m \<noteq> focus_reporting prev then emit_dec_mode 1004 (focus_reporting m) else [])
     @ (if keypad_app_mode m \<noteq> keypad_app_mode prev then emit_keypad (keypad_app_mode m) else [])
     @ (if g0_charset m \<noteq> g0_charset prev then emit_charset CHR ''('' (g0_charset m) else [])
     @ (if g1_charset m \<noteq> g1_charset prev then emit_charset CHR '')'' (g1_charset m) else [])
     @ (if active_charset m \<noteq> active_charset prev then emit_active_charset (active_charset m) else [])"

subsection \<open>Frames\<close>

text \<open>\<open>slice::chunks\<close>, for a positive size.\<close>

function chunks :: "nat \<Rightarrow> 'a list \<Rightarrow> 'a list list" where
  "chunks n xs = (if xs = [] \<or> n = 0 then [] else take n xs # chunks n (drop n xs))"
  by pat_completeness auto
termination by (relation "measure (\<lambda>(n, xs). length xs)") auto

declare chunks.simps [simp del]

definition scrollback_chunk :: "nat \<Rightarrow> bytes list \<Rightarrow> bytes" where
  "scrollback_chunk rws chunk =
     concat (map (\<lambda>(i, line). (ESC # ''['') @ write_u16 (as_u16 (i + 1)) @ '';1H'' @ (ESC # ''[0m'') @ line
        @ (ESC # ''[K'')) (zip [0..<length chunk] chunk))
     @ (if length chunk < rws
        then concat (map (\<lambda>i. (ESC # ''['') @ write_u16 (as_u16 (i + 1)) @ '';1H'' @ (ESC # ''[2K''))
               [length chunk..<rws])
        else [])
     @ (ESC # ''['') @ write_u16 rws @ '';1H'' @ replicate (length chunk) (CHR 0x0A)"

definition render_scrollback :: "grid_t \<Rightarrow> bytes list \<Rightarrow> bytes option" where
  "render_scrollback g scrollback =
     (if rows g = 0 then None
      else Some ((ESC # ''[?25l'') @ (ESC # ''[r'') @ concat (map (scrollback_chunk (rows g)) (chunks (rows g) scrollback))))"

definition sanitize_title :: "bytes \<Rightarrow> bytes" where
  "sanitize_title t = filter (\<lambda>b. bval b \<ge> 0x20 \<and> bval b \<noteq> 0x7F) t"

definition render_modes_title_cursor ::
  "grid_t \<Rightarrow> bytes \<Rightarrow> bool \<Rightarrow> render_cache \<Rightarrow> (bytes \<times> render_cache) option" where
  "render_modes_title_cursor g ttl full c0 =
     do { (o1, c1) \<leftarrow>
            (if full \<or> last_scroll_region c0 \<noteq> Some (scroll_region g) then
               do { t \<leftarrow> add16 (fst (scroll_region g)) 1;
                    b \<leftarrow> add16 (snd (scroll_region g)) 1;
                    Some ((ESC # ''['') @ write_u16 t @ '';'' @ write_u16 b @ ''r'',
                          c0\<lparr>last_scroll_region := Some (scroll_region g)\<rparr>) }
             else Some ([], c0));
          let o2 = (case last_modes c1 of
                      Some prev \<Rightarrow> if \<not> full then emit_mode_delta (modes g) prev else emit_mode (modes g)
                    | None \<Rightarrow> emit_mode (modes g));
          let c2 = c1\<lparr>last_modes := Some (modes g)\<rparr>;
          (o3, c3) \<leftarrow>
            (if full \<or> last_cursor c2 \<noteq> Some (cursor_pos g) then
               do { r \<leftarrow> add16 (snd (cursor_pos g)) 1;
                    c \<leftarrow> add16 (fst (cursor_pos g)) 1;
                    Some ((ESC # ''['') @ write_u16 r @ '';'' @ write_u16 c @ ''H'',
                          c2\<lparr>last_cursor := Some (cursor_pos g)\<rparr>) }
             else Some ([], c2));
          let (o4, c4) =
            (if full \<or> ttl \<noteq> last_title c3
             then ((ESC # '']2;'') @ sanitize_title ttl @ [byte_of 7], c3\<lparr>last_title := ttl\<rparr>)
             else ([], c3));
          Some (o1 @ o2 @ o3 @ o4, c4) }"

text \<open>One row of a frame; \<open>paint\<close> is the cell loop of the caller.\<close>

definition draw_row :: "(row \<Rightarrow> bytes) \<Rightarrow> bool \<Rightarrow> nat \<Rightarrow> row \<Rightarrow> bytes option" where
  "draw_row paint full y r =
     do { n \<leftarrow> add16 (as_u16 y) 1;
          Some ((ESC # ''['') @ write_u16 n @ '';1H'' @ paint r
                @ (if full then ESC # ''[0m'' else (ESC # ''[0m'') @ (ESC # ''[K''))) }"

fun render_rows :: "(row \<Rightarrow> 64 word) \<Rightarrow> (row \<Rightarrow> bytes) \<Rightarrow> bool \<Rightarrow> nat \<Rightarrow> row list \<Rightarrow> 64 word list
    \<Rightarrow> (bytes \<times> 64 word list) option" where
  "render_rows H paint full y [] hs = Some ([], hs)"
| "render_rows H paint full y (r # rs) hs =
     do { h \<leftarrow> vget hs y;
          if \<not> full \<and> h = H r then render_rows H paint full (Suc y) rs hs
          else
            do { hs \<leftarrow> vset y (H r) hs;
                 o1 \<leftarrow> draw_row paint full y r;
                 (o2, hs) \<leftarrow> render_rows H paint full (Suc y) rs hs;
                 Some (o1 @ o2, hs) } }"

definition write_len :: "row \<Rightarrow> nat" where
  "write_len r = (case last_content_position (row_cells r) of Some p \<Rightarrow> p + 1 | None \<Rightarrow> 0)"

definition paint_row :: "style_table_t \<Rightarrow> row \<Rightarrow> bytes" where
  "paint_row t r = fst (draw_cells t r (write_len r) 0 0 (row_cells r))"

definition sync_begin :: bytes where
  "sync_begin = (ESC # ''[?2026h'') @ (ESC # ''[?25l'')"

definition clear_screen :: bytes where
  "clear_screen = (ESC # ''[0m'') @ (ESC # ''[2J'') @ (ESC # ''[H'')"

text \<open>
  The frame itself, between the scrollback and the end: the bytes after the header, the cache, and
  the end of the frame with the test for an empty one.
\<close>

definition fit_hashes :: "nat \<Rightarrow> render_cache \<Rightarrow> render_cache" where
  "fit_hashes n c =
     (if length (row_hashes c) \<noteq> n then c\<lparr>row_hashes := vresize n (- 1) (row_hashes c)\<rparr> else c)"

definition finish_frame :: "bytes \<Rightarrow> bytes \<Rightarrow> bool \<Rightarrow> render_cache \<Rightarrow> bytes \<times> render_cache" where
  "finish_frame pre payload visible c =
     (if payload = [] \<and> last_cursor_visible c = Some visible then (pre, c)
      else (pre @ sync_begin @ payload @ (if visible then ESC # ''[?25h'' else []) @ (ESC # ''[?2026l''),
            c\<lparr>last_cursor_visible := Some visible\<rparr>))"

definition render_screen_impl ::
  "(row \<Rightarrow> 64 word) \<Rightarrow> grid_t \<Rightarrow> bytes \<Rightarrow> bytes list \<Rightarrow> bool \<Rightarrow> render_cache \<Rightarrow> (bytes \<times> render_cache) option" where
  "render_screen_impl H g ttl scrollback full0 c0 =
     do { (pre, c1) \<leftarrow> (if scrollback \<noteq> []
                        then do { b \<leftarrow> render_scrollback g scrollback; Some (b, invalidate c0) }
                        else Some ([], c0));
          let full = (full0 \<or> scrollback \<noteq> []);
          let (o1, c2) = (if full then (clear_screen, invalidate c1) else ([], c1));
          let c3 = fit_hashes (visible_row_count g) c2;
          (o2, hs) \<leftarrow> render_rows H (paint_row (style_table g)) full 0 (visible_rows g) (row_hashes c3);
          let c4 = c3\<lparr>row_hashes := hs\<rparr>;
          (o3, c5) \<leftarrow> render_modes_title_cursor g ttl full c4;
          Some (finish_frame pre (o1 @ o2 @ o3) (cursor_visible g) c5) }"

definition render_screen ::
  "(row \<Rightarrow> 64 word) \<Rightarrow> grid_t \<Rightarrow> bytes \<Rightarrow> bool \<Rightarrow> render_cache \<Rightarrow> (bytes \<times> render_cache) option" where
  "render_screen H g ttl full c = render_screen_impl H g ttl [] full c"

definition render_screen_with_scrollback ::
  "(row \<Rightarrow> 64 word) \<Rightarrow> grid_t \<Rightarrow> bytes \<Rightarrow> bytes list \<Rightarrow> render_cache \<Rightarrow> (bytes \<times> render_cache) option" where
  "render_screen_with_scrollback H g ttl scrollback c = render_screen_impl H g ttl scrollback True c"

text \<open>
  The \<open>TerminalRenderer\<close> of \<open>AnsiRenderer\<close>, which goes through the \<open>TerminalEmulator\<close> interface
  and compares resolved styles instead of identifiers. Its emulator is the \<open>Screen\<close>.
\<close>

fun draw_styles :: "style_table_t \<Rightarrow> row \<Rightarrow> nat \<Rightarrow> nat \<Rightarrow> style \<Rightarrow> cell list \<Rightarrow> bytes" where
  "draw_styles t r lim x prev [] = []"
| "draw_styles t r lim x prev (cl # cs) =
     (if x \<ge> lim then []
      else if cell_width cl = 0 then draw_styles t r lim (Suc x) prev cs
      else
        (let sty = style_get t (style_id cl);
             sgr = (if sty \<noteq> prev then to_sgr_with_reset sty else [])
         in sgr @ cell_text r x cl @ draw_styles t r lim (Suc x) sty cs))"

definition paint_row_styles :: "style_table_t \<Rightarrow> row \<Rightarrow> bytes" where
  "paint_row_styles t r = draw_styles t r (write_len r) 0 style_default (row_cells r)"

definition ansi_render :: "(row \<Rightarrow> 64 word) \<Rightarrow> screen_t \<Rightarrow> bool \<Rightarrow> render_cache \<Rightarrow> (bytes \<times> render_cache) option" where
  "ansi_render H s full c0 =
     do { let g = grid s;
          let (o1, c1) = (if full then (clear_screen, invalidate c0) else ([], c0));
          let c2 = fit_hashes (rows g) c1;
          (o2, hs) \<leftarrow> render_rows H (paint_row_styles (style_table g)) full 0 (visible_rows g) (row_hashes c2);
          let c3 = c2\<lparr>row_hashes := hs\<rparr>;
          (o3, c4) \<leftarrow> render_modes_title_cursor g (title (state s)) full c3;
          let visible = cursor_visible g;
          if o2 @ o3 = [] \<and> last_cursor_visible c4 = Some visible then Some ([], c4)
          else Some (sync_begin @ o1 @ o2 @ o3 @ (if visible then ESC # ''[?25h'' else []) @ (ESC # ''[?2026l''),
                     c4\<lparr>last_cursor_visible := Some visible\<rparr>) }"

end
