(* ===== verification/Render_Facts.thy ===== *)
theory Render_Facts
  imports Render
begin

text \<open>
  What the renderer guarantees: every frame leaves the cache in agreement with the grid, a second
  frame of an unchanged grid is empty, an incremental frame draws exactly the rows whose hash
  changed; the mode sequences bring a terminal from the cached modes to the present ones; every
  painted cell gets its own style; no control byte of a window title reaches the outer terminal.
\<close>

subsection \<open>Frames and the cache\<close>

definition row_bytes :: "(row \<Rightarrow> bytes) \<Rightarrow> bool \<Rightarrow> nat \<Rightarrow> row \<Rightarrow> bytes" where
  "row_bytes paint full y r = (ESC # ''['') @ write_u16 (y + 1) @ '';1H'' @ paint r
     @ (if full then ESC # ''[0m'' else (ESC # ''[0m'') @ (ESC # ''[K''))"

definition changed_rows :: "(row \<Rightarrow> 64 word) \<Rightarrow> bool \<Rightarrow> 64 word list \<Rightarrow> row list \<Rightarrow> nat list" where
  "changed_rows H full hs rs = filter (\<lambda>y. full \<or> hs ! y \<noteq> H (rs ! y)) [0..<length rs]"

lemma draw_row_eq: "y < u16_max \<Longrightarrow> draw_row paint full y r = Some (row_bytes paint full y r)"
  by (simp add: draw_row_def add16_def row_bytes_def)

lemma render_rows_eq:
  assumes "length hs = y + length rs" "y + length rs \<le> u16_max"
  shows "render_rows H paint full y rs hs = Some
    (concat (map (\<lambda>i. if full \<or> hs ! (y + i) \<noteq> H (rs ! i) then row_bytes paint full (y + i) (rs ! i) else [])
       [0..<length rs]),
     take y hs @ map H rs)"
  using assms
proof (induction rs arbitrary: y hs)
  case Nil
  then show ?case by simp
next
  case (Cons r rs)
  let ?f = "\<lambda>y hs rs i. if full \<or> hs ! (y + i) \<noteq> H (rs ! i) then row_bytes paint full (y + i) (rs ! i) else []"
  have y: "y < length hs" "y < u16_max" using Cons.prems by auto
  have idx: "map (?f y hs (r # rs)) [0..<length (r # rs)] = ?f y hs (r # rs) 0 # map (?f (Suc y) hs rs) [0..<length rs]"
    by (simp add: upt_conv_Cons map_Suc_upt[symmetric] comp_def del: upt_Suc)
  have upd: "map (?f (Suc y) (hs[y := H r]) rs) [0..<length rs] = map (?f (Suc y) hs rs) [0..<length rs]"
    by simp
  have t: "take (Suc y) (hs[y := H r]) = take y hs @ [H r]"
    using y by (simp add: take_Suc_conv_app_nth)
  have ih: "render_rows H paint full (Suc y) rs hs' = Some (concat (map (?f (Suc y) hs' rs) [0..<length rs]),
      take (Suc y) hs' @ map H rs)" if "length hs' = length hs" for hs'
    using Cons.IH[of hs' "Suc y"] Cons.prems that by simp
  show ?case
  proof (cases "\<not> full \<and> hs ! y = H r")
    case True
    then have "take (Suc y) hs = take y hs @ [H r]" using y by (simp add: take_Suc_conv_app_nth)
    then show ?thesis
      unfolding idx using True y ih[of hs] by (simp add: vget_def)
  next
    case False
    then have "render_rows H paint full y (r # rs) hs
        = Some (row_bytes paint full y r @ concat (map (?f (Suc y) (hs[y := H r]) rs) [0..<length rs]),
            take (Suc y) (hs[y := H r]) @ map H rs)"
      using y ih[of "hs[y := H r]"] by (auto simp: vget_def vset_def draw_row_eq)
    then show ?thesis unfolding idx upd t using False by auto
  qed
qed

lemma concat_map_filter: "concat (map (\<lambda>x. if P x then f x else []) xs) = concat (map f (filter P xs))"
  by (induction xs) auto

lemma render_rows_changed:
  assumes "length hs = length rs" "length rs \<le> u16_max"
  shows "render_rows H paint full 0 rs hs
    = Some (concat (map (\<lambda>y. row_bytes paint full y (rs ! y)) (changed_rows H full hs rs)), map H rs)"
  using render_rows_eq[of hs 0 rs H paint full] assms
  by (simp add: changed_rows_def concat_map_filter)

definition cache_synced :: "(row \<Rightarrow> 64 word) \<Rightarrow> grid_t \<Rightarrow> bytes \<Rightarrow> render_cache \<Rightarrow> bool" where
  "cache_synced H g ttl c \<longleftrightarrow>
     row_hashes c = map H (visible_rows g) \<and> last_modes c = Some (modes g)
     \<and> last_scroll_region c = Some (scroll_region g) \<and> last_title c = ttl
     \<and> last_cursor c = Some (cursor_pos g) \<and> last_cursor_visible c = Some (cursor_visible g)"

lemma emit_mode_delta_self [simp]: "emit_mode_delta m m = []"
  by (simp add: emit_mode_delta_def)

lemma render_modes_title_cursor_synced:
  assumes g: "grid_ok P g"
  shows "returns (render_modes_title_cursor g ttl full c) (\<lambda>(out, c').
    row_hashes c' = row_hashes c \<and> last_cursor_visible c' = last_cursor_visible c
    \<and> last_modes c' = Some (modes g) \<and> last_scroll_region c' = Some (scroll_region g)
    \<and> last_title c' = ttl \<and> last_cursor c' = Some (cursor_pos g))"
proof -
  have b: "scroll_top g + 1 \<le> u16_max" "scroll_bottom g + 1 \<le> u16_max" "cursor_x g + 1 \<le> u16_max"
    "cursor_y g + 1 \<le> u16_max"
    using grid_okD[OF g] by auto
  show ?thesis
    using b by (auto simp: render_modes_title_cursor_def scroll_region_def cursor_pos_def Let_def add16_def)
qed

lemma render_modes_title_cursor_same:
  assumes "last_modes c = Some (modes g)" "last_scroll_region c = Some (scroll_region g)"
    "last_title c = ttl" "last_cursor c = Some (cursor_pos g)"
  shows "render_modes_title_cursor g ttl False c = Some ([], c)"
  using assms by (auto simp: render_modes_title_cursor_def Let_def intro: render_cache.equality)

lemma visible_rows_length: "grid_ok P g \<Longrightarrow> length (visible_rows g) = rows g"
  by (simp add: visible_rows_def grid_ok_def)

lemma fit_hashes_length [simp]: "length (row_hashes (fit_hashes n c)) = n"
  by (simp add: fit_hashes_def)

lemma fit_hashes_same: "length (row_hashes c) = n \<Longrightarrow> fit_hashes n c = c"
  by (simp add: fit_hashes_def)

lemma finish_frame_synced:
  assumes "cache_synced H g ttl (c\<lparr>last_cursor_visible := Some (cursor_visible g)\<rparr>)"
  shows "cache_synced H g ttl (snd (finish_frame pre payload (cursor_visible g) c))"
  using assms by (auto simp: finish_frame_def cache_synced_def)

lemma render_screen_impl_returns:
  assumes g: "grid_ok P g"
  shows "returns (render_screen_impl H g ttl sb full c) (\<lambda>(out, c'). cache_synced H g ttl c')"
proof -
  let ?full = "full \<or> sb \<noteq> []"
  have len: "length (visible_rows g) = rows g" "rows g \<le> u16_max" "visible_row_count g = rows g"
    using g by (simp_all add: visible_rows_length grid_okD visible_row_count_ok)
  obtain pre c1 where 1: "(if sb \<noteq> [] then render_scrollback g sb \<bind> (\<lambda>b. Some (b, invalidate c))
      else Some ([], c)) = Some (pre, c1)"
    using grid_okD(3)[OF g] by (cases "sb = []") (auto simp: render_scrollback_def)
  obtain o1 c2 where 2: "(if ?full then (clear_screen, invalidate c1) else ([], c1)) = (o1, c2)"
    by fastforce
  let ?c3 = "fit_hashes (rows g) c2"
  obtain o2 where 3: "render_rows H (paint_row (style_table g)) ?full 0 (visible_rows g) (row_hashes ?c3)
      = Some (o2, map H (visible_rows g))"
    using len by (simp add: render_rows_changed)
  let ?c4 = "?c3\<lparr>row_hashes := map H (visible_rows g)\<rparr>"
  obtain o3 c5 where 4: "render_modes_title_cursor g ttl ?full ?c4 = Some (o3, c5)"
    and c5: "row_hashes c5 = map H (visible_rows g)" "last_modes c5 = Some (modes g)"
      "last_scroll_region c5 = Some (scroll_region g)" "last_title c5 = ttl" "last_cursor c5 = Some (cursor_pos g)"
    using render_modes_title_cursor_synced[OF g, of ttl ?full ?c4] by (auto elim!: returnsE)
  have "render_screen_impl H g ttl sb full c = Some (finish_frame pre (o1 @ o2 @ o3) (cursor_visible g) c5)"
    unfolding render_screen_impl_def 1 Let_def 2 Option.bind.simps prod.case len(3) 3 4 ..
  then show ?thesis
    using finish_frame_synced[of H g ttl c5] c5 by (simp add: cache_synced_def case_prod_beta)
qed

text \<open>An incremental frame: the changed rows, then what \<open>render_modes_title_cursor\<close> adds.\<close>

lemma render_screen_incremental:
  assumes g: "grid_ok P g" and c: "length (row_hashes c) = rows g"
  shows "render_screen H g ttl False c =
    map_option (\<lambda>(o3, c'). finish_frame []
        (concat (map (\<lambda>y. row_bytes (paint_row (style_table g)) False y (visible_rows g ! y))
           (changed_rows H False (row_hashes c) (visible_rows g))) @ o3) (cursor_visible g) c')
      (render_modes_title_cursor g ttl False (c\<lparr>row_hashes := map H (visible_rows g)\<rparr>))"
proof -
  have len: "length (visible_rows g) = rows g" "rows g \<le> u16_max" "visible_row_count g = rows g"
    using g by (simp_all add: visible_rows_length grid_okD visible_row_count_ok)
  show ?thesis
    using len c
    by (cases "render_modes_title_cursor g ttl False (c\<lparr>row_hashes := map H (visible_rows g)\<rparr>)")
      (auto simp: render_screen_def render_screen_impl_def Let_def fit_hashes_same render_rows_changed)
qed

lemma render_screen_same:
  assumes g: "grid_ok P g" and c: "cache_synced H g ttl c"
  shows "render_screen H g ttl False c = Some ([], c)"
proof -
  let ?c = "c\<lparr>row_hashes := map H (visible_rows g)\<rparr>"
  have hs: "row_hashes c = map H (visible_rows g)" using c by (simp add: cache_synced_def)
  have len: "length (row_hashes c) = rows g" by (simp add: hs visible_rows_length[OF g])
  have none: "changed_rows H False (row_hashes c) (visible_rows g) = []"
    by (auto simp: changed_rows_def hs filter_empty_conv)
  have "render_modes_title_cursor g ttl False ?c = Some ([], ?c)"
    using c by (intro render_modes_title_cursor_same) (auto simp: cache_synced_def)
  moreover have "?c = c" by (rule render_cache.equality) (simp_all add: hs)
  ultimately have m: "render_modes_title_cursor g ttl False ?c = Some ([], c)" by metis
  show ?thesis
    unfolding render_screen_incremental[OF g len] m none
    using c by (simp add: finish_frame_def cache_synced_def)
qed

subsection \<open>Modes\<close>

abbreviation csi :: "nat list list \<Rightarrow> byte \<Rightarrow> action" where
  "csi ps a \<equiv> CsiDispatch ps [] False a"

text \<open>Parameters are separated by semicolons, the subparameters of one by colons.\<close>

fun join_with :: "byte \<Rightarrow> bytes list \<Rightarrow> bytes" where
  "join_with sep [] = []"
| "join_with sep [p] = p"
| "join_with sep (p # ps) = p @ sep # join_with sep ps"

text \<open>
  The mode sequences as the actions a terminal performs for them, with this emulator as the
  terminal. \<open>act_bytes\<close> is the text of an action.
\<close>

definition csi_text :: "nat list list \<Rightarrow> bytes" where
  "csi_text ps = join_with CHR '';'' (map (\<lambda>p. join_with CHR '':'' (map write_u16 p)) ps)"

fun act_bytes :: "action \<Rightarrow> bytes" where
  "act_bytes (Print c) = encode_utf8 c"
| "act_bytes (Execute b) = [b]"
| "act_bytes (CsiDispatch ps ims ign a) =
     ESC # ''['' @ (if ims = ''?'' then ims @ csi_text ps else csi_text ps @ ims) @ [a]"
| "act_bytes (EscDispatch ims ign b) = ESC # ims @ [b]"
| "act_bytes (OscDispatch ps bell) = osc_sequence ps bell"
| "act_bytes _ = []"

definition dec_act :: "nat \<Rightarrow> bool \<Rightarrow> action list" where
  "dec_act n en = [CsiDispatch [[n]] ''?'' False (if en then CHR ''h'' else CHR ''l'')]"

definition shape_act :: "cursor_shape_t \<Rightarrow> action list" where
  "shape_act sh = [CsiDispatch [[unat (shape_to_param sh)]] '' '' False CHR ''q'']"

definition charset_act :: "byte \<Rightarrow> charset \<Rightarrow> action list" where
  "charset_act slot cs = [EscDispatch [slot] False (case cs of Ascii \<Rightarrow> CHR ''B'' | LineDrawing \<Rightarrow> CHR ''0'')]"

fun encoding_act :: "mouse_encoding_t \<Rightarrow> action list" where
  "encoding_act Sgr = dec_act 1005 False @ dec_act 1006 True"
| "encoding_act Utf8Enc = dec_act 1006 False @ dec_act 1005 True"
| "encoding_act X10 = dec_act 1006 False @ dec_act 1005 False"

definition keypad_act :: "bool \<Rightarrow> action list" where
  "keypad_act app = [EscDispatch [] False (if app then CHR ''='' else CHR ''>'')]"

definition active_act :: "active_charset_t \<Rightarrow> action list" where
  "active_act a = [Execute (case a of G0 \<Rightarrow> byte_of 0x0F | G1 \<Rightarrow> byte_of 0x0E)]"

definition delta_actions :: "(bool \<Rightarrow> action list \<Rightarrow> action list) \<Rightarrow> terminal_modes \<Rightarrow> terminal_modes \<Rightarrow> action list" where
  "delta_actions sel m p =
     sel (cursor_shape m \<noteq> cursor_shape p) (shape_act (cursor_shape m))
     @ sel (cursor_key_mode m \<noteq> cursor_key_mode p) (dec_act 1 (cursor_key_mode m))
     @ sel (origin_mode m \<noteq> origin_mode p) (dec_act 6 (origin_mode m))
     @ sel (autowrap_mode m \<noteq> autowrap_mode p) (dec_act 7 (autowrap_mode m))
     @ sel (bracketed_paste m \<noteq> bracketed_paste p) (dec_act 2004 (bracketed_paste m))
     @ sel (click (mouse_modes m) \<noteq> click (mouse_modes p)) (dec_act 1000 (click (mouse_modes m)))
     @ sel (button (mouse_modes m) \<noteq> button (mouse_modes p)) (dec_act 1002 (button (mouse_modes m)))
     @ sel (any_motion (mouse_modes m) \<noteq> any_motion (mouse_modes p)) (dec_act 1003 (any_motion (mouse_modes m)))
     @ sel (mouse_encoding m \<noteq> mouse_encoding p) (encoding_act (mouse_encoding m))
     @ sel (focus_reporting m \<noteq> focus_reporting p) (dec_act 1004 (focus_reporting m))
     @ sel (keypad_app_mode m \<noteq> keypad_app_mode p) (keypad_act (keypad_app_mode m))
     @ sel (g0_charset m \<noteq> g0_charset p) (charset_act CHR ''('' (g0_charset m))
     @ sel (g1_charset m \<noteq> g1_charset p) (charset_act CHR '')'' (g1_charset m))
     @ sel (active_charset m \<noteq> active_charset p) (active_act (active_charset m))"

abbreviation if_changed :: "bool \<Rightarrow> action list \<Rightarrow> action list" where
  "if_changed b as \<equiv> (if b then as else [])"

abbreviation always :: "bool \<Rightarrow> action list \<Rightarrow> action list" where
  "always b as \<equiv> as"

abbreviation text_of :: "action list \<Rightarrow> bytes" where
  "text_of as \<equiv> concat (map act_bytes as)"

lemma csi_text_simps [simp]:
  "csi_text [] = []" "csi_text [[n]] = write_u16 n" "csi_text [[n], [m]] = write_u16 n @ CHR '';'' # write_u16 m"
  by (simp_all add: csi_text_def)

lemma write_u16_codes:
  "write_u16 1005 = ''1005''" "write_u16 1006 = ''1006''"
  by code_simp+

lemma act_text:
  "text_of (dec_act n en) = emit_dec_mode n en" "text_of (shape_act sh) = emit_cursor_shape sh"
  "text_of (charset_act slot cs) = emit_charset slot cs" "text_of (encoding_act e) = emit_mouse_encoding e"
  "text_of (keypad_act app) = emit_keypad app" "text_of (active_act a) = emit_active_charset a"
proof -
  have "write_u16 n = [digit n]" if "n < 10" for n
    using that by (simp add: write_u16_def)
  moreover have "unat (shape_to_param sh) < 10" by (cases sh) simp_all
  ultimately show "text_of (shape_act sh) = emit_cursor_shape sh" by (simp add: shape_act_def emit_cursor_shape_def)
  show "text_of (encoding_act e) = emit_mouse_encoding e"
    by (cases e) (simp_all add: dec_act_def write_u16_codes)
  show "text_of (active_act a) = emit_active_charset a" by (cases a) (simp_all add: active_act_def)
qed (simp_all add: dec_act_def emit_dec_mode_def charset_act_def emit_charset_def keypad_act_def emit_keypad_def)

lemma delta_text: "text_of (delta_actions if_changed m p) = emit_mode_delta m p"
proof -
  have c: "text_of (if_changed b as) = (if b then text_of as else [])" for b as by simp
  show ?thesis
    by (simp only: delta_actions_def emit_mode_delta_def map_append concat_append c act_text)
qed

lemma full_text: "text_of (delta_actions always m p) = emit_mode m"
  by (simp only: delta_actions_def emit_mode_def map_append concat_append act_text)

text \<open>\<open>leads cw as p q\<close>: performing \<open>as\<close> in modes \<open>p\<close> gives modes \<open>q\<close>.\<close>

definition leads :: "(rchar \<Rightarrow> nat option) \<Rightarrow> action list \<Rightarrow> terminal_modes \<Rightarrow> terminal_modes \<Rightarrow> bool" where
  "leads cw as p q \<longleftrightarrow>
     (\<forall>s. modes (grid s) = p \<longrightarrow> returns (foldm (perform cw) as s) (\<lambda>s'. modes (grid s') = q))"

lemma leads_append: "leads cw as p q \<Longrightarrow> leads cw bs q r \<Longrightarrow> leads cw (as @ bs) p r"
  by (auto simp: leads_def foldm_append elim!: returns_mono)

lemma leads_if: "leads cw as p q \<Longrightarrow> (x = y \<Longrightarrow> q = p) \<Longrightarrow> leads cw (if_changed (x \<noteq> y) as) p q"
  by (auto simp: leads_def)

lemma leads_dec:
  "leads cw (dec_act 1 b) p (p\<lparr>cursor_key_mode := b\<rparr>)" "leads cw (dec_act 6 b) p (p\<lparr>origin_mode := b\<rparr>)"
  "leads cw (dec_act 7 b) p (p\<lparr>autowrap_mode := b\<rparr>)" "leads cw (dec_act 2004 b) p (p\<lparr>bracketed_paste := b\<rparr>)"
  "leads cw (dec_act 1000 b) p (p\<lparr>mouse_modes := (mouse_modes p)\<lparr>click := b\<rparr>\<rparr>)"
  "leads cw (dec_act 1002 b) p (p\<lparr>mouse_modes := (mouse_modes p)\<lparr>button := b\<rparr>\<rparr>)"
  "leads cw (dec_act 1003 b) p (p\<lparr>mouse_modes := (mouse_modes p)\<lparr>any_motion := b\<rparr>\<rparr>)"
  "leads cw (dec_act 1004 b) p (p\<lparr>focus_reporting := b\<rparr>)"
  "leads cw (dec_act 1005 b) p (p\<lparr>mouse_encoding := (if b then Utf8Enc else X10)\<rparr>)"
  "leads cw (dec_act 1006 b) p (p\<lparr>mouse_encoding := (if b then Sgr else X10)\<rparr>)"
  by (auto simp: leads_def dec_act_def csi_dispatch_def csi_set_dec_private_mode_def dec_private_mode_def
      on_grid_def Let_def mouse_modes_set_def mouse_encoding_from_param_def)

lemma leads_encoding: "leads cw (encoding_act e) p (p\<lparr>mouse_encoding := e\<rparr>)"
proof -
  have two: "leads cw (dec_act 1005 b @ dec_act 1006 b') p (p\<lparr>mouse_encoding := (if b' then Sgr else X10)\<rparr>)"
    "leads cw (dec_act 1006 b' @ dec_act 1005 b) p (p\<lparr>mouse_encoding := (if b then Utf8Enc else X10)\<rparr>)" for b b'
    using leads_append[OF leads_dec(9)[of cw b p] leads_dec(10)[of cw b']]
      leads_append[OF leads_dec(10)[of cw b' p] leads_dec(9)[of cw b]] by simp_all
  show ?thesis
    using two(1)[of False True] two(2)[of False True] two(2)[of False False] by (cases e) simp_all
qed

lemma shape_param_inverse: "shape_from_param (shape_to_param sh) = sh"
  by (cases sh) (simp_all add: shape_from_param_def)

lemma leads_shape: "leads cw (shape_act sh) p (p\<lparr>cursor_shape := sh\<rparr>)"
proof -
  have "csi_param [[n]] 0 0 = n" for n by (simp add: csi_param_def)
  then show ?thesis
    by (simp add: leads_def shape_act_def csi_dispatch_def on_grid_def shape_param_inverse)
qed

lemma leads_charset:
  "leads cw (charset_act CHR ''('' cs) p (p\<lparr>g0_charset := cs\<rparr>)"
  "leads cw (charset_act CHR '')'' cs) p (p\<lparr>g1_charset := cs\<rparr>)"
  "leads cw (keypad_act b) p (p\<lparr>keypad_app_mode := b\<rparr>)"
  by (cases cs; simp add: leads_def charset_act_def keypad_act_def esc_dispatch_def on_grid_def)+

lemma leads_active: "leads cw (active_act a) p (p\<lparr>active_charset := a\<rparr>)"
  by (cases a) (simp_all add: leads_def active_act_def execute_def on_grid_def)

lemma leads_cong: "leads cw as p q \<Longrightarrow> q = q' \<Longrightarrow> leads cw as p q'"
  by simp

lemma delta_leads: "leads cw (delta_actions if_changed m p) p m"
  unfolding delta_actions_def
  apply (rule leads_cong)
   apply (rule leads_append leads_if leads_shape leads_dec leads_encoding leads_charset leads_active | simp)+
  done

lemma full_leads: "leads cw (delta_actions always m r) p m"
  unfolding delta_actions_def
  apply (rule leads_cong)
   apply (rule leads_append leads_shape leads_dec leads_encoding leads_charset leads_active | simp)+
  done

subsection \<open>Painted cells\<close>

text \<open>
  What is painted, as a list of operations: an SGR sequence or the text of a cell. \<open>displayed\<close> reads
  the operations the way a terminal does and lists each text with the style it appears in.
\<close>

datatype paint_op = SetStyle bytes | CellText bytes

fun op_bytes :: "paint_op \<Rightarrow> bytes" where
  "op_bytes (SetStyle b) = b"
| "op_bytes (CellText b) = b"

fun displayed :: "style \<Rightarrow> paint_op list \<Rightarrow> (style \<times> bytes) list" where
  "displayed sty [] = []"
| "displayed sty (SetStyle b # os) = displayed (read_sgr b sty) os"
| "displayed sty (CellText b # os) = (sty, b) # displayed sty os"

fun cell_ops :: "(cell \<Rightarrow> 'k) \<Rightarrow> style_table_t \<Rightarrow> row \<Rightarrow> nat \<Rightarrow> nat \<Rightarrow> 'k \<Rightarrow> cell list \<Rightarrow> paint_op list" where
  "cell_ops key t r lim x k [] = []"
| "cell_ops key t r lim x k (cl # cs) =
     (if x \<ge> lim then []
      else if cell_width cl = 0 then cell_ops key t r lim (Suc x) k cs
      else (if key cl \<noteq> k then [SetStyle (to_sgr_with_reset (style_get t (style_id cl)))] else [])
        @ CellText (cell_text r x cl) # cell_ops key t r lim (Suc x) (key cl) cs)"

fun styled_cells :: "style_table_t \<Rightarrow> row \<Rightarrow> nat \<Rightarrow> nat \<Rightarrow> cell list \<Rightarrow> (style \<times> bytes) list" where
  "styled_cells t r lim x [] = []"
| "styled_cells t r lim x (cl # cs) =
     (if x < lim \<and> cell_width cl \<noteq> 0 then [(style_get t (style_id cl), cell_text r x cl)] else [])
     @ styled_cells t r lim (Suc x) cs"

abbreviation ops_bytes :: "paint_op list \<Rightarrow> bytes" where
  "ops_bytes os \<equiv> concat (map op_bytes os)"

lemma draw_cells_ops: "fst (draw_cells t r lim x sid cs) = ops_bytes (cell_ops style_id t r lim x sid cs)"
  by (induction t r lim x sid cs rule: draw_cells.induct) (auto simp: case_prod_beta Let_def)

lemma draw_styles_ops:
  "draw_styles t r lim x sty cs = ops_bytes (cell_ops (\<lambda>cl. style_get t (style_id cl)) t r lim x sty cs)"
  by (induction t r lim x sty cs rule: draw_styles.induct) (auto simp: Let_def)

lemma styled_cells_end: "lim \<le> x \<Longrightarrow> styled_cells t r lim x cs = []"
  by (induction cs arbitrary: x) auto

text \<open>It is enough that equal keys mean equal styles.\<close>

lemma cell_ops_shows:
  assumes "\<And>cl. val (key cl) = style_get t (style_id cl)"
  shows "displayed (val k) (cell_ops key t r lim x k cs) = styled_cells t r lim x cs"
proof (induction cs arbitrary: x k)
  case (Cons cl cs)
  have "displayed (style_get t (style_id cl)) (cell_ops key t r lim (Suc x) (key cl) cs) = styled_cells t r lim (Suc x) cs"
    using Cons.IH[of "key cl"] by (simp add: assms)
  then show ?case
    using Cons.IH by (auto simp: styled_cells_end read_sgr_to_sgr assms[symmetric])
qed simp

lemma paint_row_shows:
  assumes "wf_style_table t"
  shows "paint_row t r = ops_bytes (cell_ops style_id t r (write_len r) 0 0 (row_cells r))"
    "displayed style_default (cell_ops style_id t r (write_len r) 0 0 (row_cells r))
       = styled_cells t r (write_len r) 0 (row_cells r)"
  using cell_ops_shows[of "style_get t" style_id t 0] style_get_zero[OF assms]
  by (simp_all add: paint_row_def draw_cells_ops)

lemma last_content_beyond:
  assumes "x < length cs" "case last_content_position cs of Some p \<Rightarrow> p < x | None \<Rightarrow> True"
  shows "\<not> has_content (cs ! x)"
proof (cases "last_content_position cs")
  case None
  then show ?thesis using assms(1) by (auto simp: last_content_position_def find_None_iff)
next
  case (Some p)
  then obtain i where i: "i < length cs" "rev [0..<length cs] ! i = p"
    "\<forall>j<i. \<not> has_content (cs ! (rev [0..<length cs] ! j))"
    by (auto simp: last_content_position_def find_Some_iff)
  then have "p = length cs - Suc i" by (simp add: rev_nth)
  moreover have "p < x" using assms(2) Some by simp
  ultimately have "length cs - Suc x < i" "rev [0..<length cs] ! (length cs - Suc x) = x"
    using assms(1) i(1) by (auto simp: rev_nth)
  then show ?thesis using i(3) by auto
qed

lemma beyond_write_len:
  assumes "write_len r \<le> x" "x < row_len r"
  shows "\<not> has_content (row_cells r ! x)"
  using assms last_content_beyond[of x "row_cells r"]
  by (auto simp: write_len_def row_len_def split: option.splits)

subsection \<open>Titles\<close>

lemma sanitize_title_clean: "b \<in> set (sanitize_title t) \<Longrightarrow> 0x20 \<le> bval b \<and> bval b \<noteq> 0x7F"
  by (auto simp: sanitize_title_def)

lemma sanitize_title_id:
  "list_all (\<lambda>b. 0x20 \<le> bval b \<and> bval b \<noteq> 0x7F) t \<Longrightarrow> sanitize_title t = t"
  by (simp add: sanitize_title_def list_all_iff filter_id_conv)

end
