(* ===== verification/Screen.thy ===== *)
theory Screen
  imports Render_Facts
begin

text \<open>
  \<open>src/src/screen/mod.rs\<close>: the emulator \<open>Screen\<close> (grid, state and parser), its byte interface
  \<open>process\<close>, the queues it hands out, rendering, and \<open>resize\<close>; with the accessors of the
  \<open>TerminalEmulator\<close> trait of \<open>src/src/screen/traits.rs\<close>.

  The \<open>vte\<close> parser is the parameter \<open>advance\<close>: from its state and a byte it computes its next
  state and the calls it makes to \<open>Perform\<close>. Nothing is assumed about it.
\<close>

subsection \<open>The emulator\<close>

record 'p emulator =
  scr :: screen_t
  parser :: 'p

definition screen_new :: "nat \<Rightarrow> nat \<Rightarrow> nat \<Rightarrow> screen_t" where
  "screen_new c r limit = \<lparr>grid = grid_new c r limit, state = screen_state_default\<rparr>"

definition emulator_new :: "'p \<Rightarrow> nat \<Rightarrow> nat \<Rightarrow> nat \<Rightarrow> 'p emulator" where
  "emulator_new p0 c r limit = \<lparr>scr = screen_new c r limit, parser = p0\<rparr>"

definition process_byte ::
  "('p \<Rightarrow> byte \<Rightarrow> 'p \<times> action list) \<Rightarrow> (rchar \<Rightarrow> nat option) \<Rightarrow> byte \<Rightarrow> 'p emulator \<Rightarrow> 'p emulator option" where
  "process_byte advance cwidth b e =
     (let (p, as) = advance (parser e) b in
      do { s \<leftarrow> foldm (perform cwidth) as (scr e); Some (e\<lparr>scr := s, parser := p\<rparr>) })"

definition process ::
  "('p \<Rightarrow> byte \<Rightarrow> 'p \<times> action list) \<Rightarrow> (rchar \<Rightarrow> nat option) \<Rightarrow> bytes \<Rightarrow> 'p emulator \<Rightarrow> 'p emulator option" where
  "process advance cwidth bs e = foldm (process_byte advance cwidth) bs e"

subsection \<open>Queues\<close>

definition take_responses :: "screen_t \<Rightarrow> bytes list \<times> screen_t" where
  "take_responses s = (pending_responses (state s), on_state (\<lambda>st. st\<lparr>pending_responses := []\<rparr>) s)"

definition take_passthrough :: "screen_t \<Rightarrow> bytes list \<times> screen_t" where
  "take_passthrough s = (pending_passthrough (state s), on_state (\<lambda>st. st\<lparr>pending_passthrough := []\<rparr>) s)"

definition take_queued_notifications :: "screen_t \<Rightarrow> bytes list \<times> screen_t" where
  "take_queued_notifications s =
     (queued_notifications (state s), on_state (\<lambda>st. st\<lparr>queued_notifications := []\<rparr>) s)"

definition take_pending_scrollback :: "screen_t \<Rightarrow> bytes list \<times> screen_t" where
  "take_pending_scrollback s =
     (let start = pending_start (grid s);
          count = pending_scrollback_count (grid s);
          s = on_grid (\<lambda>g. set_pending_start (scrollback_len g) g) s
      in (map (render_line (style_table (grid s))) (take count (drop start (scrollback_rows (grid s)))), s))"

definition get_history :: "screen_t \<Rightarrow> bytes list" where
  "get_history s = map (render_line (style_table (grid s))) (scrollback_rows (grid s))"

subsection \<open>Rendering\<close>

definition screen_render :: "(row \<Rightarrow> 64 word) \<Rightarrow> bool \<Rightarrow> render_cache \<Rightarrow> screen_t \<Rightarrow> (bytes \<times> render_cache) option" where
  "screen_render H full c s = render_screen H (grid s) (title (state s)) full c"

definition render_with_scrollback ::
  "(row \<Rightarrow> 64 word) \<Rightarrow> bytes list \<Rightarrow> render_cache \<Rightarrow> screen_t \<Rightarrow> (bytes \<times> render_cache) option" where
  "render_with_scrollback H sb c s = render_screen_with_scrollback H (grid s) (title (state s)) sb c"

definition take_and_render ::
  "(row \<Rightarrow> 64 word) \<Rightarrow> render_cache \<Rightarrow> screen_t \<Rightarrow> ((bytes \<times> bytes list) \<times> render_cache \<times> screen_t) option" where
  "take_and_render H c s0 =
     (let (scrollback_lines, s1) = take_pending_scrollback s0;
          (passthrough, s2) = take_passthrough s1;
          (notes, s3) = take_queued_notifications s2
      in do { (render_data, c) \<leftarrow>
                (if scrollback_lines \<noteq> [] then render_with_scrollback H scrollback_lines c s3
                 else screen_render H False c s3);
              Some ((render_data, passthrough @ notes), c, s3) })"

subsection \<open>Resizing\<close>

definition screen_resize :: "nat \<Rightarrow> nat \<Rightarrow> screen_t \<Rightarrow> screen_t option" where
  "screen_resize c r s =
     do { let old_rows = rows (grid s);
          s \<leftarrow> (if \<not> in_alt_screen (state s) \<and> r > old_rows then
                 do { let grow = r - old_rows;
                      let restore_count = min grow (scrollback_len (grid s));
                      s \<leftarrow> try_grid (restore_scrollback restore_count) s;
                      Some (on_grid (\<lambda>g. set_cursor_y_unclamped
                        (sat_add16 (cursor_y g) (if restore_count \<le> u16_max then restore_count else u16_max)) g) s) }
               else Some s);
          try_grid (grid_resize c r) s }"

subsection \<open>Accessors\<close>

definition cursor_position :: "screen_t \<Rightarrow> nat \<times> nat" where
  "cursor_position s = cursor_pos (grid s)"

definition resolve_style :: "nat \<Rightarrow> screen_t \<Rightarrow> style" where
  "resolve_style i s = style_get (style_table (grid s)) i"

subsection \<open>Processing never panics\<close>

lemma screen_new_wf:
  assumes "c \<le> u16_max" "r \<le> u16_max"
  shows "wf_screen (screen_new c r limit)"
proof -
  have t: "style_table (grid_new c r limit) = style_table_new" by (simp add: grid_new_def Let_def)
  have "grid_ok (live_cell style_table_new) (grid_new c r limit)"
    using assms by (intro grid_new_ok) (simp_all add: wf_style_table_new)
  then show ?thesis
    by (simp add: screen_new_def wf_screen_def Let_def t wf_style_table_new alt_ok_def queues_ok_def
        screen_state_default_def) (simp add: grid_new_def Let_def)
qed

text \<open>The calls the parser makes for a sequence of bytes.\<close>

fun actions_of :: "('p \<Rightarrow> byte \<Rightarrow> 'p \<times> action list) \<Rightarrow> bytes \<Rightarrow> 'p \<Rightarrow> action list" where
  "actions_of advance [] p = []"
| "actions_of advance (b # bs) p = snd (advance p b) @ actions_of advance bs (fst (advance p b))"

lemma process_actions:
  "map_option scr (process advance cwidth bs e) = foldm (perform cwidth) (actions_of advance bs (parser e)) (scr e)"
proof (induction bs arbitrary: e)
  case (Cons b bs)
  obtain p as where adv: "advance (parser e) b = (p, as)" by fastforce
  show ?case
    using Cons.IH
    by (cases "foldm (perform cwidth) as (scr e)")
      (simp_all add: process_def process_byte_def adv foldm_append)
qed (simp add: process_def)

lemma foldm_perform_bad: "list_ex bad_title as \<Longrightarrow> foldm (perform cwidth) as s = None"
proof (induction as arbitrary: s)
  case (Cons a as)
  then show ?case by (cases "perform cwidth a s") (auto simp: perform_bad)
qed simp

text \<open>The panics that remain: a title that cannot be cut, or a character too wide for the screen.\<close>

definition may_panic :: "(rchar \<Rightarrow> nat option) \<Rightarrow> action list \<Rightarrow> nat \<Rightarrow> bool" where
  "may_panic cwidth as wd \<longleftrightarrow> list_ex bad_title as \<or> list_ex prints as \<and> too_wide cwidth wd"

lemma foldm_perform_safe:
  assumes s: "wf_screen s" and cw: "width_ok cwidth"
  shows "returns_or (may_panic cwidth as (cols (grid s))) (foldm (perform cwidth) as s)
    (\<lambda>s'. wf_screen s' \<and> cols (grid s') = cols (grid s))"
proof (cases "list_ex bad_title as")
  case True
  then show ?thesis by (simp add: foldm_perform_bad may_panic_def)
next
  case False
  have "returns_or (may_panic cwidth as (cols (grid s))) (perform cwidth a s') (wf_at (cols (grid s)))"
    if "a \<in> set as" "wf_at (cols (grid s)) s'" for a s'
    using that False by (intro returns_or_mono[OF perform_at[OF that(2) cw]]) (auto simp: list_ex_iff may_panic_def)
  from foldm_or[where I = "wf_at (cols (grid s))", OF wf_at_self[OF s] this] show ?thesis
    by (rule returns_or_mono) (auto simp: wf_at_def)
qed

lemma process_safe:
  assumes "wf_screen (scr e)" "width_ok cwidth"
  shows "returns_or (may_panic cwidth (actions_of advance bs (parser e)) (cols (grid (scr e))))
    (process advance cwidth bs e) (\<lambda>e'. wf_screen (scr e') \<and> cols (grid (scr e')) = cols (grid (scr e)))"
  using foldm_perform_safe[OF assms, of "actions_of advance bs (parser e)"]
  unfolding process_actions[of advance cwidth bs e, symmetric]
  by (cases "process advance cwidth bs e") simp_all

lemma process_bad: "list_ex bad_title (actions_of advance bs (parser e)) \<Longrightarrow> process advance cwidth bs e = None"
  using process_actions[of advance cwidth bs e] by (simp add: foldm_perform_bad)

subsection \<open>Queues are drained once\<close>

lemma take_pending_scrollback_eq:
  "take_pending_scrollback s =
     (map (render_line (style_table (grid s)))
        (take (scrollback_len (grid s) - pending_start (grid s)) (drop (pending_start (grid s)) (scrollback_rows (grid s)))),
      s\<lparr>grid := (grid s)\<lparr>pending_start := scrollback_len (grid s)\<rparr>\<rparr>)"
  by (simp add: take_pending_scrollback_def Let_def pending_scrollback_count_def on_grid_def scrollback_rows_def)

definition pending_rows :: "grid_t \<Rightarrow> row list" where
  "pending_rows g = drop (pending_start g) (scrollback_rows g)"

lemma take_pending_rows:
  assumes "grid_ok P (grid s)"
  shows "fst (take_pending_scrollback s) = map (render_line (style_table (grid s))) (pending_rows (grid s))"
proof -
  have "length (pending_rows (grid s)) \<le> scrollback_len (grid s) - pending_start (grid s)"
    by (simp add: pending_rows_def scrollback_rows_def)
  then show ?thesis by (simp add: take_pending_scrollback_eq pending_rows_def)
qed

lemma take_pending_safe: "wf_screen s \<Longrightarrow> wf_screen (snd (take_pending_scrollback s))"
  by (simp add: take_pending_scrollback_eq wf_screen_def Let_def grid_ok_def alt_ok_def split: option.splits)

lemma take_queue_safe:
  assumes "wf_screen s"
  shows "wf_screen (snd (take_responses s))" "wf_screen (snd (take_passthrough s))"
    "wf_screen (snd (take_queued_notifications s))"
  using assms wf_screenD(4)[OF assms]
  by (auto simp: take_responses_def take_passthrough_def take_queued_notifications_def queues_ok_def
      intro!: on_state_wf)

text \<open>A line scrolled off the main screen becomes pending; the limit drops the oldest.\<close>

text \<open>Scrolling the main screen moves the top row to the end of the history and keeps the newest rows.\<close>

lemma scroll_up_history:
  assumes g: "grid_ok P g" and main: "\<not> in_alt" "scroll_top g = 0" "0 < scrollback_limit g"
    and len: "scrollback_len g \<le> scrollback_limit g"
  shows "scrollback_rows (scroll_up_spec in_alt fill g) =
      drop (Suc (scrollback_len g) - scrollback_limit g) (scrollback_rows g @ [hd (visible_rows g)])"
    "visible_rows (scroll_up_spec in_alt fill g) = region_up 0 (scroll_bottom g) (new_blank_row fill g) (visible_rows g)"
    "scrollback_len (scroll_up_spec in_alt fill g) \<le> scrollback_limit g"
proof -
  obtain h v vs where split: "cells g = h @ v # vs" "scrollback_len g = length h" "rows g = Suc (length vs)"
    using grid_split[OF g] .
  have "scroll_bottom g < rows g" using g by (simp add: grid_ok_def)
  then have "length (region_up 0 (scroll_bottom g) (new_blank_row fill g) (v # vs)) = Suc (length vs)"
    using split(3) by simp
  moreover have "Suc (length h) - scrollback_limit g = (if scrollback_limit g \<le> length h then 1 else 0)"
    using len split(2) by auto
  ultimately show "scrollback_rows (scroll_up_spec in_alt fill g) =
      drop (Suc (scrollback_len g) - scrollback_limit g) (scrollback_rows g @ [hd (visible_rows g)])"
    "visible_rows (scroll_up_spec in_alt fill g) = region_up 0 (scroll_bottom g) (new_blank_row fill g) (visible_rows g)"
    "scrollback_len (scroll_up_spec in_alt fill g) \<le> scrollback_limit g"
    using main len split by (cases h; auto simp: scroll_up_spec_def Let_def scrollback_rows_def visible_rows_def)+
qed

lemma scroll_up_pending:
  assumes g: "grid_ok P g" and main: "\<not> in_alt" "scroll_top g = 0" "0 < scrollback_limit g"
    and len: "scrollback_len g \<le> scrollback_limit g"
  shows "pending_rows (scroll_up_spec in_alt fill g) =
    (if scrollback_len g = scrollback_limit g \<and> pending_start g = 0 then tl (pending_rows g @ [hd (visible_rows g)])
     else pending_rows g @ [hd (visible_rows g)])"
proof -
  obtain h v vs where split: "cells g = h @ v # vs" "scrollback_len g = length h" "rows g = Suc (length vs)"
    using grid_split[OF g] .
  have p: "pending_start g \<le> length h" using grid_okD(6)[OF g] split by simp
  note defs = scroll_up_spec_def Let_def pending_rows_def scrollback_rows_def visible_rows_def
  show ?thesis
  proof (cases "scrollback_limit g = length h")
    case True
    then show ?thesis
      using main split p by (cases h; cases "pending_start g") (simp_all add: defs)
  next
    case False
    then show ?thesis using main len split p by (auto simp: defs)
  qed
qed

definition taken :: "screen_t \<Rightarrow> screen_t" where
  "taken s = s\<lparr>grid := (grid s)\<lparr>pending_start := scrollback_len (grid s)\<rparr>,
     state := (state s)\<lparr>pending_passthrough := [], queued_notifications := []\<rparr>\<rparr>"

lemma taken_safe: "wf_screen s \<Longrightarrow> wf_screen (taken s)"
proof -
  assume s: "wf_screen s"
  have "taken s = snd (take_queued_notifications (snd (take_passthrough (snd (take_pending_scrollback s)))))"
    by (simp add: taken_def take_pending_scrollback_eq take_passthrough_def take_queued_notifications_def on_state_def)
  then show ?thesis using s by (simp add: take_pending_safe take_queue_safe)
qed

lemma take_and_render_eq:
  assumes s: "wf_screen s"
  shows "returns (take_and_render H c s) (\<lambda>((out, pass), c', s').
    s' = taken s \<and> pass = pending_passthrough (state s) @ queued_notifications (state s)
    \<and> cache_synced H (grid (taken s)) (title (state s)) c'
    \<and> Some (out, c') = render_screen_impl H (grid (taken s)) (title (state s))
        (map (render_line (style_table (grid s))) (pending_rows (grid s))) (pending_rows (grid s) \<noteq> []) c)"
proof -
  let ?lines = "map (render_line (style_table (grid s))) (pending_rows (grid s))"
  have lines: "take_pending_scrollback s = (?lines, s\<lparr>grid := (grid s)\<lparr>pending_start := scrollback_len (grid s)\<rparr>\<rparr>)"
    using take_pending_rows[OF wf_screenD(2)[OF s]] take_pending_scrollback_eq[of s] by (cases "take_pending_scrollback s") simp
  have "take_and_render H c s = render_screen_impl H (grid (taken s)) (title (state s)) ?lines (?lines \<noteq> []) c
      \<bind> (\<lambda>(out, c). Some ((out, pending_passthrough (state s) @ queued_notifications (state s)), c, taken s))"
    by (auto simp: take_and_render_def lines take_passthrough_def take_queued_notifications_def on_state_def taken_def
        render_with_scrollback_def screen_render_def render_screen_def render_screen_with_scrollback_def Let_def)
  then show ?thesis
    using render_screen_impl_returns[OF wf_screenD(2)[OF taken_safe[OF s]], of H "title (state s)" ?lines "?lines \<noteq> []" c]
    by (auto simp: returns_def)
qed

subsection \<open>Resizing keeps the history\<close>

text \<open>The number of history rows that return to the screen when it grows.\<close>

definition restore_rows :: "nat \<Rightarrow> screen_t \<Rightarrow> nat" where
  "restore_rows r s =
     (if \<not> in_alt_screen (state s) \<and> rows (grid s) < r then min (r - rows (grid s)) (scrollback_len (grid s)) else 0)"

definition grow_grid :: "nat \<Rightarrow> grid_t \<Rightarrow> grid_t" where
  "grow_grid k g = g\<lparr>scrollback_len := scrollback_len g - k, pending_start := min (pending_start g) (scrollback_len g - k),
     cursor_y := (if k = 0 then cursor_y g else sat_add16 (cursor_y g) (min k u16_max))\<rparr>"

lemma grow_grid_buffer:
  assumes "grid_ok P g"
  shows "buffer_ok P (grow_grid k g)"
  using grid_ok_buffer[OF assms] by (auto simp: buffer_ok_def grow_grid_def)

lemma screen_resize_eq:
  assumes s: "wf_screen s" and r: "r \<le> u16_max"
  shows "screen_resize c r s = Some (s\<lparr>grid := grid_resize_spec c r (grow_grid (restore_rows r s) (grid s))\<rparr>)"
proof -
  let ?k = "restore_rows r s"
  note g = wf_screenD(2)[OF s]
  note fits = grid_resize_eq[OF grow_grid_buffer[OF g, of ?k], of c r]
  have k: "?k \<le> scrollback_len (grid s)" by (auto simp: restore_rows_def)
  have zero: "grow_grid 0 (grid s) = grid s"
    using grid_okD(6)[OF g] by (simp add: grow_grid_def)
  show ?thesis
  proof (cases "\<not> in_alt_screen (state s) \<and> rows (grid s) < r")
    case True
    have y: "sat_add16 (cursor_y (grid s)) 0 = cursor_y (grid s)"
      using grid_okD(4,8)[OF g] by (simp add: sat_add16_def)
    have kdef: "min (r - rows (grid s)) (scrollback_len (grid s)) = ?k" "?k \<le> u16_max"
      using True r by (auto simp: restore_rows_def)
    have grown: "(grid s)\<lparr>scrollback_len := scrollback_len (grid s) - ?k,
        pending_start := min (pending_start (grid s)) (scrollback_len (grid s) - ?k),
        cursor_y := sat_add16 (cursor_y (grid s)) ?k\<rparr> = grow_grid ?k (grid s)"
      using kdef(2) y by (auto simp: grow_grid_def min_def)
    show ?thesis
      unfolding screen_resize_def Let_def if_P[OF True] kdef(1)
      using k kdef(2) fits grown by (simp add: try_grid_def restore_scrollback_def on_grid_def)
  next
    case False
    then have "?k = 0" by (auto simp: restore_rows_def)
    then show ?thesis
      unfolding screen_resize_def Let_def if_not_P[OF False]
      using fits zero by (simp add: try_grid_def)
  qed
qed

lemma screen_resize_safe:
  assumes s: "wf_screen s" and c: "c \<le> u16_max" and r: "r \<le> u16_max"
  shows "returns (screen_resize c r s) wf_screen"
proof -
  let ?g = "grid_resize_spec c r (grow_grid (restore_rows r s) (grid s))"
  note g = wf_screenD(2)[OF s]
  have "grid_ok (live_cell (style_table (grid s))) ?g"
    using c r by (intro grid_resize_ok grow_grid_buffer[OF g] live_default_grid[OF wf_at_self[OF s]])
  moreover have "style_table ?g = style_table (grid s)" "scrollback_limit ?g = scrollback_limit (grid s)"
    "scrollback_len ?g \<le> scrollback_len (grid s)"
    by (simp_all add: grid_resize_spec_def grow_grid_def Let_def)
  moreover from this have "alt_ok (live_cell (style_table (grid s))) ?g (state s)"
    by (intro alt_ok_frame[OF wf_screenD(3)[OF s]])
  ultimately show ?thesis
    using s by (simp add: screen_resize_eq[OF s r] wf_screen_def Let_def)
qed

text \<open>
  The rows of a resized screen: the history gives up its newest \<open>k\<close> rows, which come back above the
  old visible rows; every visible row is then cut or filled to the new width.
\<close>

lemma screen_resize_rows:
  assumes s: "wf_screen s" and c: "c \<le> u16_max" and r: "r \<le> u16_max"
  shows "returns (screen_resize c r s) (\<lambda>s'.
    scrollback_rows (grid s') = take (scrollback_len (grid s) - restore_rows r s) (scrollback_rows (grid s))
    \<and> visible_rows (grid s') = fit_rows (max c 1) (max r 1)
        (drop (scrollback_len (grid s) - restore_rows r s) (scrollback_rows (grid s)) @ visible_rows (grid s)))"
proof -
  let ?n = "scrollback_len (grid s) - restore_rows r s"
  note g = wf_screenD(2)[OF s]
  have len: "length (cells (grid s)) = scrollback_len (grid s) + rows (grid s)" by (rule grid_okD(5)[OF g])
  have fl: "length (fit_rows (max c 1) (max r 1) v) = max r 1" for v by (simp add: fit_rows_def)
  have d: "drop ?n (scrollback_rows (grid s)) @ visible_rows (grid s) = drop ?n (cells (grid s))"
  proof -
    have "drop ?n (scrollback_rows (grid s)) @ visible_rows (grid s) = drop ?n (scrollback_rows (grid s) @ visible_rows (grid s))"
      using len by (simp add: scrollback_rows_def)
    then show ?thesis by (simp add: grid_rows_split[OF g])
  qed
  show ?thesis
    unfolding screen_resize_eq[OF s r] returns_Some d
    using len fl
    by (auto simp: grid_resize_spec_def grow_grid_def Let_def scrollback_rows_def visible_rows_def min_def)
qed

end
