(* ===== verification/Protocol.thy ===== *)
theory Protocol
  imports Prelude Utf8
begin

text \<open>
  \<open>src/src/protocol/messages.rs\<close> and \<open>src/src/protocol/codec.rs\<close>: the messages between client and
  server, length-prefixed framing, and the buffered \<open>FrameReader\<close>.

  Serialization of a message is \<open>bincode\<close>'s and is a pair of parameters \<open>ser\<close> and \<open>de\<close>; what the code
  relies on is \<open>codec_ok\<close>. A read from the socket is a value: an I/O error, or the bytes received
  (none at the end of the stream). The scratch buffer \<open>tmp_buf\<close> only carries those bytes and is not
  part of the state. Slicing beyond the end panics (\<open>None\<close>).

  Shown here: the stream of frames is decoded to the messages that were encoded, however the bytes
  are cut into reads, and the guard against buffer growth never rejects a stream.
\<close>

subsection \<open>Messages\<close>

datatype connect_mode = CreateOrAttach | CreateOnly | AttachOnly

datatype client_msg =
    Input bytes
  | Resize nat nat
  | Detach
  | ListSessions
  | Connect bytes nat nat nat connect_mode
  | KillSession bytes
  | RefreshScreen

record session_info =
  si_name :: bytes
  si_pid :: nat
  si_cols :: nat
  si_rows :: nat

datatype server_msg =
    ScreenUpdate bytes
  | History "bytes list"
  | SessionList "session_info list"
  | SessionEnded
  | Error bytes
  | Connected bytes bool
  | SessionKilled bytes
  | Passthrough bytes

datatype protocol_error =
    FrameTooLarge nat nat
  | EncodeTooLarge nat
  | Deserialize bytes
  | Io bytes

subsection \<open>Frames\<close>

abbreviation MAX_FRAME_SIZE :: nat where "MAX_FRAME_SIZE \<equiv> 16777216"
abbreviation READ_BUF_SIZE :: nat where "READ_BUF_SIZE \<equiv> 65536"

definition to_be_bytes :: "nat \<Rightarrow> bytes" where
  "to_be_bytes n = [byte_of (n div 16777216 mod 256), byte_of (n div 65536 mod 256),
                    byte_of (n div 256 mod 256), byte_of (n mod 256)]"

definition from_be_bytes :: "byte \<Rightarrow> byte \<Rightarrow> byte \<Rightarrow> byte \<Rightarrow> nat" where
  "from_be_bytes a b c d = bval a * 16777216 + bval b * 65536 + bval c * 256 + bval d"

type_synonym 'm serializer = "'m \<Rightarrow> bytes + bytes"
type_synonym 'm deserializer = "bytes \<Rightarrow> bytes + 'm"

definition encode :: "'m serializer \<Rightarrow> 'm \<Rightarrow> protocol_error + bytes" where
  "encode ser msg =
     (case ser msg of
        Inl e \<Rightarrow> Inl (Deserialize e)
      | Inr data \<Rightarrow>
          if length data < 4294967296 then Inr (to_be_bytes (length data) @ data)
          else Inl (EncodeTooLarge (length data)))"

definition decode :: "'m deserializer \<Rightarrow> bytes \<Rightarrow> protocol_error + 'm" where
  "decode de data = (case de data of Inl e \<Rightarrow> Inl (Deserialize e) | Inr m \<Rightarrow> Inr m)"

definition decode_frame :: "bytes \<Rightarrow> protocol_error + (bytes \<times> nat) option" where
  "decode_frame buf =
     (if length buf < 4 then Inr None
      else
        (let len = from_be_bytes (buf ! 0) (buf ! 1) (buf ! 2) (buf ! 3) in
         if len > MAX_FRAME_SIZE then Inl (FrameTooLarge len MAX_FRAME_SIZE)
         else if length buf < 4 + len then Inr None
         else Inr (Some (take len (drop 4 buf), 4 + len))))"

subsection \<open>The buffered reader\<close>

record frame_reader =
  read_buf :: bytes
  offset :: nat

definition frame_reader_new :: frame_reader where
  "frame_reader_new = \<lparr>read_buf = [], offset = 0\<rparr>"

definition with_leftover :: "bytes \<Rightarrow> frame_reader" where
  "with_leftover leftover = \<lparr>read_buf = leftover, offset = 0\<rparr>"

text \<open>A read: an error, or the bytes received; an empty read is the end of the stream.\<close>

type_synonym read_result = "bytes + bytes"

definition slice_from :: "nat \<Rightarrow> bytes \<Rightarrow> bytes option" where
  "slice_from i xs = (if i \<le> length xs then Some (drop i xs) else None)"

definition fill_from :: "read_result \<Rightarrow> frame_reader \<Rightarrow> ((protocol_error + bool) \<times> frame_reader) option" where
  "fill_from rd fr0 =
     do { fr \<leftarrow> (if offset fr0 > 0
                then do { b \<leftarrow> slice_from (offset fr0) (read_buf fr0); Some (fr0\<lparr>read_buf := b, offset := 0\<rparr>) }
                else Some fr0);
          case rd of
            Inl e \<Rightarrow> Some (Inl (Io e), fr)
          | Inr data \<Rightarrow>
              if data = [] then Some (Inr False, fr)
              else
                (let fr = fr\<lparr>read_buf := read_buf fr @ data\<rparr> in
                 if length (read_buf fr) > MAX_FRAME_SIZE * 2 + 8
                 then Some (Inl (FrameTooLarge (length (read_buf fr)) MAX_FRAME_SIZE), fr)
                 else Some (Inr True, fr)) }"

definition decode_next :: "'m deserializer \<Rightarrow> frame_reader \<Rightarrow> ((protocol_error + 'm option) \<times> frame_reader) option" where
  "decode_next de fr =
     do { buf \<leftarrow> slice_from (offset fr) (read_buf fr);
          Some (case decode_frame buf of
                  Inl e \<Rightarrow> (Inl e, fr)
                | Inr None \<Rightarrow> (Inr None, fr)
                | Inr (Some (data, consumed)) \<Rightarrow>
                    (case decode de data of
                       Inl e \<Rightarrow> (Inl e, fr)
                     | Inr msg \<Rightarrow> (Inr (Some msg), fr\<lparr>offset := offset fr + consumed\<rparr>))) }"

definition into_leftover :: "frame_reader \<Rightarrow> bytes option" where
  "into_leftover fr = slice_from (offset fr) (read_buf fr)"

text \<open>
  \<open>read_one_message\<close>, over the reads the socket will deliver. Running out of reads is waiting
  forever, \<open>Waiting\<close>.
\<close>

datatype 'm outcome = Waiting | Failed protocol_error | Got 'm

fun read_one_loop :: "'m deserializer \<Rightarrow> read_result list \<Rightarrow> frame_reader \<Rightarrow> 'm outcome option" where
  "read_one_loop de [] fr = Some Waiting"
| "read_one_loop de (rd # rds) fr =
     do { (r, fr) \<leftarrow> fill_from rd fr;
          case r of
            Inl e \<Rightarrow> Some (Failed e)
          | Inr False \<Rightarrow> Some (Failed (Io ''connection closed''))
          | Inr True \<Rightarrow>
              do { (m, fr) \<leftarrow> decode_next de fr;
                   case m of
                     Inl e \<Rightarrow> Some (Failed e)
                   | Inr (Some msg) \<Rightarrow> Some (Got msg)
                   | Inr None \<Rightarrow> read_one_loop de rds fr } }"

definition read_one_message :: "'m deserializer \<Rightarrow> read_result list \<Rightarrow> 'm outcome option" where
  "read_one_message de rds = read_one_loop de rds frame_reader_new"

text \<open>
  The loop \<open>while let Some(msg) = frames.decode_next()? { \<dots> }\<close> of client and server, collecting the
  messages. The fuel is the number of bytes still in the buffer, plus one; every frame uses four of
  them or more.
\<close>

fun decode_all :: "nat \<Rightarrow> 'm deserializer \<Rightarrow> frame_reader \<Rightarrow> ((protocol_error + unit) \<times> 'm list \<times> frame_reader) option" where
  "decode_all 0 de fr = None"
| "decode_all (Suc n) de fr =
     do { (m, fr) \<leftarrow> decode_next de fr;
          case m of
            Inl e \<Rightarrow> Some (Inl e, [], fr)
          | Inr None \<Rightarrow> Some (Inr (), [], fr)
          | Inr (Some msg) \<Rightarrow>
              do { (r, ms, fr) \<leftarrow> decode_all n de fr; Some (r, msg # ms, fr) } }"

definition drain :: "'m deserializer \<Rightarrow> frame_reader \<Rightarrow> ((protocol_error + unit) \<times> 'm list \<times> frame_reader) option" where
  "drain de fr = decode_all (Suc (length (read_buf fr))) de fr"

text \<open>Reading a whole connection: fill, then drain, for every read.\<close>

fun pump :: "'m deserializer \<Rightarrow> read_result list \<Rightarrow> frame_reader \<Rightarrow> ((protocol_error + unit) \<times> 'm list \<times> frame_reader) option" where
  "pump de [] fr = Some (Inr (), [], fr)"
| "pump de (rd # rds) fr =
     do { (r, fr) \<leftarrow> fill_from rd fr;
          case r of
            Inl e \<Rightarrow> Some (Inl e, [], fr)
          | Inr False \<Rightarrow> Some (Inr (), [], fr)
          | Inr True \<Rightarrow>
              do { (r, ms, fr) \<leftarrow> drain de fr;
                   case r of
                     Inl e \<Rightarrow> Some (Inl e, ms, fr)
                   | Inr _ \<Rightarrow> do { (r, ms', fr) \<leftarrow> pump de rds fr; Some (r, ms @ ms', fr) } } }"

subsection \<open>Frames are read back\<close>

text \<open>What the code relies on: \<open>bincode\<close> reads back what it wrote and respects the configured limit.\<close>

definition codec_ok :: "'m serializer \<Rightarrow> 'm deserializer \<Rightarrow> bool" where
  "codec_ok ser de \<longleftrightarrow> (\<forall>m d. ser m = Inr d \<longrightarrow> de d = Inr m \<and> length d \<le> MAX_FRAME_SIZE)"

definition encodable :: "'m serializer \<Rightarrow> 'm \<Rightarrow> bool" where
  "encodable ser m \<longleftrightarrow> (\<exists>d. ser m = Inr d)"

definition frame_of :: "'m serializer \<Rightarrow> 'm \<Rightarrow> bytes" where
  "frame_of ser m = (case encode ser m of Inr b \<Rightarrow> b | Inl e \<Rightarrow> [])"

definition wire :: "'m serializer \<Rightarrow> 'm list \<Rightarrow> bytes" where
  "wire ser ms = concat (map (frame_of ser) ms)"

lemma from_to_be_bytes:
  assumes "n < 4294967296"
  shows "from_be_bytes (to_be_bytes n ! 0) (to_be_bytes n ! 1) (to_be_bytes n ! 2) (to_be_bytes n ! 3) = n"
proof -
  have b: "k mod 256 < 256" for k :: nat by simp
  have top: "n div 16777216 < 256" using assms by (simp add: div_less_iff_less_mult)
  then have hi: "n div 16777216 mod 256 = n div 16777216" by simp
  have "n = n div 16777216 * 16777216 + n div 65536 mod 256 * 65536 + n div 256 mod 256 * 256 + n mod 256"
  proof -
    have "n div 256 div 256 = n div 65536" "n div 65536 div 256 = n div 16777216"
      by (simp_all add: div_mult2_eq[symmetric])
    with div_mult_mod_eq[of n 256] div_mult_mod_eq[of "n div 256" 256] div_mult_mod_eq[of "n div 65536" 256]
    show ?thesis by linarith
  qed
  then show ?thesis
    using top by (simp add: from_be_bytes_def to_be_bytes_def b hi numeral_2_eq_2 numeral_3_eq_3)
qed

lemma length_to_be_bytes [simp]: "length (to_be_bytes n) = 4"
  by (simp add: to_be_bytes_def)

lemma frame_of_ser: "codec_ok ser de \<Longrightarrow> ser m = Inr d \<Longrightarrow> frame_of ser m = to_be_bytes (length d) @ d"
  by (fastforce simp: frame_of_def encode_def codec_ok_def)

lemma decode_frame_header:
  assumes "n < 4294967296"
  shows "decode_frame (to_be_bytes n @ bs) =
    (if n > MAX_FRAME_SIZE then Inl (FrameTooLarge n MAX_FRAME_SIZE)
     else if length bs < n then Inr None else Inr (Some (take n bs, 4 + n)))"
  using from_to_be_bytes[OF assms] by (simp add: decode_frame_def Let_def nth_append)

lemma decode_frame_frame:
  assumes "codec_ok ser de" "ser m = Inr d"
  shows "decode_frame (frame_of ser m @ rest) = Inr (Some (d, length (frame_of ser m)))"
proof -
  have "length d \<le> MAX_FRAME_SIZE" using assms by (simp add: codec_ok_def)
  then show ?thesis by (simp add: frame_of_ser[OF assms] decode_frame_header)
qed

lemma decode_frame_partial:
  assumes c: "codec_ok ser de" "ser m = Inr d" and q: "q @ r = frame_of ser m" "r \<noteq> []"
  shows "decode_frame q = Inr None"
proof (cases "length q < 4")
  case False
  have f: "q @ r = to_be_bytes (length d) @ d" using q(1) frame_of_ser[OF c] by simp
  then have "take 4 q = to_be_bytes (length d)"
    using False by (metis length_to_be_bytes not_less take_append append_eq_conv_conj take_all_iff
        take_eq_Nil diff_is_0_eq append_Nil2)
  then have q4: "q = to_be_bytes (length d) @ drop 4 q" by (metis append_take_drop_id)
  have "length (drop 4 q) < length d"
    using arg_cong[OF f, of length] False q(2) by (cases r) auto
  moreover have "length d \<le> MAX_FRAME_SIZE" using c by (simp add: codec_ok_def)
  ultimately show ?thesis by (subst q4) (simp add: decode_frame_header)
qed (simp add: decode_frame_def)

text \<open>Any prefix of a stream is some whole frames and the beginning of the next.\<close>

lemma wire_prefix:
  assumes c: "codec_ok ser de" and "list_all (encodable ser) ms" and "q @ r = wire ser ms"
  shows "\<exists>ms1 ms2 p. ms = ms1 @ ms2 \<and> q = wire ser ms1 @ p \<and> p @ r = wire ser ms2 \<and> decode_frame p = Inr None"
  using assms(2,3)
proof (induction ms arbitrary: q)
  case Nil
  then show ?case by (auto simp: wire_def decode_frame_def)
next
  case (Cons m ms)
  obtain d where d: "ser m = Inr d" using Cons.prems(1) by (auto simp: encodable_def)
  have eq: "q @ r = frame_of ser m @ wire ser ms" using Cons.prems(2) by (simp add: wire_def)
  then consider us where "q @ us = frame_of ser m" "us \<noteq> []" | us where "q = frame_of ser m @ us" "us @ r = wire ser ms"
    by (auto simp: append_eq_append_conv2) force
  then show ?case
  proof cases
    case 1
    have "decode_frame q = Inr None" by (rule decode_frame_partial[OF c d 1])
    then show ?thesis
      using eq by (intro exI[of _ "[]"] exI[of _ "m # ms"] exI[of _ q]) (simp add: wire_def)
  next
    case (2 us)
    then obtain ms1 ms2 p where "ms = ms1 @ ms2" "us = wire ser ms1 @ p" "p @ r = wire ser ms2" "decode_frame p = Inr None"
      using Cons.IH[of us] Cons.prems(1) by auto
    then show ?thesis
      using 2 by (intro exI[of _ "m # ms1"] exI[of _ ms2] exI[of _ p]) (simp add: wire_def)
  qed
qed

subsection \<open>The reader\<close>

definition fr_ok :: "frame_reader \<Rightarrow> bool" where
  "fr_ok fr \<longleftrightarrow> offset fr \<le> length (read_buf fr)"

definition unread :: "frame_reader \<Rightarrow> bytes" where
  "unread fr = drop (offset fr) (read_buf fr)"

definition idle :: "frame_reader \<Rightarrow> bool" where
  "idle fr \<longleftrightarrow> fr_ok fr \<and> decode_frame (unread fr) = Inr None"

lemma decode_frame_None_bound: "decode_frame p = Inr None \<Longrightarrow> length p < 4 + MAX_FRAME_SIZE"
  by (auto simp: decode_frame_def Let_def split: if_splits)

lemma decode_frame_consumed:
  "decode_frame p = Inr (Some (d, n)) \<Longrightarrow> 4 \<le> n \<and> n \<le> length p"
  by (auto simp: decode_frame_def Let_def split: if_splits)

lemma slice_unread: "fr_ok fr \<Longrightarrow> slice_from (offset fr) (read_buf fr) = Some (unread fr)"
  by (simp add: slice_from_def fr_ok_def unread_def)

lemma fill_from_idle:
  assumes "idle fr" "length data \<le> READ_BUF_SIZE"
  shows "fill_from (Inr data) fr = Some (Inr (data \<noteq> []), \<lparr>read_buf = unread fr @ data, offset = 0\<rparr>)"
proof -
  have "length (unread fr) < 4 + MAX_FRAME_SIZE"
    using assms(1) decode_frame_None_bound[of "unread fr"] by (simp add: idle_def)
  then show ?thesis
    using assms by (cases fr) (auto simp: fill_from_def slice_from_def unread_def idle_def fr_ok_def Let_def)
qed

lemma decode_next_frame:
  assumes c: "codec_ok ser de" "ser m = Inr d" and fr: "fr_ok fr" "unread fr = frame_of ser m @ rest"
  shows "decode_next de fr = Some (Inr (Some m), fr\<lparr>offset := offset fr + length (frame_of ser m)\<rparr>)"
  using c fr decode_frame_frame[OF c, of rest]
  by (simp add: decode_next_def slice_unread decode_def codec_ok_def)

lemma decode_all_wire:
  assumes c: "codec_ok ser de"
  shows "list_all (encodable ser) ms \<Longrightarrow> fr_ok fr \<Longrightarrow> unread fr = wire ser ms @ p \<Longrightarrow>
    decode_frame p = Inr None \<Longrightarrow> length ms < n \<Longrightarrow>
    returns (decode_all n de fr) (\<lambda>(r, ms', fr'). r = Inr () \<and> ms' = ms \<and> fr_ok fr' \<and> unread fr' = p)"
proof (induction ms arbitrary: fr n)
  case Nil
  then show ?case by (cases n) (auto simp: decode_next_def slice_unread wire_def)
next
  case (Cons m ms)
  obtain d where d: "ser m = Inr d" using Cons.prems(1) by (auto simp: encodable_def)
  let ?fr = "fr\<lparr>offset := offset fr + length (frame_of ser m)\<rparr>"
  have u: "unread fr = frame_of ser m @ wire ser ms @ p" using Cons.prems(3) by (simp add: wire_def)
  have len: "offset fr + length (frame_of ser m) \<le> length (read_buf fr)"
    using arg_cong[OF u, of length] Cons.prems(2) by (simp add: unread_def fr_ok_def)
  have "unread ?fr = drop (length (frame_of ser m)) (unread fr)"
    by (simp add: unread_def add.commute)
  then have u': "unread ?fr = wire ser ms @ p" by (simp add: u)
  obtain k where n: "n = Suc k" "length ms < k" using Cons.prems(5) by (cases n) auto
  have "returns (decode_all k de ?fr) (\<lambda>(r, ms', fr'). r = Inr () \<and> ms' = ms \<and> fr_ok fr' \<and> unread fr' = p)"
    by (rule Cons.IH) (use Cons.prems n len u' in \<open>auto simp: fr_ok_def\<close>)
  then show ?case
    using decode_next_frame[OF c d Cons.prems(2) u] by (auto simp: n elim!: returns_mono)
qed

lemma wire_length:
  assumes "codec_ok ser de" "list_all (encodable ser) ms"
  shows "length ms \<le> length (wire ser ms)"
  using assms(2)
proof (induction ms)
  case (Cons m ms)
  obtain d where "ser m = Inr d" using Cons.prems by (auto simp: encodable_def)
  then have "4 \<le> length (frame_of ser m)" by (simp add: frame_of_ser[OF assms(1)])
  then show ?case using Cons by (simp add: wire_def)
qed (simp add: wire_def)

lemma pump_wire:
  assumes c: "codec_ok ser de"
  shows "list_all (encodable ser) ms \<Longrightarrow> idle fr \<Longrightarrow> unread fr @ concat chunks = wire ser ms \<Longrightarrow>
    list_all (\<lambda>d. d \<noteq> [] \<and> length d \<le> READ_BUF_SIZE) chunks \<Longrightarrow>
    returns (pump de (map Inr chunks) fr) (\<lambda>(r, ms', fr'). r = Inr () \<and> ms' = ms \<and> fr_ok fr' \<and> unread fr' = [])"
proof (induction chunks arbitrary: fr ms)
  case Nil
  obtain ms1 ms2 p where s: "ms = ms1 @ ms2" "unread fr = wire ser ms1 @ p" "p = wire ser ms2" "decode_frame p = Inr None"
    using wire_prefix[OF c Nil.prems(1), of "unread fr" "[]"] Nil.prems(3) by auto
  have "ms = []"
  proof (cases ms)
    case (Cons m ms')
    then obtain d where d: "ser m = Inr d" using Nil.prems(1) by (auto simp: encodable_def)
    have "unread fr = frame_of ser m @ wire ser ms'" using Nil.prems(3) Cons by (simp add: wire_def)
    then show ?thesis using Nil.prems(2) decode_frame_frame[OF c d] by (simp add: idle_def)
  qed simp
  then show ?case using Nil.prems by (simp add: idle_def wire_def)
next
  case (Cons d chunks)
  let ?fr = "\<lparr>read_buf = unread fr @ d, offset = 0\<rparr>"
  have fill: "fill_from (Inr d) fr = Some (Inr True, ?fr)"
    using fill_from_idle[OF Cons.prems(2), of d] Cons.prems(4) by simp
  obtain ms1 ms2 p where s: "ms = ms1 @ ms2" "unread fr @ d = wire ser ms1 @ p"
    "p @ concat chunks = wire ser ms2" "decode_frame p = Inr None"
    using wire_prefix[OF c Cons.prems(1), of "unread fr @ d" "concat chunks"] Cons.prems(3) by auto
  have enc: "list_all (encodable ser) ms1" "list_all (encodable ser) ms2" using Cons.prems(1) s(1) by auto
  have fuel: "length ms1 < Suc (length (read_buf ?fr))"
    using wire_length[OF c enc(1)] arg_cong[OF s(2), of length] by simp
  have "returns (drain de ?fr) (\<lambda>(r, ms', fr'). r = Inr () \<and> ms' = ms1 \<and> fr_ok fr' \<and> unread fr' = p)"
    unfolding drain_def using s(2,4) fuel
    by (intro decode_all_wire[OF c enc(1)]) (auto simp: fr_ok_def unread_def)
  then obtain fr' where dr: "drain de ?fr = Some (Inr (), ms1, fr')" "fr_ok fr'" "unread fr' = p"
    by (auto elim!: returnsE)
  have "returns (pump de (map Inr chunks) fr') (\<lambda>(r, ms', fr'). r = Inr () \<and> ms' = ms2 \<and> fr_ok fr' \<and> unread fr' = [])"
    by (rule Cons.IH[OF enc(2)]) (use dr s Cons.prems(4) in \<open>auto simp: idle_def\<close>)
  then show ?case
    by (simp add: fill dr s(1)) (auto elim!: returns_mono)
qed

text \<open>On any input whatever, reading a connection neither panics nor lets the buffer grow.\<close>

lemma decode_next_cases:
  assumes "fr_ok fr"
  shows "returns (decode_next de fr) (\<lambda>(m, fr'). read_buf fr' = read_buf fr \<and> fr_ok fr'
    \<and> (m = Inr None \<longrightarrow> idle fr' \<and> fr' = fr) \<and> (\<forall>x. m = Inr (Some x) \<longrightarrow> offset fr + 4 \<le> offset fr'))"
proof -
  have "n \<le> length (read_buf fr) - offset fr \<and> 4 \<le> n" if "decode_frame (unread fr) = Inr (Some (d, n))" for d n
    using decode_frame_consumed[OF that] by (simp add: unread_def)
  then show ?thesis
    using assms
    by (fastforce simp: decode_next_def slice_unread decode_def idle_def fr_ok_def split: sum.splits option.splits)
qed

lemma decode_all_total:
  assumes "fr_ok fr" "length (read_buf fr) - offset fr < n"
  shows "returns (decode_all n de fr) (\<lambda>(r, ms, fr'). read_buf fr' = read_buf fr \<and> fr_ok fr' \<and> (r = Inr () \<longrightarrow> idle fr'))"
  using assms
proof (induction n arbitrary: fr)
  case (Suc n)
  obtain m fr1 where m: "decode_next de fr = Some (m, fr1)" "read_buf fr1 = read_buf fr" "fr_ok fr1"
    "m = Inr None \<longrightarrow> idle fr1 \<and> fr1 = fr" "\<forall>x. m = Inr (Some x) \<longrightarrow> offset fr + 4 \<le> offset fr1"
    using decode_next_cases[OF Suc.prems(1), of de] by (auto elim!: returnsE)
  show ?case
  proof (cases "\<exists>x. m = Inr (Some x)")
    case True
    then obtain x where x: "m = Inr (Some x)" by blast
    have "returns (decode_all n de fr1) (\<lambda>(r, ms, fr'). read_buf fr' = read_buf fr1 \<and> fr_ok fr' \<and> (r = Inr () \<longrightarrow> idle fr'))"
      using m x Suc.prems by (intro Suc.IH) (auto simp: fr_ok_def)
    then show ?thesis using m(1,2) x by (auto elim!: returns_mono)
  next
    case False
    then show ?thesis using m by (auto split: sum.split option.split)
  qed
qed simp

definition buffer_bound :: nat where
  "buffer_bound = MAX_FRAME_SIZE + READ_BUF_SIZE + 4"

lemma pump_total:
  assumes "idle fr" "length (read_buf fr) \<le> buffer_bound"
    "list_all (\<lambda>rd. case rd of Inl e \<Rightarrow> True | Inr d \<Rightarrow> length d \<le> READ_BUF_SIZE) rds"
  shows "returns (pump de rds fr) (\<lambda>(r, ms, fr'). fr_ok fr' \<and> length (read_buf fr') \<le> buffer_bound)"
  using assms
proof (induction rds arbitrary: fr)
  case Nil
  then show ?case by (simp add: idle_def)
next
  case (Cons rd rds)
  have small: "length (unread fr) < 4 + MAX_FRAME_SIZE" and ok: "fr_ok fr"
    using Cons.prems(1) decode_frame_None_bound[of "unread fr"] by (simp_all add: idle_def)
  show ?case
  proof (cases rd)
    case (Inl e)
    then show ?thesis
      using ok Cons.prems(2)
      by (cases fr) (auto simp: fill_from_def slice_from_def fr_ok_def buffer_bound_def)
  next
    case (Inr d)
    let ?fr = "\<lparr>read_buf = unread fr @ d, offset = 0\<rparr>"
    have d: "length d \<le> READ_BUF_SIZE" using Cons.prems(3) Inr by simp
    have bound: "length (read_buf ?fr) \<le> buffer_bound" using small d by (simp add: buffer_bound_def)
    have fill: "fill_from rd fr = Some (Inr (d \<noteq> []), ?fr)" using fill_from_idle[OF Cons.prems(1) d] Inr by simp
    obtain r ms fr1 where dr: "drain de ?fr = Some (r, ms, fr1)" "read_buf fr1 = unread fr @ d" "fr_ok fr1"
      "r = Inr () \<longrightarrow> idle fr1"
      using decode_all_total[of ?fr "Suc (length (read_buf ?fr))" de]
      by (auto simp: drain_def fr_ok_def elim!: returnsE)
    have "returns (pump de rds fr1) (\<lambda>(r, ms, fr'). fr_ok fr' \<and> length (read_buf fr') \<le> buffer_bound)" if "r = Inr ()"
      using that dr bound Cons.prems(3) by (intro Cons.IH) auto
    then show ?thesis
      using dr bound by (cases r; cases "d = []") (auto simp: fill fr_ok_def elim!: returns_mono)
  qed
qed

end
