(* ===== verification/Attach.thy ===== *)
theory Attach
  imports Prelude
begin

text \<open>
  The attach protocol of \<open>src/src/session.rs\<close>: \<open>Session::connect\<close>, \<open>Session::disconnect\<close>, the drop
  of a \<open>ClientGuard\<close> and the eviction part of the drop of a \<open>Session\<close>, over the flag \<open>has_client\<close>
  and the eviction channels.

  A \<open>tokio\<close> watch channel is the list of what was done to its sender: \<open>send(false)\<close>, drop. What a
  receiver gets from it is \<open>tokio\<close>'s, two parameters: \<open>borrow\<close> is \<open>*rx.borrow()\<close>, \<open>changed\<close> the outcome
  of \<open>rx.changed()\<close>. The code relies on \<open>watch_ok\<close>. Channels are numbered in the order in which they
  are created, one per client.

  The operations are given twice: as functions, and as the atomic steps of a machine in which the drop
  of a guard, which holds no lock, runs between the steps of a \<open>connect\<close>. Shown here: at most one
  client of a session is not evicted; the flag is never left set without a client; and it is set while
  a client is attached in every run in which no guard is dropped across a \<open>connect\<close>. A run in which
  that happens leaves the flag clear with a client attached.
\<close>

subsection \<open>The operations\<close>

datatype watch_op = SendFalse | DropSender

type_synonym watch = "watch_op list"

record attach_t =
  has_client :: bool
  evict_tx :: "nat option"
  channels :: "watch list"

definition attach_new :: attach_t where
  "attach_new = \<lparr>has_client = False, evict_tx = None, channels = []\<rparr>"

text \<open>\<open>watch::channel(true)\<close>; \<open>tx.send(false)\<close> followed by the drop of \<open>tx\<close>; and the drop alone.\<close>

definition watch_new :: watch where
  "watch_new = []"

definition watch_evict :: "watch \<Rightarrow> watch" where
  "watch_evict w = w @ [SendFalse, DropSender]"

definition watch_close :: "watch \<Rightarrow> watch" where
  "watch_close w = w @ [DropSender]"

text \<open>
  The documented behaviour of the channel, which starts with the value \<open>true\<close>: a receiver reads the last
  value sent; \<open>changed()\<close> is \<open>Ok\<close> (\<open>Some True\<close>) once a value was sent that was not seen, \<open>Err\<close>
  (\<open>Some False\<close>) when the sender is gone, and waits (\<open>None\<close>) otherwise.
\<close>

definition watch_ok :: "(watch \<Rightarrow> bool) \<Rightarrow> (watch \<Rightarrow> bool option) \<Rightarrow> bool" where
  "watch_ok borrow changed \<longleftrightarrow>
     (\<forall>w. borrow w \<longleftrightarrow> SendFalse \<notin> set w)
     \<and> (\<forall>w. changed w = (if SendFalse \<in> set w then Some True else if DropSender \<in> set w then Some False else None))"

definition at_sender :: "(watch \<Rightarrow> watch) \<Rightarrow> attach_t \<Rightarrow> attach_t" where
  "at_sender f a =
     (case evict_tx a of
        None \<Rightarrow> a
      | Some c \<Rightarrow> a\<lparr>evict_tx := None, channels := (channels a)[c := f (channels a ! c)]\<rparr>)"

definition set_flag :: "attach_t \<Rightarrow> attach_t" where
  "set_flag a = a\<lparr>has_client := True\<rparr>"

definition evict_previous :: "attach_t \<Rightarrow> attach_t" where
  "evict_previous a = at_sender watch_evict a"

definition open_channel :: "attach_t \<Rightarrow> attach_t" where
  "open_channel a = a\<lparr>evict_tx := Some (length (channels a)), channels := channels a @ [watch_new]\<rparr>"

definition connect :: "attach_t \<Rightarrow> nat \<times> attach_t" where
  "connect a = (let a = open_channel (evict_previous (set_flag a)) in (length (channels a) - 1, a))"

definition disconnect :: "attach_t \<Rightarrow> attach_t" where
  "disconnect a = at_sender watch_close a"

definition guard_drop :: "(watch \<Rightarrow> bool) \<Rightarrow> nat \<Rightarrow> attach_t \<Rightarrow> attach_t" where
  "guard_drop borrow c a = (if borrow (channels a ! c) then a\<lparr>has_client := False\<rparr> else a)"

text \<open>What \<open>evict_rx.changed()\<close> gives to the client with channel \<open>c\<close>.\<close>

definition evict_event :: "(watch \<Rightarrow> bool option) \<Rightarrow> nat \<Rightarrow> attach_t \<Rightarrow> bool option" where
  "evict_event changed c a = changed (channels a ! c)"

subsection \<open>The steps\<close>

text \<open>
  Where a \<open>connect\<close> is (it runs under the manager's lock, so there is one at most), and where the drop
  of a guard is. \<open>overlap\<close> is a history variable: it records whether the window of a drop, from the
  read of the channel to the store, met the window of a \<open>connect\<close>, from the store of the flag to the
  eviction.
\<close>

datatype connect_pc = NotConnecting | FlagSet | OldEvicted

datatype guard_pc = Attached | Checked | Dropped

record conn =
  att :: attach_t
  connecting :: connect_pc
  guards :: "guard_pc list"
  removed :: bool
  overlap :: bool

definition conn_new :: conn where
  "conn_new = \<lparr>att = attach_new, connecting = NotConnecting, guards = [], removed = False, overlap = False\<rparr>"

definition flag_step :: "conn \<Rightarrow> conn" where
  "flag_step s = s\<lparr>att := set_flag (att s), connecting := FlagSet, overlap := overlap s \<or> Checked \<in> set (guards s)\<rparr>"

definition evict_step :: "conn \<Rightarrow> conn" where
  "evict_step s = s\<lparr>att := evict_previous (att s), connecting := OldEvicted\<rparr>"

definition open_step :: "conn \<Rightarrow> conn" where
  "open_step s = s\<lparr>att := open_channel (att s), connecting := NotConnecting, guards := guards s @ [Attached]\<rparr>"

definition check_step :: "(watch \<Rightarrow> bool) \<Rightarrow> nat \<Rightarrow> conn \<Rightarrow> conn" where
  "check_step borrow i s =
     (if borrow (channels (att s) ! i)
      then s\<lparr>guards := (guards s)[i := Checked], overlap := overlap s \<or> connecting s = FlagSet\<rparr>
      else s\<lparr>guards := (guards s)[i := Dropped]\<rparr>)"

definition clear_step :: "nat \<Rightarrow> conn \<Rightarrow> conn" where
  "clear_step i s = s\<lparr>att := (att s)\<lparr>has_client := False\<rparr>, guards := (guards s)[i := Dropped]\<rparr>"

definition remove_step :: "(attach_t \<Rightarrow> attach_t) \<Rightarrow> conn \<Rightarrow> conn" where
  "remove_step f s = s\<lparr>att := f (att s), removed := True\<rparr>"

inductive conn_step :: "(watch \<Rightarrow> bool) \<Rightarrow> conn \<Rightarrow> conn \<Rightarrow> bool" for borrow where
  flag: "connecting s = NotConnecting \<Longrightarrow> \<not> removed s \<Longrightarrow> conn_step borrow s (flag_step s)"
| evict: "connecting s = FlagSet \<Longrightarrow> conn_step borrow s (evict_step s)"
| opened: "connecting s = OldEvicted \<Longrightarrow> conn_step borrow s (open_step s)"
| check: "i < length (guards s) \<Longrightarrow> guards s ! i = Attached \<Longrightarrow> conn_step borrow s (check_step borrow i s)"
| clear: "i < length (guards s) \<Longrightarrow> guards s ! i = Checked \<Longrightarrow> conn_step borrow s (clear_step i s)"
| kill: "connecting s = NotConnecting \<Longrightarrow> \<not> removed s \<Longrightarrow> conn_step borrow s (remove_step disconnect s)"
| drop: "connecting s = NotConnecting \<Longrightarrow> \<not> removed s \<Longrightarrow> conn_step borrow s (remove_step evict_previous s)"

inductive conn_reach :: "(watch \<Rightarrow> bool) \<Rightarrow> conn \<Rightarrow> bool" for borrow where
  start: "conn_reach borrow conn_new"
| step: "conn_reach borrow s \<Longrightarrow> conn_step borrow s t \<Longrightarrow> conn_reach borrow t"

abbreviation unsent :: "watch \<Rightarrow> bool" where
  "unsent w \<equiv> SendFalse \<notin> set w"

lemma watch_okD:
  assumes "watch_ok borrow changed"
  shows "borrow = unsent"
    "changed w = (if SendFalse \<in> set w then Some True else if DropSender \<in> set w then Some False else None)"
  using assms by (auto simp: watch_ok_def)

lemmas conn_defs = flag_step_def evict_step_def open_step_def check_step_def clear_step_def remove_step_def
  set_flag_def evict_previous_def open_channel_def at_sender_def disconnect_def watch_evict_def watch_close_def
  watch_new_def

text \<open>An invariant from its initial and its step case.\<close>

lemma conn_invariant:
  assumes "conn_reach borrow s" "I conn_new" "\<And>s t. conn_step borrow s t \<Longrightarrow> I s \<Longrightarrow> I t"
  shows "I s"
  using assms(1) by induction (use assms(2,3) in auto)

subsection \<open>Functions and steps agree\<close>

lemma connect_steps:
  assumes "connecting s = NotConnecting" "\<not> removed s"
  shows "\<exists>t. (conn_step borrow)\<^sup>*\<^sup>* s t \<and> att t = snd (connect (att s)) \<and> connecting t = NotConnecting
    \<and> guards t = guards s @ [Attached]"
proof -
  let ?a = "flag_step s" and ?b = "evict_step (flag_step s)" and ?c = "open_step (evict_step (flag_step s))"
  have "conn_step borrow s ?a" by (rule conn_step.flag[OF assms])
  moreover have "conn_step borrow ?a ?b" by (rule conn_step.evict) (simp add: flag_step_def)
  moreover have "conn_step borrow ?b ?c" by (rule conn_step.opened) (simp add: evict_step_def)
  ultimately have "(conn_step borrow)\<^sup>*\<^sup>* s ?c" by (meson converse_rtranclp_into_rtranclp rtranclp.rtrancl_refl)
  then show ?thesis
    by (intro exI[of _ ?c]) (simp add: connect_def Let_def flag_step_def evict_step_def open_step_def)
qed

subsection \<open>At most one client\<close>

definition one_sender :: "conn \<Rightarrow> bool" where
  "one_sender s \<longleftrightarrow>
     (let a = att s; ch = channels a in
      length (guards s) = length ch
      \<and> (\<forall>w\<in>set (butlast ch). \<not> unsent w)
      \<and> (case evict_tx a of
            None \<Rightarrow> removed s \<or> (\<forall>w\<in>set ch. \<not> unsent w) \<and> (ch = [] \<or> connecting s = OldEvicted)
          | Some c \<Rightarrow> ch \<noteq> [] \<and> c = length ch - 1 \<and> unsent (last ch) \<and> connecting s \<noteq> OldEvicted)
      \<and> (removed s \<longrightarrow> connecting s = NotConnecting))"

lemma update_last: "xs \<noteq> [] \<Longrightarrow> xs[length xs - 1 := f (xs ! (length xs - 1))] = butlast xs @ [f (last xs)]"
  by (cases xs rule: rev_cases) (simp_all add: list_update_append)

lemma one_sender_at:
  assumes "one_sender s"
  shows "at_sender f (att s) =
    (if evict_tx (att s) = None then att s
     else (att s)\<lparr>evict_tx := None, channels := butlast (channels (att s)) @ [f (last (channels (att s)))]\<rparr>)"
  using assms update_last[of "channels (att s)" f]
  by (auto simp: one_sender_def at_sender_def Let_def split: option.splits)

lemma one_sender_step: "conn_step borrow s t \<Longrightarrow> one_sender s \<Longrightarrow> one_sender t"
proof (induction rule: conn_step.induct)
  case (flag s)
  then show ?case by (simp add: one_sender_def flag_step_def set_flag_def Let_def split: option.splits)
next
  case (evict s)
  then show ?case
    using one_sender_at[OF evict.prems, of watch_evict]
    by (auto simp: one_sender_def evict_step_def evict_previous_def watch_evict_def Let_def split: option.splits)
next
  case (opened s)
  then show ?case
    by (auto simp: one_sender_def open_step_def open_channel_def watch_new_def Let_def split: option.splits)
next
  case (check i s)
  then show ?case by (simp add: one_sender_def check_step_def Let_def split: option.splits)
next
  case (clear i s)
  then show ?case by (simp add: one_sender_def clear_step_def Let_def split: option.splits)
next
  case (kill s)
  then show ?case
    using one_sender_at[OF kill.prems, of watch_close]
    by (auto simp: one_sender_def remove_step_def disconnect_def watch_close_def Let_def split: option.splits)
next
  case (drop s)
  then show ?case
    using one_sender_at[OF drop.prems, of watch_evict]
    by (auto simp: one_sender_def remove_step_def evict_previous_def watch_evict_def Let_def split: option.splits)
qed

lemma conn_one_sender: "conn_reach borrow s \<Longrightarrow> one_sender s"
  by (rule conn_invariant[OF _ _ one_sender_step]) (auto simp: one_sender_def conn_new_def attach_new_def)

text \<open>A client is evicted exactly when its channel carries \<open>false\<close>.\<close>

lemma one_sender_unique:
  assumes "one_sender s" "i < length (channels (att s))" "unsent (channels (att s) ! i)"
  shows "Suc i = length (channels (att s))"
proof (rule ccontr)
  assume "Suc i \<noteq> length (channels (att s))"
  then have "channels (att s) ! i \<in> set (butlast (channels (att s)))"
    using assms(2) by (metis Suc_lessI length_butlast less_diff_conv add.commute nth_butlast nth_mem plus_1_eq_Suc)
  then show False using assms(1,3) by (simp add: one_sender_def Let_def)
qed

subsection \<open>The flag\<close>

text \<open>The flag is never left set: it is set only while the newest client is attached or being dropped.\<close>

definition no_stale_flag :: "conn \<Rightarrow> bool" where
  "no_stale_flag s \<longleftrightarrow>
     (has_client (att s) \<and> \<not> removed s \<and> connecting s = NotConnecting \<longrightarrow> guards s \<noteq> [] \<and> last (guards s) \<noteq> Dropped)"

lemma one_sender_last:
  assumes "one_sender s" "\<not> removed s" "connecting s \<noteq> OldEvicted" "channels (att s) \<noteq> []"
  shows "unsent (last (channels (att s)))"
  using assms by (auto simp: one_sender_def Let_def split: option.splits)

lemma last_index:
  assumes "one_sender s" "i < length (guards s)" "i = length (guards s) - 1"
  shows "channels (att s) ! i = last (channels (att s))"
proof -
  have "length (guards s) = length (channels (att s))" using assms(1) by (simp add: one_sender_def Let_def)
  then show ?thesis using assms(2,3) by (cases "channels (att s)" rule: rev_cases) auto
qed

lemma no_stale_flag_step: "conn_step unsent s t \<Longrightarrow> one_sender s \<Longrightarrow> no_stale_flag s \<Longrightarrow> no_stale_flag t"
proof (induction rule: conn_step.induct)
  case (check i s)
  have "guards s \<noteq> []" using check by auto
  moreover have "channels (att s) \<noteq> []" using check by (auto simp: one_sender_def Let_def)
  ultimately show ?case
    using check one_sender_last[of s] last_index[of s i]
    by (auto simp: no_stale_flag_def check_step_def last_list_update)
qed (auto simp: no_stale_flag_def conn_defs)

text \<open>The flag is set for an attached client, if no drop of a guard met a \<open>connect\<close>.\<close>

definition flag_ok :: "conn \<Rightarrow> bool" where
  "flag_ok s \<longleftrightarrow> removed s \<or> overlap s \<or>
     (if connecting s = NotConnecting
      then Checked \<notin> set (butlast (guards s)) \<and> (guards s \<noteq> [] \<and> last (guards s) = Attached \<longrightarrow> has_client (att s))
      else has_client (att s) \<and> Checked \<notin> set (guards s))"

lemma update_other: "x \<noteq> y \<Longrightarrow> x \<notin> set xs \<Longrightarrow> x \<notin> set (xs[i := y])"
  using set_update_subset_insert[of xs i y] by blast

lemma in_butlast_nth: "Suc i < length xs \<Longrightarrow> xs ! i \<in> set (butlast xs)"
  by (metis Suc_less_eq Suc_pred diff_Suc_1 length_butlast less_Suc_eq_0_disj nth_butlast nth_mem zero_less_diff not_less_eq length_greater_0_conv list.size(3))

lemma flag_ok_step: "conn_step unsent s t \<Longrightarrow> one_sender s \<Longrightarrow> flag_ok s \<Longrightarrow> flag_ok t"
proof (induction rule: conn_step.induct)
  case (check i s)
  show ?case
  proof (cases "unsent (channels (att s) ! i)")
    case True
    then have i: "i = length (guards s) - 1" "guards s \<noteq> []" "connecting s \<noteq> OldEvicted \<or> removed s"
      using check one_sender_unique[of s i] by (auto simp: one_sender_def Let_def split: option.splits)
    then show ?thesis
      using True check by (cases "connecting s") (auto simp: flag_ok_def check_step_def last_list_update butlast_list_update)
  next
    case False
    then show ?thesis
      using check by (cases "guards s = []")
        (auto simp: flag_ok_def check_step_def last_list_update butlast_list_update update_other)
  qed
next
  case (clear i s)
  have "removed s \<or> overlap s \<or> connecting s = NotConnecting \<and> Checked \<notin> set (butlast (guards s))"
    using clear nth_mem[of i "guards s"] by (auto simp: flag_ok_def split: if_splits)
  moreover from this have "removed s \<or> overlap s \<or> i = length (guards s) - 1"
    using clear in_butlast_nth[of i "guards s"] by fastforce
  ultimately show ?case
    using clear by (auto simp: flag_ok_def clear_step_def last_list_update butlast_list_update)
qed (auto simp: flag_ok_def conn_defs dest: in_set_butlastD split: option.splits if_splits)

lemma conn_new_ok: "one_sender conn_new" "no_stale_flag conn_new" "flag_ok conn_new"
  by (simp_all add: one_sender_def no_stale_flag_def flag_ok_def conn_new_def attach_new_def)

lemma conn_flag: "conn_reach unsent s \<Longrightarrow> one_sender s \<and> no_stale_flag s \<and> flag_ok s"
  by (rule conn_invariant[where I = "\<lambda>s. one_sender s \<and> no_stale_flag s \<and> flag_ok s"])
    (blast intro: conn_new_ok one_sender_step no_stale_flag_step flag_ok_step)+

text \<open>The run of the race: the guard of the first client has read its channel when the second connects.\<close>

definition first_attached :: conn where
  "first_attached = open_step (evict_step (flag_step conn_new))"

definition race :: conn where
  "race = clear_step 0 (open_step (evict_step (flag_step (check_step unsent 0 first_attached))))"

lemma connected_reach:
  assumes "conn_reach borrow s" "connecting s = NotConnecting" "\<not> removed s"
  shows "conn_reach borrow (open_step (evict_step (flag_step s)))"
proof -
  have "conn_reach borrow (flag_step s)" using assms by (blast intro: conn_reach.step conn_step.flag)
  then have "conn_reach borrow (evict_step (flag_step s))"
    by (rule conn_reach.step) (rule conn_step.evict, simp add: flag_step_def)
  then show ?thesis by (rule conn_reach.step) (rule conn_step.opened, simp add: evict_step_def)
qed

lemma first_attached_reach: "conn_reach borrow first_attached"
  unfolding first_attached_def by (rule connected_reach[OF conn_reach.start]) (simp_all add: conn_new_def)

lemma race_reach: "conn_reach unsent race"
proof -
  have "conn_step unsent first_attached (check_step unsent 0 first_attached)"
    by (rule conn_step.check) (simp_all add: first_attached_def conn_new_def conn_defs)
  then have "conn_reach unsent (check_step unsent 0 first_attached)" by (rule conn_reach.step[OF first_attached_reach])
  then have r: "conn_reach unsent (open_step (evict_step (flag_step (check_step unsent 0 first_attached))))"
    by (rule connected_reach) (simp_all add: first_attached_def conn_new_def attach_new_def conn_defs)
  show ?thesis
    unfolding race_def by (rule conn_reach.step[OF r], rule conn_step.clear)
      (simp_all add: first_attached_def conn_new_def attach_new_def conn_defs)
qed

lemma race_state: "\<not> has_client (att race)" "connecting race = NotConnecting" "\<not> removed race"
  "evict_tx (att race) = Some 1" "guards race = [Dropped, Attached]"
  by (simp_all add: race_def first_attached_def conn_new_def attach_new_def conn_defs)

end
