(* ===== verification/Session.thy ===== *)
theory Session
  imports Screen Protocol Attach "HOL-Library.AList" "HOL-Library.Sublist"
begin

text \<open>
  \<open>src/src/session.rs\<close> and the state of \<open>src/src/pty.rs\<close>: session names, sessions, the persistent
  reader loop with its queue of deferred responses, and the registry of sessions.

  The pseudo-terminal and the child process belong to \<open>portable_pty\<close> and the operating system. Of them
  the model has what the code looks at: the state of the child's mutex, the answer of \<open>try_wait\<close>, the
  process id, and the size last set. Opening one may fail at several calls (\<open>session_spawn\<close>); the other
  definitions have it as a parameter \<open>spawn\<close>.

  The registry is a hash map in the code; here it is an association list with distinct names, so that
  the order of \<open>list\<close>, which is unspecified in the code, is the order of insertion.
\<close>

abbreviation DEFAULT_COLS :: nat where "DEFAULT_COLS \<equiv> 80"
abbreviation DEFAULT_ROWS :: nat where "DEFAULT_ROWS \<equiv> 24"
abbreviation MAX_SESSION_NAME_LEN :: nat where "MAX_SESSION_NAME_LEN \<equiv> 128"
abbreviation PTY_READ_BUF_SIZE :: nat where "PTY_READ_BUF_SIZE \<equiv> 4096"
abbreviation MAX_DEFERRED :: nat where "MAX_DEFERRED \<equiv> 64"

subsection \<open>The child process\<close>

datatype try_lock = LockOk | WouldBlock | Poisoned

record pty_t =
  child_lock :: try_lock
  try_wait :: "bytes + nat option"
  process_id :: "nat option"
  master_size :: terminal_size

definition is_child_alive :: "pty_t \<Rightarrow> bool" where
  "is_child_alive p =
     (case child_lock p of
        LockOk \<Rightarrow> (case try_wait p of Inr (Some status) \<Rightarrow> False | _ \<Rightarrow> True)
      | WouldBlock \<Rightarrow> True
      | Poisoned \<Rightarrow> False)"

text \<open>
  Opening a pseudo-terminal with a child and starting the reader: the calls that may fail, with their
  errors. \<open>spawn_command\<close> gets the environment that is set on the command and gives a process id. The
  functions give the child that was started along with the result.
\<close>

record pty_calls =
  openpty :: "terminal_size \<Rightarrow> bytes option"
  spawn_command :: "(bytes \<times> bytes) list \<Rightarrow> bytes + nat option"
  take_writer :: "bytes option"
  try_clone_reader :: "bytes option"
  spawn_thread :: "bytes \<Rightarrow> bytes option"

definition pty_spawn :: "pty_calls \<Rightarrow> nat \<Rightarrow> nat \<Rightarrow> (bytes + pty_t) \<times> nat option list" where
  "pty_spawn os c r =
     (let size = \<lparr>ts_cols = c, ts_rows = r\<rparr> in
      case openpty os size of
        Some e \<Rightarrow> (Inl e, [])
      | None \<Rightarrow>
          (case spawn_command os [(''TERM'', ''xterm-256color'')] of
             Inl e \<Rightarrow> (Inl e, [])
           | Inr pid \<Rightarrow>
               (case take_writer os of
                  Some e \<Rightarrow> (Inl e, [pid])
                | None \<Rightarrow> (Inr \<lparr>child_lock = LockOk, try_wait = Inr None, process_id = pid, master_size = size\<rparr>, [pid]))))"

text \<open>The mutex around the master is new here, so it is not poisoned.\<close>

definition clone_reader :: "pty_calls \<Rightarrow> bytes option" where
  "clone_reader os = map_option (\<lambda>e. ''failed to clone PTY reader: '' @ e) (try_clone_reader os)"

text \<open>All that may fail in \<open>Session::new\<close>, in its order; the rest is \<open>session_new\<close>, for which this is \<open>spawn\<close>.\<close>

definition session_spawn :: "pty_calls \<Rightarrow> bytes \<Rightarrow> nat \<Rightarrow> nat \<Rightarrow> (bytes + pty_t) \<times> nat option list" where
  "session_spawn os nm c r =
     (case pty_spawn os c r of
        (Inl e, cs) \<Rightarrow> (Inl e, cs)
      | (Inr p, cs) \<Rightarrow>
          (case clone_reader os of
             Some e \<Rightarrow> (Inl e, cs)
           | None \<Rightarrow> (case spawn_thread os (''pty-reader-'' @ nm) of Some e \<Rightarrow> (Inl e, cs) | None \<Rightarrow> (Inr p, cs))))"

text \<open>
  A new session has one living child of the size asked for. When a call after the start of the child
  fails, there is no session, but the child stays: nothing kills it or waits for it.
\<close>

lemma session_spawn_child:
  assumes "session_spawn os nm c r = (Inr p, cs)"
  shows "is_child_alive p" "master_size p = \<lparr>ts_cols = c, ts_rows = r\<rparr>" "cs = [process_id p]"
  using assms by (auto simp: session_spawn_def pty_spawn_def Let_def is_child_alive_def split: option.splits sum.splits)

lemma failed_session_leaves_child:
  assumes "openpty os \<lparr>ts_cols = c, ts_rows = r\<rparr> = None" "spawn_command os [(''TERM'', ''xterm-256color'')] = Inr pid"
    "take_writer os \<noteq> None \<or> try_clone_reader os \<noteq> None \<or> spawn_thread os (''pty-reader-'' @ nm) \<noteq> None"
  shows "\<exists>e. session_spawn os nm c r = (Inl e, [pid])"
  using assms by (auto simp: session_spawn_def pty_spawn_def clone_reader_def split: option.split)

subsection \<open>Sessions\<close>

record 'p session_t =
  session_name :: bytes
  pty :: pty_t
  screen :: "'p emulator"
  screen_poisoned :: bool
  dims :: terminal_size
  dims_poisoned :: bool
  attach :: attach_t
  reader_alive :: bool

definition session_new ::
  "(nat \<Rightarrow> nat \<Rightarrow> bytes + pty_t) \<Rightarrow> 'p \<Rightarrow> bytes \<Rightarrow> nat \<Rightarrow> nat \<Rightarrow> nat \<Rightarrow> bytes + 'p session_t" where
  "session_new spawn p0 nm c r history =
     (case spawn c r of
        Inl e \<Rightarrow> Inl e
      | Inr p \<Rightarrow>
          Inr \<lparr>session_name = nm, pty = p, screen = emulator_new p0 c r history, screen_poisoned = False,
               dims = \<lparr>ts_cols = c, ts_rows = r\<rparr>, dims_poisoned = False, attach = attach_new, reader_alive = True\<rparr>)"

definition is_alive :: "'p session_t \<Rightarrow> bool" where
  "is_alive s \<longleftrightarrow> reader_alive s \<and> is_child_alive (pty s)"

definition child_pid :: "'p session_t \<Rightarrow> nat option" where
  "child_pid s = (if child_lock (pty s) = LockOk then process_id (pty s) else None)"

definition session_connect :: "'p session_t \<Rightarrow> nat \<times> 'p session_t" where
  "session_connect s = (let (c, a) = connect (attach s) in (c, s\<lparr>attach := a\<rparr>))"

definition session_disconnect :: "'p session_t \<Rightarrow> 'p session_t" where
  "session_disconnect s = s\<lparr>attach := disconnect (attach s)\<rparr>"

text \<open>
  The drop of a session: whether the child is killed, and the eviction of its client. A child whose
  mutex is not free is left running, and its client is not told.
\<close>

definition session_drop :: "'p session_t \<Rightarrow> bool \<times> 'p session_t" where
  "session_drop s =
     (if child_lock (pty s) = LockOk then (True, s\<lparr>attach := evict_previous (attach s)\<rparr>) else (False, s))"

subsection \<open>Session names\<close>

definition name_char :: "byte \<Rightarrow> bool" where
  "name_char c \<longleftrightarrow>
     97 \<le> bval c \<and> bval c \<le> 122 \<or> 65 \<le> bval c \<and> bval c \<le> 90 \<or> 48 \<le> bval c \<and> bval c \<le> 57
     \<or> c = CHR ''_'' \<or> c = CHR ''-'' \<or> c = CHR ''.''"

text \<open>
  The first character that is not allowed. The allowed ones are ASCII, so it starts at the first byte
  that is not one of them and takes in the continuation bytes that follow.
\<close>

fun find_bad_char :: "bytes \<Rightarrow> bytes option" where
  "find_bad_char [] = None"
| "find_bad_char (c # cs) = (if name_char c then find_bad_char cs else Some (c # takeWhile is_cont cs))"

definition validate_session_name :: "bytes \<Rightarrow> bytes + unit" where
  "validate_session_name nm =
     (if nm = [] then Inl ''session name cannot be empty''
      else if length nm > MAX_SESSION_NAME_LEN then Inl ''session name too long (max 128 bytes)''
      else
        (case find_bad_char nm of
           Some ch \<Rightarrow> Inl (''invalid character '' @ [CHR 0x27] @ ch @ [CHR 0x27]
             @ '' in session name (allowed: a-zA-Z0-9_-.)'')
         | None \<Rightarrow> Inr ()))"

subsection \<open>The persistent reader\<close>

text \<open>
  The reader's side of a session: the screen and its mutex, the responses written to the child, the
  queue of deferred ones, the flag \<open>reader_alive\<close> and the number of notifications sent.
\<close>

record 'p reader =
  r_screen :: "'p emulator"
  r_poisoned :: bool
  r_written :: "bytes list"
  deferred_responses :: "bytes list"
  r_alive :: bool
  r_notified :: nat

text \<open>
  One turn of the loop as the environment decides it: the read, the value of \<open>has_client\<close>, whether
  \<open>try_lock\<close> on the writer succeeds, and how many of the responses can be written before an error.
\<close>

record turn =
  t_read :: read_result
  t_client :: bool
  t_lock :: bool
  t_writable :: nat

datatype turn_end = GoOn | Break | Panic

definition quote_name :: "bytes \<Rightarrow> bytes" where
  "quote_name nm = [CHR 0x27] @ nm @ [CHR 0x27]"

definition discard_pending :: "screen_t \<Rightarrow> screen_t" where
  "discard_pending s = snd (take_passthrough (snd (take_pending_scrollback s)))"

text \<open>The part of a turn under the screen lock; \<open>None\<close> is a panic of the emulator.\<close>

definition read_screen ::
  "('p \<Rightarrow> byte \<Rightarrow> 'p \<times> action list) \<Rightarrow> (rchar \<Rightarrow> nat option) \<Rightarrow> bool \<Rightarrow> bytes \<Rightarrow> 'p emulator \<Rightarrow> (bytes list \<times> 'p emulator) option" where
  "read_screen advance cwidth client data e =
     do { e \<leftarrow> process advance cwidth data e;
          let (responses, s) = take_responses (scr e);
          Some (responses, e\<lparr>scr := (if client then s else discard_pending s)\<rparr>) }"

definition defer_responses :: "bytes list \<Rightarrow> bytes list \<Rightarrow> bytes list" where
  "defer_responses responses q = fold (push_drop_old MAX_DEFERRED) responses q"

text \<open>The part after it, on the deferred and the new responses.\<close>

definition answer :: "turn \<Rightarrow> bytes list \<Rightarrow> 'p reader \<Rightarrow> 'p reader" where
  "answer t new r =
     (let responses = deferred_responses r @ new; r = r\<lparr>deferred_responses := []\<rparr> in
      if responses = [] then r
      else if t_lock t then r\<lparr>r_written := r_written r @ take (t_writable t) responses\<rparr>
      else r\<lparr>deferred_responses := defer_responses responses []\<rparr>)"

definition reader_turn ::
  "('p \<Rightarrow> byte \<Rightarrow> 'p \<times> action list) \<Rightarrow> (rchar \<Rightarrow> nat option) \<Rightarrow> turn \<Rightarrow> 'p reader \<Rightarrow> turn_end \<times> 'p reader" where
  "reader_turn advance cwidth t r =
     (case t_read t of
        Inl e \<Rightarrow> (Break, r)
      | Inr data \<Rightarrow>
          if data = [] then (Break, r)
          else if r_poisoned r then (Break, r)
          else
            (case read_screen advance cwidth (t_client t) data (r_screen r) of
               None \<Rightarrow> (Panic, r\<lparr>r_poisoned := True\<rparr>)
             | Some (new, e) \<Rightarrow>
                 let r = answer t new (r\<lparr>r_screen := e\<rparr>) in (GoOn, r\<lparr>r_notified := r_notified r + 1\<rparr>)))"

text \<open>The loop on the turns to come: \<open>GoOn\<close> when it still runs after them.\<close>

fun persistent_reader_loop ::
  "('p \<Rightarrow> byte \<Rightarrow> 'p \<times> action list) \<Rightarrow> (rchar \<Rightarrow> nat option) \<Rightarrow> turn list \<Rightarrow> 'p reader \<Rightarrow> turn_end \<times> 'p reader" where
  "persistent_reader_loop advance cwidth [] r = (GoOn, r)"
| "persistent_reader_loop advance cwidth (t # ts) r =
     (case reader_turn advance cwidth t r of
        (GoOn, r) \<Rightarrow> persistent_reader_loop advance cwidth ts r
      | (Break, r) \<Rightarrow> (Break, r\<lparr>r_alive := False, r_notified := r_notified r + 1\<rparr>)
      | (Panic, r) \<Rightarrow> (Panic, r))"

subsection \<open>The registry\<close>

type_synonym 'p manager = "(bytes \<times> 'p session_t) list"

definition manager_new :: "'p manager" where
  "manager_new = []"

definition or_default :: "nat \<Rightarrow> nat \<Rightarrow> nat" where
  "or_default n d = (if n > 0 then n else d)"

definition create ::
  "(nat \<Rightarrow> nat \<Rightarrow> bytes + pty_t) \<Rightarrow> 'p \<Rightarrow> bytes \<Rightarrow> nat \<Rightarrow> nat \<Rightarrow> nat \<Rightarrow> 'p manager \<Rightarrow> (bytes + unit) \<times> 'p manager" where
  "create spawn p0 nm c r history m =
     (case validate_session_name nm of
        Inl e \<Rightarrow> (Inl e, m)
      | Inr _ \<Rightarrow>
          if map_of m nm \<noteq> None then (Inl (''session '' @ quote_name nm @ '' already exists''), m)
          else
            (case session_new spawn p0 nm (or_default c DEFAULT_COLS) (or_default r DEFAULT_ROWS) history of
               Inl e \<Rightarrow> (Inl e, m)
             | Inr s \<Rightarrow> (Inr (), AList.update nm s m)))"

definition get_or_create ::
  "(nat \<Rightarrow> nat \<Rightarrow> bytes + pty_t) \<Rightarrow> 'p \<Rightarrow> bytes \<Rightarrow> nat \<Rightarrow> nat \<Rightarrow> nat \<Rightarrow> 'p manager \<Rightarrow> (bytes + 'p session_t \<times> bool) \<times> 'p manager" where
  "get_or_create spawn p0 nm c r history m =
     (case validate_session_name nm of
        Inl e \<Rightarrow> (Inl e, m)
      | Inr _ \<Rightarrow>
          (case map_of m nm of
             Some s \<Rightarrow> (Inr (s, False), m)
           | None \<Rightarrow>
               (case session_new spawn p0 nm (or_default c DEFAULT_COLS) (or_default r DEFAULT_ROWS) history of
                  Inl e \<Rightarrow> (Inl e, m)
                | Inr s \<Rightarrow> (Inr (s, True), AList.update nm s m))))"

definition get :: "bytes \<Rightarrow> 'p manager \<Rightarrow> 'p session_t option" where
  "get nm m = map_of m nm"

text \<open>The code changes a session through the reference that \<open>get_mut\<close> gives; here it is put back.\<close>

definition put_back :: "bytes \<Rightarrow> 'p session_t \<Rightarrow> 'p manager \<Rightarrow> 'p manager" where
  "put_back nm s m = (if map_of m nm \<noteq> None then AList.update nm s m else m)"

definition remove_session :: "bytes \<Rightarrow> 'p manager \<Rightarrow> 'p session_t option \<times> 'p manager" where
  "remove_session nm m = (map_of m nm, AList.delete nm m)"

definition session_info_of :: "'p session_t \<Rightarrow> session_info" where
  "session_info_of s =
     (let d = (if dims_poisoned s then \<lparr>ts_cols = DEFAULT_COLS, ts_rows = DEFAULT_ROWS\<rparr> else dims s) in
      \<lparr>si_name = session_name s, si_pid = (case child_pid s of Some p \<Rightarrow> p | None \<Rightarrow> 0),
       si_cols = ts_cols d, si_rows = ts_rows d\<rparr>)"

definition list_all_sessions :: "'p manager \<Rightarrow> session_info list" where
  "list_all_sessions m = map (session_info_of \<circ> snd) m"

definition drain_all :: "'p manager \<Rightarrow> 'p session_t list \<times> 'p manager" where
  "drain_all m = (map snd m, [])"

fun remove_each :: "bytes list \<Rightarrow> 'p manager \<Rightarrow> 'p session_t list \<times> 'p manager" where
  "remove_each [] m = ([], m)"
| "remove_each (nm # nms) m =
     (let (s, m) = remove_session nm m; (ss, m) = remove_each nms m
      in (case s of Some s \<Rightarrow> s # ss | None \<Rightarrow> ss, m))"

definition take_dead_sessions :: "'p manager \<Rightarrow> 'p session_t list \<times> 'p manager" where
  "take_dead_sessions m = remove_each (map fst (filter (\<lambda>(nm, s). \<not> is_alive s) m)) m"

subsection \<open>Names\<close>

lemma find_bad_char_None: "find_bad_char nm = None \<longleftrightarrow> list_all name_char nm"
  by (induction nm) auto

lemma validate_ok:
  "validate_session_name nm = Inr u \<longleftrightarrow> nm \<noteq> [] \<and> length nm \<le> MAX_SESSION_NAME_LEN \<and> list_all name_char nm"
  using find_bad_char_None[of nm] by (auto simp: validate_session_name_def split: option.splits)

lemma validate_cases: "validate_session_name nm = Inr () \<or> (\<exists>e. validate_session_name nm = Inl e)"
  by (cases "validate_session_name nm") auto

subsection \<open>The deferred responses\<close>

interpretation deferred: bounded_push "push_drop_old MAX_DEFERRED" MAX_DEFERRED
  by (rule push_drop_old_contract) simp

lemma fold_push_drop_old:
  assumes "0 < m" "length q \<le> m"
  shows "fold (push_drop_old m) xs q = drop (length q + length xs - m) (q @ xs)"
  using assms(2)
proof (induction xs arbitrary: q)
  case (Cons x xs)
  have "length (push_drop_old m x q) \<le> m"
    using Cons.prems assms(1) by (cases q) (auto simp: push_drop_old_def)
  note IH = Cons.IH[OF this]
  show ?case
  proof (cases "m \<le> length q")
    case True
    then have "tl q @ x # xs = drop 1 (q @ x # xs)" "q \<noteq> []" using assms(1) by (cases q; simp)+
    then show ?thesis
      using IH True Cons.prems by (simp add: push_drop_old_def del: drop_append)
  qed (use IH in \<open>simp add: push_drop_old_def del: drop_append\<close>)
qed simp

lemma defer_last: "defer_responses rs [] = drop (length rs - MAX_DEFERRED) rs"
  using fold_push_drop_old[of MAX_DEFERRED "[]" rs] by (simp add: defer_responses_def)

text \<open>
  One turn: without contention everything that waits is written, in order; with contention the last
  64 responses wait.
\<close>

lemma answer_eq:
  "answer t new r =
     (if t_lock t
      then r\<lparr>r_written := r_written r @ take (t_writable t) (deferred_responses r @ new), deferred_responses := []\<rparr>
      else r\<lparr>deferred_responses := drop (length (deferred_responses r @ new) - MAX_DEFERRED) (deferred_responses r @ new)\<rparr>)"
  by (simp add: answer_def Let_def defer_last)

lemma answer_bound: "length (deferred_responses (answer t new r)) \<le> MAX_DEFERRED"
  by (auto simp: answer_eq simp del: drop_append)

lemma answer_subseq:
  "subseq (r_written (answer t new r) @ deferred_responses (answer t new r)) (r_written r @ deferred_responses r @ new)"
  by (auto simp: answer_eq simp del: append_assoc intro!: list_emb_append_mono)

lemma answer_frame [simp]:
  "r_screen (answer t new r) = r_screen r" "r_poisoned (answer t new r) = r_poisoned r" "r_alive (answer t new r) = r_alive r"
  "r_notified (answer t new r) = r_notified r"
  by (simp_all add: answer_eq)

subsection \<open>The reader loop\<close>

text \<open>The specification side: the responses the emulator produces for the turns.\<close>

fun produced ::
  "('p \<Rightarrow> byte \<Rightarrow> 'p \<times> action list) \<Rightarrow> (rchar \<Rightarrow> nat option) \<Rightarrow> turn list \<Rightarrow> 'p emulator \<Rightarrow> bytes list" where
  "produced advance cwidth [] e = []"
| "produced advance cwidth (t # ts) e =
     (case t_read t of
        Inl er \<Rightarrow> []
      | Inr data \<Rightarrow>
          if data = [] then []
          else
            (case read_screen advance cwidth (t_client t) data e of
               None \<Rightarrow> []
             | Some (new, e) \<Rightarrow> new @ produced advance cwidth ts e))"

lemma reader_turn_end:
  assumes "reader_turn advance cwidth t r = (out, r')"
  shows "case out of
      GoOn \<Rightarrow> \<exists>data new e. t_read t = Inr data \<and> data \<noteq> [] \<and> \<not> r_poisoned r
        \<and> read_screen advance cwidth (t_client t) data (r_screen r) = Some (new, e)
        \<and> r' = (answer t new (r\<lparr>r_screen := e\<rparr>))\<lparr>r_notified := r_notified r + 1\<rparr>
    | Break \<Rightarrow> r' = r
    | Panic \<Rightarrow> r' = r\<lparr>r_poisoned := True\<rparr>"
  using assms
  by (auto simp: reader_turn_def Let_def split: sum.splits if_splits option.splits prod.splits turn_end.splits)

lemma reader_order:
  assumes "persistent_reader_loop advance cwidth ts r = (out, r')"
  shows "subseq (r_written r' @ deferred_responses r')
    (r_written r @ deferred_responses r @ produced advance cwidth ts (r_screen r))"
  using assms
proof (induction ts arbitrary: r)
  case (Cons t ts)
  obtain o1 r1 where t: "reader_turn advance cwidth t r = (o1, r1)" by fastforce
  show ?case
  proof (cases o1)
    case GoOn
    then obtain data new e where d: "t_read t = Inr data" "data \<noteq> []"
      "read_screen advance cwidth (t_client t) data (r_screen r) = Some (new, e)"
      "r1 = (answer t new (r\<lparr>r_screen := e\<rparr>))\<lparr>r_notified := r_notified r + 1\<rparr>"
      using reader_turn_end[OF t] by auto
    let ?r = "answer t new (r\<lparr>r_screen := e\<rparr>)" and ?p = "produced advance cwidth ts e"
    have "subseq (r_written r' @ deferred_responses r') ((r_written ?r @ deferred_responses ?r) @ ?p)"
      using Cons.IH[of r1] Cons.prems t GoOn d(4) by simp
    also have "subseq \<dots> ((r_written r @ deferred_responses r @ new) @ ?p)"
      by (rule list_emb_append_mono) (use answer_subseq[of t new "r\<lparr>r_screen := e\<rparr>"] in simp_all)
    finally show ?thesis using d by simp
  qed (use Cons.prems t reader_turn_end[OF t] in \<open>auto intro!: list_emb_append_mono\<close>)
qed simp

definition reader_ok :: "'p reader \<Rightarrow> bool" where
  "reader_ok r \<longleftrightarrow> length (deferred_responses r) \<le> MAX_DEFERRED \<and> (r_poisoned r \<or> wf_screen (scr (r_screen r)))"

lemma discard_pending_safe: "wf_screen s \<Longrightarrow> wf_screen (discard_pending s)"
  by (simp add: discard_pending_def take_pending_safe take_queue_safe)

lemma queue_cols [simp]:
  "cols (grid (snd (take_responses s))) = cols (grid s)" "cols (grid (discard_pending s)) = cols (grid s)"
  by (simp_all add: take_responses_def discard_pending_def take_passthrough_def take_pending_scrollback_eq on_state_def)

lemma read_screen_safe:
  assumes "wf_screen (scr e)" "width_ok cwidth"
  shows "returns_or (may_panic cwidth (actions_of advance data (parser e)) (cols (grid (scr e))))
    (read_screen advance cwidth client data e) (\<lambda>(new, e'). wf_screen (scr e') \<and> cols (grid (scr e')) = cols (grid (scr e)))"
  using process_safe[OF assms, of advance data]
  by (auto simp: read_screen_def Let_def split_def discard_pending_safe take_queue_safe queue_cols elim!: returns_or_mono)

lemma read_screen_bad:
  "list_ex bad_title (actions_of advance data (parser e)) \<Longrightarrow> read_screen advance cwidth client data e = None"
  by (simp add: read_screen_def process_bad)

text \<open>Without a client nothing waits for one: neither lines of history nor sequences to pass through.\<close>

lemma read_screen_no_client:
  assumes "wf_screen (scr e)" "width_ok cwidth" "read_screen advance cwidth False data e = Some (new, e')"
  shows "pending_rows (grid (scr e')) = []" "pending_passthrough (state (scr e')) = []"
    "pending_responses (state (scr e')) = []"
proof -
  obtain e1 where e1: "process advance cwidth data e = Some e1"
    "e' = e1\<lparr>scr := discard_pending (snd (take_responses (scr e1)))\<rparr>"
    using assms(3) by (auto simp: read_screen_def Let_def split_def split: bind_splits)
  have "wf_screen (scr e1)"
    using process_safe[OF assms(1,2), of advance data] e1(1) by simp
  from wf_screenD(2)[OF this] show "pending_rows (grid (scr e')) = []" "pending_passthrough (state (scr e')) = []"
    "pending_responses (state (scr e')) = []"
    by (auto simp: e1(2) discard_pending_def take_responses_def take_passthrough_def take_pending_scrollback_eq
        on_state_def pending_rows_def scrollback_rows_def grid_ok_def buffer_ok_def)
qed

lemma reader_loop_safe:
  assumes "reader_ok r" "width_ok cwidth" "r_alive r"
  shows "case persistent_reader_loop advance cwidth ts r of (out, r') \<Rightarrow>
      reader_ok r' \<and> r_alive r' = (out \<noteq> Break) \<and> (out = Panic \<longrightarrow> r_poisoned r')"
  using assms(1,3)
proof (induction ts arbitrary: r)
  case (Cons t ts)
  obtain o1 r1 where t: "reader_turn advance cwidth t r = (o1, r1)" by fastforce
  show ?case
  proof (cases o1)
    case GoOn
    then obtain data new e where d: "\<not> r_poisoned r"
      "read_screen advance cwidth (t_client t) data (r_screen r) = Some (new, e)"
      "r1 = (answer t new (r\<lparr>r_screen := e\<rparr>))\<lparr>r_notified := r_notified r + 1\<rparr>"
      using reader_turn_end[OF t] by auto
    have "wf_screen (scr e)"
      using read_screen_safe[of "r_screen r" cwidth advance data "t_client t"] d(1,2) Cons.prems assms(2)
      by (auto simp: reader_ok_def)
    then have "reader_ok r1" "r_alive r1"
      using d(1,3) answer_bound[of t new "r\<lparr>r_screen := e\<rparr>"] Cons.prems by (simp_all add: reader_ok_def)
    from Cons.IH[OF this] show ?thesis using t GoOn by simp
  qed (use Cons.prems t reader_turn_end[OF t] in \<open>auto simp: reader_ok_def\<close>)
qed simp

subsection \<open>Registries\<close>

text \<open>What the sessions' registry relies on of its map.\<close>

locale registry =
  fixes ok :: "'m \<Rightarrow> bool"
    and lookup :: "'m \<Rightarrow> 'k \<Rightarrow> 'v option"
    and put :: "'k \<Rightarrow> 'v \<Rightarrow> 'm \<Rightarrow> 'm"
    and del :: "'k \<Rightarrow> 'm \<Rightarrow> 'm"
  assumes lookup_put: "ok m \<Longrightarrow> lookup (put k v m) = (lookup m)(k := Some v)"
    and lookup_del: "ok m \<Longrightarrow> lookup (del k m) = (lookup m)(k := None)"
    and put_ok: "ok m \<Longrightarrow> ok (put k v m)"
    and del_ok: "ok m \<Longrightarrow> ok (del k m)"
begin

lemma del_all: "ok m \<Longrightarrow> ok (fold del ks m) \<and> lookup (fold del ks m) = (\<lambda>k. if k \<in> set ks then None else lookup m k)"
  by (induction ks arbitrary: m) (auto simp: lookup_del del_ok)

end

interpretation names: registry "\<lambda>m. distinct (map fst m)" map_of AList.update AList.delete
  by unfold_locales (simp_all add: AList.update_conv' AList.delete_conv' AList.distinct_update AList.distinct_delete)

lemma map_filter_same: "(\<And>x. x \<in> set xs \<Longrightarrow> f x = g x) \<Longrightarrow> List.map_filter f xs = List.map_filter g xs"
  by (induction xs) (simp_all add: map_filter_simps split: option.splits)

lemma map_filter_pairs: "\<forall>p\<in>set ps. f (fst p) = Some (snd p) \<Longrightarrow> List.map_filter f (map fst ps) = map snd ps"
  by (induction ps) (auto simp: map_filter_simps split: option.splits)

lemma remove_each_eq:
  assumes "distinct nms" "distinct (map fst m)"
  shows "remove_each nms m = (List.map_filter (map_of m) nms, fold AList.delete nms m)"
  using assms
proof (induction nms arbitrary: m)
  case (Cons nm nms)
  have "List.map_filter (map_of (AList.delete nm m)) nms = List.map_filter (map_of m) nms"
    using Cons.prems(1) by (intro map_filter_same) (auto simp: AList.delete_conv)
  then show ?case
    using Cons.IH[of "AList.delete nm m"] Cons.prems names.del_ok[of m nm]
    by (simp add: remove_session_def map_filter_simps split: option.splits)
qed (simp add: map_filter_simps)

text \<open>The dead sessions are taken out, the living ones stay.\<close>

lemma take_dead_eq:
  assumes m: "distinct (map fst m)"
  shows "fst (take_dead_sessions m) = filter (\<lambda>s. \<not> is_alive s) (map snd m)"
    "map_of (snd (take_dead_sessions m)) =
      (\<lambda>nm. case map_of m nm of Some s \<Rightarrow> if is_alive s then Some s else None | None \<Rightarrow> None)"
    "distinct (map fst (snd (take_dead_sessions m)))"
proof -
  let ?dead = "filter (\<lambda>(nm, s). \<not> is_alive s) m"
  have dd: "distinct (map fst ?dead)" using m by (rule distinct_map_filter)
  note eq = remove_each_eq[OF dd m, folded take_dead_sessions_def]
  have "List.map_filter (map_of m) (map fst ?dead) = map snd ?dead"
    using m by (intro map_filter_pairs) auto
  then show "fst (take_dead_sessions m) = filter (\<lambda>s. \<not> is_alive s) (map snd m)"
    by (simp add: eq filter_map comp_def split_def)
  have "nm \<in> set (map fst ?dead) \<longleftrightarrow> (\<exists>s. map_of m nm = Some s \<and> \<not> is_alive s)" for nm
    using m by force
  then show "map_of (snd (take_dead_sessions m)) =
      (\<lambda>nm. case map_of m nm of Some s \<Rightarrow> if is_alive s then Some s else None | None \<Rightarrow> None)"
    using names.del_all[OF m, of "map fst ?dead"] by (auto simp: eq split: option.splits)
  show "distinct (map fst (snd (take_dead_sessions m)))"
    using names.del_all[OF m, of "map fst ?dead"] by (simp add: eq)
qed

subsection \<open>The registry's invariant\<close>

definition session_ok :: "'p session_t \<Rightarrow> bool" where
  "session_ok s \<longleftrightarrow> 0 < ts_cols (dims s) \<and> 0 < ts_rows (dims s)
     \<and> (screen_poisoned s \<or> wf_screen (scr (screen s)))"

definition manager_ok :: "'p manager \<Rightarrow> bool" where
  "manager_ok m \<longleftrightarrow> distinct (map fst m)
     \<and> (\<forall>nm s. map_of m nm = Some s \<longrightarrow> session_name s = nm \<and> validate_session_name nm = Inr () \<and> session_ok s)"

lemma session_new_ok:
  assumes "session_new spawn p0 nm c r history = Inr s" "0 < c" "0 < r" "c \<le> u16_max" "r \<le> u16_max"
  shows "session_name s = nm" "session_ok s" "reader_alive s" "attach s = attach_new" "screen s = emulator_new p0 c r history"
    "dims s = \<lparr>ts_cols = c, ts_rows = r\<rparr>"
  using assms by (auto simp: session_new_def session_ok_def emulator_new_def screen_new_wf split: sum.splits)

lemma or_default_bounds: "0 < d \<Longrightarrow> d \<le> u16_max \<Longrightarrow> n \<le> u16_max \<Longrightarrow> 0 < or_default n d \<and> or_default n d \<le> u16_max"
  by (simp add: or_default_def)

lemma manager_put:
  assumes "manager_ok m" "validate_session_name nm = Inr ()" "session_name s = nm" "session_ok s"
  shows "manager_ok (AList.update nm s m)"
  using assms names.lookup_put[of m nm s] names.put_ok[of m nm s] by (auto simp: manager_ok_def split: if_splits)

lemma create_ok:
  assumes "manager_ok m" "c \<le> u16_max" "r \<le> u16_max"
  shows "manager_ok (snd (create spawn p0 nm c r history m))"
  using assms session_new_ok[of spawn p0 nm "or_default c DEFAULT_COLS" "or_default r DEFAULT_ROWS" history]
    or_default_bounds[of DEFAULT_COLS c] or_default_bounds[of DEFAULT_ROWS r]
  by (auto simp: create_def manager_put split: sum.splits)

lemma get_or_create_ok:
  assumes "manager_ok m" "c \<le> u16_max" "r \<le> u16_max"
  shows "manager_ok (snd (get_or_create spawn p0 nm c r history m))"
  using assms session_new_ok[of spawn p0 nm "or_default c DEFAULT_COLS" "or_default r DEFAULT_ROWS" history]
    or_default_bounds[of DEFAULT_COLS c] or_default_bounds[of DEFAULT_ROWS r]
  by (auto simp: get_or_create_def manager_put split: sum.splits option.splits)

lemma remove_ok: "manager_ok m \<Longrightarrow> manager_ok (snd (remove_session nm m))"
  using names.lookup_del[of m nm] names.del_ok[of m nm] by (auto simp: manager_ok_def remove_session_def split: if_splits)

lemma take_dead_ok: "manager_ok m \<Longrightarrow> manager_ok (snd (take_dead_sessions m))"
  using take_dead_eq(2,3)[of m] by (auto simp: manager_ok_def split: option.splits if_splits)

lemma drain_all_ok: "manager_ok (snd (drain_all m))"
  by (simp add: drain_all_def manager_ok_def)

lemma put_back_ok:
  assumes "manager_ok m" "session_name s = nm" "session_ok s"
  shows "manager_ok (put_back nm s m)"
proof (cases "map_of m nm")
  case (Some y)
  then have "validate_session_name nm = Inr ()" using assms(1) by (simp add: manager_ok_def)
  then show ?thesis using Some assms by (simp add: put_back_def manager_put)
qed (simp add: put_back_def assms)

end
