(* ===== verification/Client.thy ===== *)
theory Client
  imports Protocol Render_Facts
begin

text \<open>
  \<open>src/src/client/mod.rs\<close>: the input filter (detach key, focus events, split escape sequences), the
  two relays between the terminal and the socket, the handshake, the terminal clean-up, and the
  \<open>list\<close> and \<open>kill\<close> requests.

  Reads are values, as in \<open>Protocol\<close>. What a task writes is the list of bytes or messages it returns;
  writes are taken to succeed, so the error branches of \<open>write_all\<close> are not modelled.
\<close>

subsection \<open>The input filter\<close>

abbreviation DETACH_KEY :: byte where "DETACH_KEY \<equiv> CHR 0x1C"
abbreviation FOCUS_IN :: byte where "FOCUS_IN \<equiv> CHR ''I''"
abbreviation FOCUS_OUT :: byte where "FOCUS_OUT \<equiv> CHR ''O''"

datatype filter_action = Forward bytes | DetachKey | FocusIn

record input_filter =
  carry :: bytes

definition filter_new :: input_filter where
  "filter_new = \<lparr>carry = []\<rparr>"

definition flush_filtered :: "bytes \<Rightarrow> filter_action list" where
  "flush_filtered filtered = (if filtered \<noteq> [] then [Forward filtered] else [])"

text \<open>The loop of \<open>process\<close> on the bytes from position \<open>i\<close> on; the result is the actions and the carry.\<close>

fun filter_loop :: "bytes \<Rightarrow> bytes \<Rightarrow> filter_action list \<times> bytes" where
  "filter_loop [] filtered = (flush_filtered filtered, [])"
| "filter_loop (b # rest) filtered =
     (if b \<noteq> ESC then filter_loop rest (filtered @ [b])
      else
        (case rest of
           [] \<Rightarrow> (flush_filtered filtered, [b])
         | c # rest2 \<Rightarrow>
             if c \<noteq> CHR ''['' then filter_loop rest2 (filtered @ [b, c])
             else
               (case rest2 of
                  [] \<Rightarrow> (flush_filtered filtered, [b, c])
                | d # rest3 \<Rightarrow>
                    if d = FOCUS_IN then
                      (let (acts, cr) = filter_loop rest3 [] in (flush_filtered filtered @ FocusIn # acts, cr))
                    else if d = FOCUS_OUT then filter_loop rest3 filtered
                    else filter_loop rest (filtered @ [b]))))"

definition filter_process :: "bytes \<Rightarrow> input_filter \<Rightarrow> filter_action list \<times> input_filter" where
  "filter_process input f =
     (let raw = carry f @ input in
      if DETACH_KEY \<in> set raw then
        (let before = takeWhile (\<lambda>b. b \<noteq> DETACH_KEY) raw
         in (flush_filtered before @ [DetachKey], f\<lparr>carry := []\<rparr>))
      else (let (acts, cr) = filter_loop raw [] in (acts, f\<lparr>carry := cr\<rparr>)))"

definition filter_flush :: "input_filter \<Rightarrow> filter_action option \<times> input_filter" where
  "filter_flush f = (if carry f = [] then (None, f) else (Some (Forward (carry f)), f\<lparr>carry := []\<rparr>))"

subsection \<open>Relays\<close>

text \<open>The messages for a list of actions, and whether the relay ends (it does after a detach).\<close>

fun send_actions :: "filter_action list \<Rightarrow> client_msg list \<times> bool" where
  "send_actions [] = ([], False)"
| "send_actions (Forward d # as) = (let (ms, fin) = send_actions as in (Input d # ms, fin))"
| "send_actions (DetachKey # as) = ([Detach], True)"
| "send_actions (FocusIn # as) = (let (ms, fin) = send_actions as in (RefreshScreen # ms, fin))"

text \<open>\<open>run_stdin_to_socket\<close>: an empty read is the end of input, \<open>Inl\<close> a failed read.\<close>

fun run_stdin_to_socket :: "read_result list \<Rightarrow> input_filter \<Rightarrow> client_msg list" where
  "run_stdin_to_socket [] f = []"
| "run_stdin_to_socket (Inl e # rds) f = []"
| "run_stdin_to_socket (Inr d # rds) f =
     (if d = [] then (case fst (filter_flush f) of Some (Forward c) \<Rightarrow> [Input c] | _ \<Rightarrow> [])
      else
        (let (acts, f) = filter_process d f; (ms, fin) = send_actions acts
         in ms @ (if fin then [] else run_stdin_to_socket rds f)))"

text \<open>The signal handler's messages for one change of the window size.\<close>

definition on_sigwinch :: "nat \<Rightarrow> nat \<Rightarrow> client_msg list" where
  "on_sigwinch c r = [Resize c r, RefreshScreen]"

datatype dispatch_result = Continue | Done

definition dispatch_server_msg :: "server_msg \<Rightarrow> bytes \<times> dispatch_result" where
  "dispatch_server_msg msg =
     (case msg of
        ScreenUpdate d \<Rightarrow> (d, Continue)
      | Passthrough d \<Rightarrow> (d, Continue)
      | History ls \<Rightarrow> (concat (map (\<lambda>l. l @ [CHR 0x0D, CHR 0x0A]) ls), Continue)
      | SessionEnded \<Rightarrow> ([], Done)
      | Error e \<Rightarrow> ([], Done)
      | _ \<Rightarrow> ([], Continue))"

text \<open>\<open>while let Some(msg) = frames.decode_next()?\<close> with its dispatch; \<open>True\<close> is the early return.\<close>

fun dispatch_all :: "nat \<Rightarrow> server_msg deserializer \<Rightarrow> frame_reader \<Rightarrow> ((protocol_error + bool) \<times> bytes \<times> frame_reader) option" where
  "dispatch_all 0 de fr = None"
| "dispatch_all (Suc n) de fr =
     do { (m, fr) \<leftarrow> decode_next de fr;
          case m of
            Inl e \<Rightarrow> Some (Inl e, [], fr)
          | Inr None \<Rightarrow> Some (Inr False, [], fr)
          | Inr (Some msg) \<Rightarrow>
              (case dispatch_server_msg msg of
                 (out, Done) \<Rightarrow> Some (Inr True, out, fr)
               | (out, Continue) \<Rightarrow>
                   do { (r, out', fr) \<leftarrow> dispatch_all n de fr; Some (r, out @ out', fr) }) }"

definition dispatch_drain :: "server_msg deserializer \<Rightarrow> frame_reader \<Rightarrow> ((protocol_error + bool) \<times> bytes \<times> frame_reader) option" where
  "dispatch_drain de fr = dispatch_all (Suc (length (read_buf fr))) de fr"

fun socket_loop :: "server_msg deserializer \<Rightarrow> read_result list \<Rightarrow> frame_reader \<Rightarrow> bytes option" where
  "socket_loop de [] fr = Some []"
| "socket_loop de (rd # rds) fr =
     do { (r, fr) \<leftarrow> fill_from rd fr;
          case r of
            Inl e \<Rightarrow> Some []
          | Inr False \<Rightarrow> Some []
          | Inr True \<Rightarrow>
              do { (r, out, fr) \<leftarrow> dispatch_drain de fr;
                   case r of
                     Inr False \<Rightarrow> do { out' \<leftarrow> socket_loop de rds fr; Some (out @ out') }
                   | _ \<Rightarrow> Some out } }"

definition run_socket_to_stdout :: "server_msg deserializer \<Rightarrow> bytes \<Rightarrow> read_result list \<Rightarrow> bytes option" where
  "run_socket_to_stdout de leftover rds =
     do { (r, out, fr) \<leftarrow> dispatch_drain de (with_leftover leftover);
          case r of
            Inr False \<Rightarrow> do { out' \<leftarrow> socket_loop de rds fr; Some (out @ out') }
          | _ \<Rightarrow> Some out }"

subsection \<open>Handshake, clean-up, requests\<close>

datatype handshake = HsWaiting | HsFailed bytes | HsProtocol protocol_error | HsConnected bytes bool bytes

text \<open>The loop of \<open>connect\<close> up to \<open>into_leftover\<close>; the last argument of \<open>HsConnected\<close> is the leftover.\<close>

fun await_connected :: "server_msg deserializer \<Rightarrow> read_result list \<Rightarrow> frame_reader \<Rightarrow> handshake option" where
  "await_connected de [] fr = Some HsWaiting"
| "await_connected de (rd # rds) fr =
     do { (r, fr) \<leftarrow> fill_from rd fr;
          case r of
            Inl e \<Rightarrow> Some (HsProtocol e)
          | Inr False \<Rightarrow> Some (HsFailed ''server closed connection before handshake completed'')
          | Inr True \<Rightarrow>
              do { (m, fr) \<leftarrow> decode_next de fr;
                   case m of
                     Inl e \<Rightarrow> Some (HsProtocol e)
                   | Inr None \<Rightarrow> await_connected de rds fr
                   | Inr (Some (Connected nm new)) \<Rightarrow> do { l \<leftarrow> into_leftover fr; Some (HsConnected nm new l) }
                   | Inr (Some (Error e)) \<Rightarrow> Some (HsFailed e)
                   | Inr (Some _) \<Rightarrow> Some (HsFailed ''unexpected response from server'') } }"

definition enable_focus :: bytes where
  "enable_focus = ESC # ''[?1004h''"

definition cleanup_terminal :: bytes where
  "cleanup_terminal =
     (ESC # ''[r'') @ (ESC # ''[2J'') @ (ESC # ''[H'') @ (ESC # ''[?25h'') @ (ESC # ''[?7h'') @ (ESC # ''[?1l'')
     @ (ESC # ''[?2004l'') @ (ESC # ''[?1000l'') @ (ESC # ''[?1002l'') @ (ESC # ''[?1003l'')
     @ (ESC # ''[?1005l'') @ (ESC # ''[?1006l'') @ (ESC # ''[?1004l'') @ (ESC # ''[?2026l'')
     @ (ESC # ''>'') @ (ESC # ''[0 q'') @ (ESC # ''[0m'')"

text \<open>The answers to \<open>list\<close> and \<open>kill\<close>: the lines printed, or the error.\<close>

definition session_line :: "session_info \<Rightarrow> bytes" where
  "session_line si = si_name si @ '' ('' @ write_u16 (si_cols si) @ ''x'' @ write_u16 (si_rows si) @ '')''"

definition list_sessions_answer :: "server_msg \<Rightarrow> bytes + bytes list" where
  "list_sessions_answer resp =
     (case resp of
        SessionList ss \<Rightarrow> Inr (if ss = [] then [''No active sessions''] else map session_line ss)
      | Error e \<Rightarrow> Inl e
      | _ \<Rightarrow> Inl ''unexpected server response'')"

definition kill_session_answer :: "server_msg \<Rightarrow> bytes + bytes" where
  "kill_session_answer resp =
     (case resp of SessionKilled n \<Rightarrow> Inr n | Error e \<Rightarrow> Inl e | _ \<Rightarrow> Inl ''unexpected server response'')"

subsection \<open>The filter does not depend on how input is cut into reads\<close>

text \<open>The actions as one sequence of events: a forwarded byte, or a gain of focus.\<close>

datatype event = Key byte | Focus

fun events :: "filter_action list \<Rightarrow> event list" where
  "events [] = []"
| "events (Forward d # as) = map Key d @ events as"
| "events (FocusIn # as) = Focus # events as"
| "events (DetachKey # as) = events as"

lemma events_append: "events (as @ bs) = events as @ events bs"
  by (induction as rule: events.induct) simp_all

lemma events_flush [simp]: "events (flush_filtered d) = map Key d"
  by (simp add: flush_filtered_def)

text \<open>The reference: the events of a whole input, and the incomplete sequence at its end.\<close>

fun scan :: "bytes \<Rightarrow> event list \<times> bytes" where
  "scan [] = ([], [])"
| "scan (b # rest) =
     (if b \<noteq> ESC then apfst ((#) (Key b)) (scan rest)
      else
        (case rest of
           [] \<Rightarrow> ([], [b])
         | c # rest2 \<Rightarrow>
             if c \<noteq> CHR ''['' then apfst (append [Key b, Key c]) (scan rest2)
             else
               (case rest2 of
                  [] \<Rightarrow> ([], [b, c])
                | d # rest3 \<Rightarrow>
                    if d = FOCUS_IN then apfst ((#) Focus) (scan rest3)
                    else if d = FOCUS_OUT then scan rest3
                    else apfst ((#) (Key b)) (scan rest))))"

declare scan.simps(2) [simp del] filter_loop.simps(2) [simp del]

text \<open>The shapes an input can have, with the step of \<open>scan\<close> and of the loop for each.\<close>

lemma input_cases:
  obtains "xs = []" | b r where "xs = b # r" "b \<noteq> ESC" | "xs = [ESC]"
    | c r where "xs = ESC # c # r" "c \<noteq> CHR ''[''" | "xs = [ESC, CHR ''['']"
    | r where "xs = ESC # CHR ''['' # FOCUS_IN # r" | r where "xs = ESC # CHR ''['' # FOCUS_OUT # r"
    | d r where "xs = ESC # CHR ''['' # d # r" "d \<noteq> FOCUS_IN" "d \<noteq> FOCUS_OUT"
  by (metis neq_Nil_conv)

lemma scan_steps [simp]:
  "b \<noteq> ESC \<Longrightarrow> scan (b # r) = apfst ((#) (Key b)) (scan r)"
  "scan [ESC] = ([], [ESC])"
  "c \<noteq> CHR ''['' \<Longrightarrow> scan (ESC # c # r) = apfst (append [Key ESC, Key c]) (scan r)"
  "scan [ESC, CHR ''['' ] = ([], [ESC, CHR ''[''])"
  "scan (ESC # CHR ''['' # FOCUS_IN # r) = apfst ((#) Focus) (scan r)"
  "scan (ESC # CHR ''['' # FOCUS_OUT # r) = scan r"
  "d \<noteq> FOCUS_IN \<Longrightarrow> d \<noteq> FOCUS_OUT \<Longrightarrow> scan (ESC # CHR ''['' # d # r) = apfst ((#) (Key ESC)) (scan (CHR ''['' # d # r))"
  by (simp_all add: scan.simps(2)[of ESC] scan.simps(2)[of b])

lemma filter_loop_steps:
  "b \<noteq> ESC \<Longrightarrow> filter_loop (b # r) f = filter_loop r (f @ [b])"
  "filter_loop [ESC] f = (flush_filtered f, [ESC])"
  "c \<noteq> CHR ''['' \<Longrightarrow> filter_loop (ESC # c # r) f = filter_loop r (f @ [ESC, c])"
  "filter_loop [ESC, CHR ''['' ] f = (flush_filtered f, [ESC, CHR ''[''])"
  "filter_loop (ESC # CHR ''['' # FOCUS_IN # r) f =
     apfst (append (flush_filtered f @ [FocusIn])) (filter_loop r [])"
  "filter_loop (ESC # CHR ''['' # FOCUS_OUT # r) f = filter_loop r f"
  "d \<noteq> FOCUS_IN \<Longrightarrow> d \<noteq> FOCUS_OUT \<Longrightarrow>
     filter_loop (ESC # CHR ''['' # d # r) f = filter_loop (CHR ''['' # d # r) (f @ [ESC])"
  by (simp_all add: filter_loop.simps(2)[of ESC] filter_loop.simps(2)[of b] case_prod_beta prod_eq_iff)

lemma ESC_neq [simp]: "CHR ''['' \<noteq> ESC"
  by (simp add: ESC_def)

lemma filter_loop_scan:
  "events (fst (filter_loop raw flt)) = map Key flt @ fst (scan raw) \<and> snd (filter_loop raw flt) = snd (scan raw)"
proof (induction raw arbitrary: flt rule: length_induct)
  case (1 raw)
  then show ?case
    by (cases raw rule: input_cases) (simp_all add: filter_loop_steps events_append)
qed

lemma scan_append: "scan (xs @ ys) = apfst (append (fst (scan xs))) (scan (snd (scan xs) @ ys))"
proof (induction xs rule: length_induct)
  case (1 xs)
  then show ?case
    using 1[rule_format, of "tl (tl xs)"]
    by (cases xs rule: input_cases) (simp_all add: prod_eq_iff)
qed

lemma filter_process_events:
  assumes "DETACH_KEY \<notin> set (carry f @ input)"
  shows "events (fst (filter_process input f)) = fst (scan (carry f @ input))"
    "carry (snd (filter_process input f)) = snd (scan (carry f @ input))"
  using assms filter_loop_scan[of "carry f @ input" "[]"]
  by (simp_all add: filter_process_def Let_def case_prod_beta)

lemma filter_loop_no_detach: "DetachKey \<notin> set (fst (filter_loop raw flt))"
proof (induction raw arbitrary: flt rule: length_induct)
  case (1 raw)
  then show ?case
    by (cases raw rule: input_cases) (simp_all add: filter_loop_steps flush_filtered_def)
qed

lemma scan_carry_set: "set (snd (scan xs)) \<subseteq> {ESC, CHR ''[''}"
proof (induction xs rule: length_induct)
  case (1 xs)
  then show ?case by (cases xs rule: input_cases) simp_all
qed

text \<open>Several reads in a row, and their actions together.\<close>

fun filter_reads :: "bytes list \<Rightarrow> input_filter \<Rightarrow> filter_action list \<times> input_filter" where
  "filter_reads [] f = ([], f)"
| "filter_reads (d # ds) f =
     (let (a, f) = filter_process d f; (as, f) = filter_reads ds f in (a @ as, f))"

lemma filter_reads_events:
  assumes "DETACH_KEY \<notin> set (concat ds)" "DETACH_KEY \<notin> set (carry f)" "scan (carry f) = ([], carry f)"
  shows "events (fst (filter_reads ds f)) = fst (scan (carry f @ concat ds))
    \<and> carry (snd (filter_reads ds f)) = snd (scan (carry f @ concat ds))"
  using assms
proof (induction ds arbitrary: f)
  case (Cons d ds)
  obtain a f1 where p: "filter_process d f = (a, f1)" by fastforce
  have 1: "events a = fst (scan (carry f @ d))" "carry f1 = snd (scan (carry f @ d))"
    using filter_process_events[of f d] Cons.prems p by simp_all
  have "set (carry f1) \<subseteq> {ESC, CHR ''[''}" using scan_carry_set 1(2) by simp
  then have no: "DETACH_KEY \<notin> set (carry f1)" by (auto simp: ESC_def)
  have idem: "scan (carry f1) = ([], carry f1)"
    using scan_append[of "carry f @ d" "[]"] 1(2)
    by (cases "scan (snd (scan (carry f @ d)))") (simp add: prod_eq_iff)
  show ?case
    using Cons.IH[of f1] Cons.prems no idem 1 scan_append[of "carry f @ d" "concat ds"]
    by (simp add: p case_prod_beta events_append)
qed simp

subsection \<open>What the client shows\<close>

fun client_shows :: "server_msg list \<Rightarrow> bytes \<times> bool" where
  "client_shows [] = ([], False)"
| "client_shows (m # ms) =
     (case dispatch_server_msg m of
        (out, Done) \<Rightarrow> (out, True)
      | (out, Continue) \<Rightarrow> apfst (append out) (client_shows ms))"

lemma client_shows_append:
  "client_shows (ms @ ns) = (if snd (client_shows ms) then client_shows ms
     else apfst (append (fst (client_shows ms))) (client_shows ns))"
  by (induction ms) (auto simp: prod_eq_iff split: prod.splits dispatch_result.splits)

lemma dispatch_all_decode:
  assumes "decode_all n de fr = Some (Inr (), ms, fr')"
  shows "\<exists>fr''. dispatch_all n de fr = Some (Inr (snd (client_shows ms)), fst (client_shows ms), fr'')
    \<and> (\<not> snd (client_shows ms) \<longrightarrow> fr'' = fr')"
  using assms
proof (induction n arbitrary: fr ms)
  case (Suc n)
  obtain m fr1 where m: "decode_next de fr = Some (m, fr1)"
    using Suc.prems by (cases "decode_next de fr") auto
  show ?case
  proof (cases m)
    case (Inl e)
    then show ?thesis using Suc.prems m by simp
  next
    case (Inr o')
    show ?thesis
    proof (cases o')
      case None
      then show ?thesis using Suc.prems m Inr by auto
    next
      case (Some x)
      obtain ms' where ms': "ms = x # ms'" "decode_all n de fr1 = Some (Inr (), ms', fr')"
        using Suc.prems m Inr Some by (cases "decode_all n de fr1") auto
      obtain out res where d: "dispatch_server_msg x = (out, res)" by fastforce
      show ?thesis
        using Suc.IH[OF ms'(2)] m Inr Some ms'(1) d by (cases res) auto
    qed
  qed
qed simp

lemma socket_loop_pump:
  assumes "pump de (map Inr parts) fr = Some (Inr (), ms, fr')" "list_all (\<lambda>d. d \<noteq> []) parts"
  shows "socket_loop de (map Inr parts) fr = Some (fst (client_shows ms))"
  using assms
proof (induction parts arbitrary: fr ms)
  case (Cons d parts)
  obtain r fr1 where fill: "fill_from (Inr d) fr = Some (r, fr1)"
    using Cons.prems(1) by (cases "fill_from (Inr d) fr") auto
  have "r = Inr True"
  proof -
    have "r \<noteq> Inr False" using fill Cons.prems(2) by (auto simp: fill_from_def Let_def split: if_splits bind_splits)
    moreover have "\<not> (\<exists>e. r = Inl e)" using Cons.prems(1) fill by (auto split: sum.splits)
    ultimately show ?thesis by (cases r) auto
  qed
  note fill = fill[unfolded this]
  obtain r2 ms1 fr2 where dr: "drain de fr1 = Some (r2, ms1, fr2)"
    using Cons.prems(1) fill by (cases "drain de fr1") auto
  have "\<exists>ms2. r2 = Inr () \<and> ms = ms1 @ ms2 \<and> pump de (map Inr parts) fr2 = Some (Inr (), ms2, fr')"
    using Cons.prems(1) fill dr by (cases r2; cases "pump de (map Inr parts) fr2") auto
  then obtain ms2 where p: "r2 = Inr ()" "ms = ms1 @ ms2" "pump de (map Inr parts) fr2 = Some (Inr (), ms2, fr')"
    by blast
  have "drain de fr1 = Some (Inr (), ms1, fr2)" using dr p(1) by simp
  then obtain fr3 where "dispatch_drain de fr1 = Some (Inr (snd (client_shows ms1)), fst (client_shows ms1), fr3)"
    "\<not> snd (client_shows ms1) \<longrightarrow> fr3 = fr2"
    unfolding drain_def dispatch_drain_def by (blast dest: dispatch_all_decode)
  then show ?case
    using fill Cons.IH[OF p(3)] Cons.prems(2) p(2) by (auto simp: client_shows_append split: bool.split)
qed simp

lemma run_socket_to_stdout_wire:
  assumes c: "codec_ok ser de" and enc: "list_all (encodable ser) ms"
    and w: "leftover @ concat parts = wire ser ms"
    and ch: "list_all (\<lambda>d. d \<noteq> [] \<and> length d \<le> READ_BUF_SIZE) parts"
  shows "run_socket_to_stdout de leftover (map Inr parts) = Some (fst (client_shows ms))"
proof -
  let ?fr = "with_leftover leftover"
  obtain ms1 ms2 p where s: "ms = ms1 @ ms2" "leftover = wire ser ms1 @ p" "p @ concat parts = wire ser ms2"
    "decode_frame p = Inr None"
    using wire_prefix[OF c enc w] by blast
  have e: "list_all (encodable ser) ms1" "list_all (encodable ser) ms2" using enc s(1) by auto
  have fuel: "length ms1 < Suc (length (read_buf ?fr))"
    using wire_length[OF c e(1)] arg_cong[OF s(2), of length] by (simp add: with_leftover_def)
  have "returns (drain de ?fr) (\<lambda>(r, ms', fr'). r = Inr () \<and> ms' = ms1 \<and> fr_ok fr' \<and> unread fr' = p)"
    unfolding drain_def using s(2,4) fuel
    by (intro decode_all_wire[OF c e(1)]) (auto simp: fr_ok_def unread_def with_leftover_def)
  then obtain fr1 where dr: "drain de ?fr = Some (Inr (), ms1, fr1)" "fr_ok fr1" "unread fr1 = p"
    by (auto elim!: returnsE)
  obtain fr2 where "pump de (map Inr parts) fr1 = Some (Inr (), ms2, fr2)"
    using pump_wire[OF c e(2), of fr1 parts] dr s(3,4) ch by (auto simp: idle_def elim!: returnsE)
  then have loop: "socket_loop de (map Inr parts) fr1 = Some (fst (client_shows ms2))"
    using ch by (intro socket_loop_pump) (auto simp: list_all_iff)
  obtain fr3 where "dispatch_drain de ?fr = Some (Inr (snd (client_shows ms1)), fst (client_shows ms1), fr3)"
    "\<not> snd (client_shows ms1) \<longrightarrow> fr3 = fr1"
    using dr(1) unfolding drain_def dispatch_drain_def by (blast dest: dispatch_all_decode)
  then show ?thesis
    using loop s(1) by (auto simp: run_socket_to_stdout_def client_shows_append split: bool.split)
qed

subsection \<open>The clean-up\<close>

text \<open>The clean-up as actions of a terminal, again with the emulator as the terminal.\<close>

definition cleanup_screen :: "action list" where
  "cleanup_screen = [csi [] CHR ''r'', csi [[2]] CHR ''J'', csi [] CHR ''H'']"

definition cleanup_modes :: "action list" where
  "cleanup_modes = dec_act 25 True @ dec_act 7 True @ dec_act 1 False @ dec_act 2004 False @ dec_act 1000 False
     @ dec_act 1002 False @ dec_act 1003 False @ dec_act 1005 False @ dec_act 1006 False @ dec_act 1004 False
     @ dec_act 2026 False @ keypad_act False @ shape_act ShapeDefault @ [csi [[0]] CHR ''m'']"

lemma digit_chars:
  "digit 0 = CHR ''0''" "digit 1 = CHR ''1''" "digit (Suc 0) = CHR ''1''" "digit 2 = CHR ''2''" "digit 3 = CHR ''3''"
  "digit 4 = CHR ''4''" "digit 5 = CHR ''5''" "digit 6 = CHR ''6''" "digit 7 = CHR ''7''"
  by code_simp+

lemma write_u16_cleanup:
  "write_u16 25 = ''25''" "write_u16 7 = ''7''" "write_u16 1 = ''1''" "write_u16 2004 = ''2004''"
  "write_u16 1000 = ''1000''" "write_u16 1002 = ''1002''" "write_u16 1003 = ''1003''" "write_u16 1004 = ''1004''"
  "write_u16 2026 = ''2026''" "write_u16 0 = ''0''" "write_u16 2 = ''2''"
  by (simp_all add: write_u16_def digit_chars)

lemma cleanup_emit:
  "text_of (cleanup_screen) = (ESC # ''[r'') @ (ESC # ''[2J'') @ (ESC # ''[H'')"
  "text_of [csi [[0]] CHR ''m''] = ESC # ''[0m''" "emit_keypad False = ESC # ''>''"
  by (simp_all only: cleanup_screen_def list.map concat.simps act_bytes.simps csi_text_simps write_u16_cleanup emit_keypad_def if_False
      append_Cons append_Nil append_Nil2 list.distinct)

lemma cleanup_shape: "emit_cursor_shape ShapeDefault = ESC # ''[0 q''"
  by code_simp

lemma cleanup_text: "text_of (cleanup_screen @ cleanup_modes) = cleanup_terminal"
  by (simp only: cleanup_modes_def map_append concat_append act_text cleanup_emit cleanup_shape
      cleanup_terminal_def emit_dec_mode_def write_u16_cleanup write_u16_codes if_True if_False append_Cons append_Nil append_assoc)

text \<open>The modes a detached terminal is left in; origin mode and character sets are not reset.\<close>

definition cleaned :: "terminal_modes \<Rightarrow> terminal_modes" where
  "cleaned p = terminal_modes_default\<lparr>origin_mode := origin_mode p, g0_charset := g0_charset p,
     g1_charset := g1_charset p, active_charset := active_charset p\<rparr>"

text \<open>What the clean-up sets on a screen: its modes, the cursor's visibility and the style.\<close>

definition dress :: "terminal_modes \<times> bool \<times> style \<Rightarrow> screen_t \<Rightarrow> screen_t" where
  "dress = (\<lambda>(m, v, sty) s. s\<lparr>grid := (grid s)\<lparr>modes := m, cursor_visible := v\<rparr>,
     state := (state s)\<lparr>current_style := sty\<rparr>\<rparr>)"

definition tunes :: "(rchar \<Rightarrow> nat option) \<Rightarrow> action list \<Rightarrow> terminal_modes \<times> bool \<times> style \<Rightarrow> terminal_modes \<times> bool \<times> style \<Rightarrow> bool" where
  "tunes cw as d d' \<longleftrightarrow> (\<forall>s. foldm (perform cw) as (dress d s) = Some (dress d' s))"

lemma tunes_append: "tunes cw as d e \<Longrightarrow> tunes cw bs e f \<Longrightarrow> tunes cw (as @ bs) d f"
  by (simp add: tunes_def foldm_append)

lemma tunes_cong: "tunes cw as d e \<Longrightarrow> e = e' \<Longrightarrow> tunes cw as d e'"
  by simp

lemma tunes_dec:
  "tunes cw (dec_act 1 b) (m, v, sty) (m\<lparr>cursor_key_mode := b\<rparr>, v, sty)"
  "tunes cw (dec_act 7 b) (m, v, sty) (m\<lparr>autowrap_mode := b\<rparr>, v, sty)"
  "tunes cw (dec_act 2004 b) (m, v, sty) (m\<lparr>bracketed_paste := b\<rparr>, v, sty)"
  "tunes cw (dec_act 1000 b) (m, v, sty) (m\<lparr>mouse_modes := (mouse_modes m)\<lparr>click := b\<rparr>\<rparr>, v, sty)"
  "tunes cw (dec_act 1002 b) (m, v, sty) (m\<lparr>mouse_modes := (mouse_modes m)\<lparr>button := b\<rparr>\<rparr>, v, sty)"
  "tunes cw (dec_act 1003 b) (m, v, sty) (m\<lparr>mouse_modes := (mouse_modes m)\<lparr>any_motion := b\<rparr>\<rparr>, v, sty)"
  "tunes cw (dec_act 1004 b) (m, v, sty) (m\<lparr>focus_reporting := b\<rparr>, v, sty)"
  "tunes cw (dec_act 1005 b) (m, v, sty) (m\<lparr>mouse_encoding := (if b then Utf8Enc else X10)\<rparr>, v, sty)"
  "tunes cw (dec_act 1006 b) (m, v, sty) (m\<lparr>mouse_encoding := (if b then Sgr else X10)\<rparr>, v, sty)"
  "tunes cw (dec_act 2026 b) (m, v, sty) (m, v, sty)"
  "tunes cw (dec_act 25 b) (m, v, sty) (m, b, sty)"
  by (auto simp: tunes_def dress_def dec_act_def csi_dispatch_def csi_set_dec_private_mode_def dec_private_mode_def
      on_grid_def Let_def mouse_modes_set_def mouse_encoding_from_param_def)

lemma tunes_other:
  "tunes cw (keypad_act b) (m, v, sty) (m\<lparr>keypad_app_mode := b\<rparr>, v, sty)"
  "tunes cw (shape_act sh) (m, v, sty) (m\<lparr>cursor_shape := sh\<rparr>, v, sty)"
  "tunes cw [csi [[0]] CHR ''m''] (m, v, sty) (m, v, style_default)"
proof -
  have "csi_param [[n]] 0 0 = n" for n by (simp add: csi_param_def)
  then show "tunes cw (shape_act sh) (m, v, sty) (m\<lparr>cursor_shape := sh\<rparr>, v, sty)"
    by (simp add: tunes_def dress_def shape_act_def csi_dispatch_def on_grid_def shape_param_inverse)
  show "tunes cw (keypad_act b) (m, v, sty) (m\<lparr>keypad_app_mode := b\<rparr>, v, sty)"
    by (simp add: tunes_def dress_def keypad_act_def esc_dispatch_def on_grid_def)
  show "tunes cw [csi [[0]] CHR ''m''] (m, v, sty) (m, v, style_default)"
    by (simp add: tunes_def dress_def csi_dispatch_def on_state_def apply_sgr_def apply_sgr_loop_flags)
qed

lemma cleanup_tunes: "tunes cw cleanup_modes (m, v, sty) (cleaned m, True, style_default)"
  unfolding cleanup_modes_def
  by (rule tunes_cong, (rule tunes_append tunes_dec tunes_other)+)
    (simp add: cleaned_def terminal_modes_default_def mouse_modes_default_def)

lemma dress_self: "s = dress (modes (grid s), cursor_visible (grid s), current_style (state s)) s"
  by (simp add: dress_def)

text \<open>The screen after the first three sequences.\<close>

definition row_blank :: "row \<Rightarrow> bool" where
  "row_blank r \<longleftrightarrow> list_all (\<lambda>cl. cell_c cl = 32 \<and> cell_width cl = 1) (row_cells r) \<and> combining r = []"

definition wiped :: "screen_t \<Rightarrow> screen_t \<Rightarrow> bool" where
  "wiped s s' \<longleftrightarrow> modes (grid s') = modes (grid s) \<and> cursor_pos (grid s') = (0, 0) \<and> \<not> wrap_pending (grid s')
     \<and> scroll_region (grid s') = (0, rows (grid s) - 1) \<and> length (visible_rows (grid s')) = rows (grid s)
     \<and> list_all row_blank (visible_rows (grid s'))"

lemma blank_cell_table:
  assumes "wf_at wd s"
  shows "returns (blank_cell s) (\<lambda>(cl, s'). (\<exists>t. s' = s\<lparr>grid := (grid s)\<lparr>style_table := t\<rparr>\<rparr>) \<and> wf_at wd s'
    \<and> live_cell (style_table (grid s')) cl \<and> cell_c cl = 32 \<and> cell_width cl = 1)"
proof -
  have "returns (blank_cell s) (\<lambda>(cl, s'). cell_c cl = 32 \<and> cell_width cl = 1)"
    using blank_cell_step[OF assms] by (auto simp: blank_cell_def cell_new_def elim!: returnsE split: prod.splits bind_splits)
  from returns_conj[OF blank_cell_step[OF assms] this] show ?thesis
  proof (rule returns_mono)
    fix x assume x: "(case x of (cl, s') \<Rightarrow> table_step s s' \<and> live_cell (style_table (grid s')) cl)
      \<and> (case x of (cl, s') \<Rightarrow> cell_c cl = 32 \<and> cell_width cl = 1)"
    obtain cl s' where c: "x = (cl, s')" by fastforce
    have t: "table_step s s'" using x c by simp
    then have "\<exists>t. s' = s\<lparr>grid := (grid s)\<lparr>style_table := t\<rparr>\<rparr>" by (auto simp: table_step_def)
    then show "case x of (cl, s') \<Rightarrow> (\<exists>t. s' = s\<lparr>grid := (grid s)\<lparr>style_table := t\<rparr>\<rparr>) \<and> wf_at wd s'
      \<and> live_cell (style_table (grid s')) cl \<and> cell_c cl = 32 \<and> cell_width cl = 1"
      using x c table_step_wf[OF assms t] by simp
  qed
qed

lemma cleanup_screen_wipes:
  assumes s: "wf_screen s"
  shows "returns (foldm (perform cw) cleanup_screen s) (wiped s)"
proof -
  define s1 where "s1 = s\<lparr>grid := (grid s)\<lparr>scroll_top := 0, scroll_bottom := rows (grid s) - 1, cursor_x := 0, cursor_y := 0, wrap_pending := False\<rparr>\<rparr>"
  note g = wf_screenD(2)[OF s]
  have 1: "csi_dispatch cw [] [] CHR ''r'' s = Some s1"
    using grid_okD(3)[OF g]
    by (simp add: s1_def csi_dispatch_def csi_set_scrolling_region_def try_grid_def csi_param_def Let_def usub_def Suc_leI)
  have s1: "wf_at (cols (grid s)) s1"
    using try_grid_ops_safe(7)[OF wf_at_self[OF s], of 1 "rows (grid s)"] 1 by (simp add: csi_dispatch_def csi_param_def)
  obtain cl t where b: "blank_cell s1 = Some (cl, s1\<lparr>grid := (grid s1)\<lparr>style_table := t\<rparr>\<rparr>)"
    "wf_at (cols (grid s)) (s1\<lparr>grid := (grid s1)\<lparr>style_table := t\<rparr>\<rparr>)" "live_cell t cl" "cell_c cl = 32" "cell_width cl = 1"
  proof (rule returnsE[OF blank_cell_table[OF s1]])
    fix x assume x: "blank_cell s1 = Some x" "case x of (cl, s') \<Rightarrow> (\<exists>t. s' = s1\<lparr>grid := (grid s1)\<lparr>style_table := t\<rparr>\<rparr>)
      \<and> wf_at (cols (grid s)) s' \<and> live_cell (style_table (grid s')) cl \<and> cell_c cl = 32 \<and> cell_width cl = 1"
    obtain cl s' where c: "x = (cl, s')" by fastforce
    obtain t where t: "s' = s1\<lparr>grid := (grid s1)\<lparr>style_table := t\<rparr>\<rparr>" using x(2) unfolding c by blast
    have l: "live_cell t cl" using x(2) unfolding c t by simp
    have w: "cell_c cl = 32" "cell_width cl = 1" "wf_at (cols (grid s)) s'" using x(2) unfolding c by blast+
    show thesis by (rule that[OF x(1)[unfolded c t] w(3)[unfolded t] l w(1,2)])
  qed
  let ?g = "(grid s1)\<lparr>style_table := t\<rparr>"
  have ok: "grid_ok (live_cell t) ?g" using wf_atD(2)[OF b(2)] by simp
  let ?e = "erase_rows_spec 0 (rows ?g) cl ?g"
  have e: "erase_rows 0 (rows ?g) cl ?g = Some ?e" by (rule erase_rows_eq(1)[OF ok b(3)])
  have 2: "csi_dispatch cw [[2]] [] CHR ''J'' s1 = Some (s1\<lparr>grid := ?e\<rparr>)"
    using e b(1) by (simp add: csi_dispatch_def csi_param_def csi_erase_display_def try_grid_def)
  have len: "length (cells ?g) = scrollback_len ?g + rows ?g" by (rule grid_okD(5)[OF ok])
  have vis: "drop (scrollback_len ?g) (cells ?e) = map (erase_row cl) (drop (scrollback_len ?g) (cells ?g))"
    by (rule erase_all_rows[OF len])
  have fr: "?e = ?g\<lparr>cells := cells ?e\<rparr>" by (rule erase_rows_spec_frame)
  define e' where "e' = cells ?e"
  have blank: "row_blank (erase_row cl r)" for r
    using b(4,5) by (simp add: row_blank_def erase_row_def clear_all_combining_def list_all_iff)
  have 3: "csi_dispatch cw [] [] CHR ''H'' (s1\<lparr>grid := ?g\<lparr>cells := e'\<rparr>\<rparr>) = Some (s1\<lparr>grid := ?g\<lparr>cells := e'\<rparr>\<rparr>)"
    using grid_okD(1,3)[OF g]
    by (auto simp: s1_def csi_dispatch_def csi_cursor_position_def try_grid_def csi_param_def Let_def usub_def sat_add16_def)
  have "foldm (perform cw) cleanup_screen s = Some (s1\<lparr>grid := ?g\<lparr>cells := e'\<rparr>\<rparr>)"
    using 1 2 3 fr by (simp add: cleanup_screen_def e'_def)
  moreover have "wiped s (s1\<lparr>grid := ?g\<lparr>cells := e'\<rparr>\<rparr>)"
    using vis len blank
    by (simp add: wiped_def s1_def visible_rows_def scroll_region_def cursor_pos_def e'_def list_all_iff)
  ultimately show ?thesis by simp
qed

lemma cleanup_result:
  assumes "wf_screen s"
  shows "returns (foldm (perform cw) (cleanup_screen @ cleanup_modes) s)
    (\<lambda>s'. modes (grid s') = cleaned (modes (grid s)) \<and> cursor_visible (grid s') \<and> current_style (state s') = style_default
      \<and> cursor_pos (grid s') = (0, 0) \<and> \<not> wrap_pending (grid s') \<and> scroll_region (grid s') = (0, rows (grid s) - 1)
      \<and> length (visible_rows (grid s')) = rows (grid s) \<and> list_all row_blank (visible_rows (grid s')))"
proof -
  have modes: "foldm (perform cw) cleanup_modes s1 = Some (dress (cleaned (modes (grid s1)), True, style_default) s1)" for s1
    using cleanup_tunes[of cw "modes (grid s1)" "cursor_visible (grid s1)" "current_style (state s1)"]
    by (metis tunes_def dress_self)
  show ?thesis
    using cleanup_screen_wipes[OF assms, of cw]
    by (auto simp: foldm_append modes wiped_def dress_def visible_rows_def scroll_region_def cursor_pos_def elim!: returns_mono)
qed

end
