(* ===== verification/Server.thy ===== *)
theory Server
  imports Session Client
begin

text \<open>
  \<open>src/src/server/\<close>: the setup of a connection (\<open>session_setup.rs\<close>), the initial state sent to a
  client (\<open>session_bridge.rs\<close>), the two relays (\<open>session_relay.rs\<close>), the dispatch of a connection
  (\<open>client_handler.rs\<close>) and the clean-up of sessions (\<open>mod.rs\<close>).

  What a task writes to its socket is the byte string it returns, next to its result; writes to the
  socket are taken to succeed. Failures of the pseudo-terminal are parameters: \<open>rz\<close> gives the error,
  if any, of resizing to a size, \<open>wr\<close> that of writing input. \<open>None\<close> is a panic. Time is left to the
  environment: a timer that fires is an event.
\<close>

datatype srv_error = Proto protocol_error | Srv bytes

type_synonym 'a sent = "bytes \<times> (srv_error + 'a)"

text \<open>\<open>writer.write_all(&protocol::encode(&msg)?)\<close>, for a sequence of messages.\<close>

fun send_all :: "server_msg serializer \<Rightarrow> server_msg list \<Rightarrow> unit sent" where
  "send_all ser [] = ([], Inr ())"
| "send_all ser (m # ms) =
     (case encode ser m of
        Inl e \<Rightarrow> ([], Inl (Proto e))
      | Inr d \<Rightarrow> (let (out, r) = send_all ser ms in (d @ out, r)))"

subsection \<open>Resizing\<close>

type_synonym resize_env = "terminal_size \<Rightarrow> bytes option"

text \<open>The first component is the result of the code; the second the session after it.\<close>

definition resize_pty :: "resize_env \<Rightarrow> nat \<Rightarrow> nat \<Rightarrow> 'p session_t \<Rightarrow> ((bytes + unit) \<times> 'p session_t) option" where
  "resize_pty rz c r s =
     (let sz = sanitize_dimensions c r in
      if screen_poisoned s then Some (Inl ''screen mutex poisoned'', s)
      else
        (case rz sz of
           Some e \<Rightarrow> Some (Inl e, s)
         | None \<Rightarrow>
             do { sc \<leftarrow> screen_resize (ts_cols sz) (ts_rows sz) (scr (screen s));
                  Some (Inr (), s\<lparr>pty := (pty s)\<lparr>master_size := sz\<rparr>, screen := (screen s)\<lparr>scr := sc\<rparr>\<rparr>) }))"

definition resize_session :: "resize_env \<Rightarrow> nat \<Rightarrow> nat \<Rightarrow> 'p session_t \<Rightarrow> ((bytes + unit) \<times> 'p session_t) option" where
  "resize_session rz c r s =
     do { (res, s) \<leftarrow> resize_pty rz c r s;
          Some (case res of
                  Inl e \<Rightarrow> (Inl e, s)
                | Inr _ \<Rightarrow> (Inr (), if dims_poisoned s then s else s\<lparr>dims := sanitize_dimensions c r\<rparr>)) }"

definition resize_or_sigwinch ::
  "resize_env \<Rightarrow> nat \<Rightarrow> nat \<Rightarrow> terminal_size \<Rightarrow> 'p session_t \<Rightarrow> ((bytes + unit) \<times> 'p session_t) option" where
  "resize_or_sigwinch rz c r cur s =
     (if ts_cols cur \<noteq> c \<or> ts_rows cur \<noteq> r then resize_session rz c r s
      else
        (let sz = sanitize_dimensions c r in
         Some (case rz sz of
                 Some e \<Rightarrow> (Inl e, s)
               | None \<Rightarrow> (Inr (), s\<lparr>pty := (pty s)\<lparr>master_size := sz\<rparr>\<rparr>))))"

subsection \<open>Setting up a connection\<close>

datatype setup_result = Refused bytes | SetupFailed bytes | Ready nat bool

text \<open>The session of the request, or the error that is sent to the client.\<close>

definition acquire ::
  "(nat \<Rightarrow> nat \<Rightarrow> bytes + pty_t) \<Rightarrow> 'p \<Rightarrow> bytes \<Rightarrow> nat \<Rightarrow> nat \<Rightarrow> nat \<Rightarrow> connect_mode \<Rightarrow> 'p manager \<Rightarrow> (bytes + 'p session_t \<times> bool) \<times> 'p manager" where
  "acquire spawn p0 nm history c r mode m =
     (case mode of
        CreateOrAttach \<Rightarrow> get_or_create spawn p0 nm c r history m
      | CreateOnly \<Rightarrow>
          if get nm m \<noteq> None then (Inl (''session '' @ quote_name nm @ '' already exists''), m)
          else
            (case create spawn p0 nm c r history m of
               (Inl e, m) \<Rightarrow> (Inl e, m)
             | (Inr _, m) \<Rightarrow>
                 (case get nm m of
                    Some s \<Rightarrow> (Inr (s, True), m)
                  | None \<Rightarrow> (Inl ''session disappeared after creation'', m)))
      | AttachOnly \<Rightarrow>
          (case get nm m of
             Some s \<Rightarrow> (Inr (s, False), m)
           | None \<Rightarrow> (Inl (''session '' @ quote_name nm @ '' not found''), m)))"

definition current_dims :: "'p session_t \<Rightarrow> terminal_size" where
  "current_dims s = (if dims_poisoned s then \<lparr>ts_cols = DEFAULT_COLS, ts_rows = DEFAULT_ROWS\<rparr> else dims s)"

definition setup_session ::
  "(watch \<Rightarrow> bool) \<Rightarrow> (nat \<Rightarrow> nat \<Rightarrow> bytes + pty_t) \<Rightarrow> 'p \<Rightarrow> resize_env \<Rightarrow> bytes \<Rightarrow> nat \<Rightarrow> nat \<Rightarrow> nat \<Rightarrow> connect_mode \<Rightarrow> 'p manager \<Rightarrow> (setup_result \<times> 'p manager) option" where
  "setup_session borrow spawn p0 rz nm history c r mode m =
     (case acquire spawn p0 nm history c r mode m of
        (Inl e, m) \<Rightarrow> Some (Refused e, m)
      | (Inr (s, is_new), m) \<Rightarrow>
          (let (ch, s) = session_connect s in
           if is_new then Some (Ready ch True, put_back nm s m)
           else
             do { (res, s) \<leftarrow> resize_or_sigwinch rz c r (current_dims s) s;
                  Some (case res of
                          Inr _ \<Rightarrow> (Ready ch False, put_back nm s m)
                        | Inl e \<Rightarrow>
                            (SetupFailed (''failed to resize/SIGWINCH on reattach to '' @ quote_name nm),
                             put_back nm (s\<lparr>attach := guard_drop borrow ch (attach s)\<rparr>) m)) }))"

text \<open>
  The manager's lock is held for the first part only. \<open>setup_locked\<close> is what happens under it,
  \<open>setup_resize\<close> what happens to the handles of a session that is not new after \<open>drop(mgr)\<close>, when other
  connections can already use the registry; \<open>setup_session\<close> is the one after the other
  (\<open>setup_session_split\<close>).
\<close>

definition setup_locked ::
  "(nat \<Rightarrow> nat \<Rightarrow> bytes + pty_t) \<Rightarrow> 'p \<Rightarrow> bytes \<Rightarrow> nat \<Rightarrow> nat \<Rightarrow> nat \<Rightarrow> connect_mode \<Rightarrow> 'p manager \<Rightarrow> setup_result \<times> 'p manager" where
  "setup_locked spawn p0 nm history c r mode m =
     (case acquire spawn p0 nm history c r mode m of
        (Inl e, m) \<Rightarrow> (Refused e, m)
      | (Inr (s, is_new), m) \<Rightarrow> (let (ch, s) = session_connect s in (Ready ch is_new, put_back nm s m)))"

definition setup_resize ::
  "(watch \<Rightarrow> bool) \<Rightarrow> resize_env \<Rightarrow> bytes \<Rightarrow> nat \<Rightarrow> nat \<Rightarrow> nat \<Rightarrow> 'p session_t \<Rightarrow> (setup_result \<times> 'p session_t) option" where
  "setup_resize borrow rz nm c r ch s =
     do { (res, s) \<leftarrow> resize_or_sigwinch rz c r (current_dims s) s;
          Some (case res of
                  Inr _ \<Rightarrow> (Ready ch False, s)
                | Inl e \<Rightarrow> (SetupFailed (''failed to resize/SIGWINCH on reattach to '' @ quote_name nm),
                            s\<lparr>attach := guard_drop borrow ch (attach s)\<rparr>)) }"

subsection \<open>The initial state\<close>

abbreviation BINCODE_LINE_OVERHEAD :: nat where "BINCODE_LINE_OVERHEAD \<equiv> 16"

definition prepend_passthrough :: "bytes list \<Rightarrow> bytes \<Rightarrow> bytes" where
  "prepend_passthrough passthrough render_data =
     (if passthrough = [] then render_data else concat passthrough @ render_data)"

text \<open>The loop that cuts the history into messages; \<open>chunk\<close> and \<open>chunk_size\<close> are its variables.\<close>

fun chunk_history :: "nat \<Rightarrow> bytes list \<Rightarrow> bytes list \<Rightarrow> nat \<Rightarrow> bytes list list" where
  "chunk_history limit [] chunk chunk_size = (if chunk \<noteq> [] then [chunk] else [])"
| "chunk_history limit (line # lines) chunk chunk_size =
     (let line_size = length line + BINCODE_LINE_OVERHEAD in
      if chunk_size + line_size > limit \<and> chunk \<noteq> []
      then chunk # chunk_history limit lines [line] line_size
      else chunk_history limit lines (chunk @ [line]) (chunk_size + line_size))"

definition history_messages :: "bytes list \<Rightarrow> server_msg list" where
  "history_messages lines = map History (chunk_history (MAX_FRAME_SIZE div 2) lines [] 0)"

text \<open>The bytes that push the history off the client's screen before the first frame.\<close>

definition flush_history :: "nat \<Rightarrow> bytes" where
  "flush_history n = ESC # ''['' @ write_u16 n @ '';1H'' @ replicate (n - 1) (CHR 0x0A)"

text \<open>The first critical section: the history, the first frame and the new cache.\<close>

definition initial_frame ::
  "(row \<Rightarrow> 64 word) \<Rightarrow> screen_t \<Rightarrow> ((bytes list \<times> bytes) \<times> render_cache \<times> screen_t) option" where
  "initial_frame H s =
     (let hist = (if in_alt_screen (state s) then [] else get_history s);
          (notifications, s) = take_queued_notifications s
      in do { (frame, cache) \<leftarrow> screen_render H True cache_new s;
              Some ((hist, concat notifications @ (if hist \<noteq> [] then flush_history (rows (grid s)) else []) @ frame),
                    cache, s) })"

text \<open>
  \<open>between\<close> is what the reader thread does to the screen between the two critical sections, while
  history is being written to the socket; \<open>None\<close> means that it panicked and poisoned the mutex.
\<close>

definition send_initial_state ::
  "server_msg serializer \<Rightarrow> (row \<Rightarrow> 64 word) \<Rightarrow> (screen_t \<Rightarrow> screen_t option) \<Rightarrow> bool \<Rightarrow> bool \<Rightarrow> bytes \<Rightarrow> screen_t \<Rightarrow> (render_cache sent \<times> screen_t) option" where
  "send_initial_state ser H between poisoned is_new nm s =
     (case encode ser (Connected nm is_new) of
        Inl e \<Rightarrow> Some (([], Inl (Proto e)), s)
      | Inr connected \<Rightarrow>
          if poisoned then Some ((connected, Inl (Srv ''screen mutex poisoned'')), s)
          else
            do { ((hist, render_data), cache, s) \<leftarrow> initial_frame H s;
                 Some (case encode ser (ScreenUpdate render_data) of
                         Inl e \<Rightarrow> ((connected, Inl (Proto e)), s)
                       | Inr screen_msg \<Rightarrow>
                           (case send_all ser (history_messages hist) of
                              (out, Inl e) \<Rightarrow> ((connected @ out, Inl e), s)
                            | (out, Inr _) \<Rightarrow>
                                (case between s of
                                   None \<Rightarrow> ((connected @ out @ screen_msg, Inl (Srv ''screen mutex poisoned'')), s)
                                 | Some s \<Rightarrow> ((connected @ out @ screen_msg, Inr cache), discard_pending s)))) })"

subsection \<open>Screen to client\<close>

definition render_and_send ::
  "server_msg serializer \<Rightarrow> (row \<Rightarrow> 64 word) \<Rightarrow> bool \<Rightarrow> render_cache \<Rightarrow> 'p session_t \<Rightarrow> (unit sent \<times> render_cache) option" where
  "render_and_send ser H full cache s =
     (if screen_poisoned s then Some (([], Inl (Srv ''screen mutex poisoned'')), cache)
      else
        do { (update, cache) \<leftarrow> screen_render H full cache (scr (screen s));
             Some (send_all ser [ScreenUpdate update], cache) })"

record relay =
  render_cache_of :: render_cache
  pending_render :: bool

text \<open>The branches of \<open>select!\<close>; \<open>EvictChanged\<close> carries whether \<open>changed()\<close> is \<open>Ok\<close>.\<close>

datatype relay_event = ScreenNotified | ThrottleElapsed | RefreshNotified | EvictChanged bool

text \<open>\<open>Inr True\<close> ends the relay, \<open>Inr False\<close> goes on.\<close>

definition update_client ::
  "server_msg serializer \<Rightarrow> (row \<Rightarrow> 64 word) \<Rightarrow> (bytes \<Rightarrow> server_msg list) \<Rightarrow> bool \<Rightarrow> relay \<Rightarrow> 'p session_t \<Rightarrow> (bool sent \<times> relay \<times> 'p session_t) option" where
  "update_client ser H msgs fin rl s =
     (if screen_poisoned s then Some (([], Inl (Srv ''screen mutex poisoned'')), rl, s)
      else
        do { ((render_data, passthrough), cache, sc) \<leftarrow> take_and_render H (render_cache_of rl) (scr (screen s));
             let rl = rl\<lparr>render_cache_of := cache\<rparr>;
             let s = s\<lparr>screen := (screen s)\<lparr>scr := sc\<rparr>\<rparr>;
             Some (case send_all ser (msgs (prepend_passthrough passthrough render_data)) of
                     (out, Inl e) \<Rightarrow> ((out, Inl e), rl, s)
                   | (out, Inr _) \<Rightarrow> ((out, Inr fin), if fin then rl else rl\<lparr>pending_render := False\<rparr>, s)) })"

definition relay_step ::
  "server_msg serializer \<Rightarrow> (row \<Rightarrow> 64 word) \<Rightarrow> relay_event \<Rightarrow> relay \<Rightarrow> 'p session_t \<Rightarrow> (bool sent \<times> relay \<times> 'p session_t) option" where
  "relay_step ser H ev rl s =
     (case ev of
        ScreenNotified \<Rightarrow>
          if \<not> reader_alive s then update_client ser H (\<lambda>u. [ScreenUpdate u, SessionEnded]) True rl s
          else Some (([], Inr False), rl\<lparr>pending_render := True\<rparr>, s)
      | ThrottleElapsed \<Rightarrow>
          if pending_render rl
          then update_client ser H (\<lambda>u. if u \<noteq> [] then [ScreenUpdate u] else []) False rl s
          else Some (([], Inr False), rl, s)
      | RefreshNotified \<Rightarrow>
          do { ((out, r), cache) \<leftarrow> render_and_send ser H True (render_cache_of rl) s;
               Some ((out, case r of Inl e \<Rightarrow> Inl e | Inr _ \<Rightarrow> Inr False), rl\<lparr>render_cache_of := cache\<rparr>, s) }
      | EvictChanged ok \<Rightarrow>
          (let (out, r) = send_all ser [if ok then Error ''evicted by new client'' else SessionEnded]
           in Some ((out, case r of Inl e \<Rightarrow> Inl e | Inr _ \<Rightarrow> Inr True), rl, s)))"

definition relay_start ::
  "server_msg serializer \<Rightarrow> (row \<Rightarrow> 64 word) \<Rightarrow> render_cache \<Rightarrow> 'p session_t \<Rightarrow> (bool sent \<times> relay) option" where
  "relay_start ser H cache s =
     (if \<not> reader_alive s then
        do { ((out, r), cache) \<leftarrow> render_and_send ser H True cache s;
             let rl = \<lparr>render_cache_of = cache, pending_render = False\<rparr>;
             Some (case r of
                     Inl e \<Rightarrow> ((out, Inl e), rl)
                   | Inr _ \<Rightarrow>
                       (let (out', r') = send_all ser [SessionEnded]
                        in ((out @ out', case r' of Inl e \<Rightarrow> Inl e | Inr _ \<Rightarrow> Inr True), rl))) }
      else Some (([], Inr False), \<lparr>render_cache_of = cache, pending_render = False\<rparr>))"

subsection \<open>Client to pseudo-terminal\<close>

text \<open>The relay's effects: the session, the input written, and the number of refresh requests.\<close>

record 'p input_state =
  i_session :: "'p session_t"
  i_written :: bytes
  i_refresh :: nat

datatype msg_result = MsgNext | MsgDetached | MsgError bytes

definition client_message ::
  "resize_env \<Rightarrow> (bytes \<Rightarrow> bytes option) \<Rightarrow> client_msg \<Rightarrow> 'p input_state \<Rightarrow> (msg_result \<times> 'p input_state) option" where
  "client_message rz wr msg st =
     (case msg of
        Input d \<Rightarrow>
          Some (case wr d of
                  Some e \<Rightarrow> (MsgError e, st)
                | None \<Rightarrow> (MsgNext, st\<lparr>i_written := i_written st @ d\<rparr>))
      | Resize c r \<Rightarrow>
          do { (res, s) \<leftarrow> resize_session rz c r (i_session st);
               let st = st\<lparr>i_session := s\<rparr>;
               Some (case res of Inl e \<Rightarrow> (MsgError e, st) | Inr _ \<Rightarrow> (MsgNext, st)) }
      | RefreshScreen \<Rightarrow> Some (MsgNext, st\<lparr>i_refresh := i_refresh st + 1\<rparr>)
      | Detach \<Rightarrow> Some (MsgDetached, st)
      | _ \<Rightarrow> Some (MsgNext, st))"

datatype relay_end = Open | Closed | Detached | RelayFailed bytes | BadFrame protocol_error

text \<open>\<open>while let Some(msg) = frames.decode_next()?\<close>; the fuel is as in \<open>Protocol\<close>.\<close>

fun serve_frames ::
  "nat \<Rightarrow> client_msg deserializer \<Rightarrow> resize_env \<Rightarrow> (bytes \<Rightarrow> bytes option) \<Rightarrow> frame_reader \<Rightarrow> 'p input_state \<Rightarrow> (relay_end \<times> frame_reader \<times> 'p input_state) option" where
  "serve_frames 0 de rz wr fr st = None"
| "serve_frames (Suc n) de rz wr fr st =
     do { (m, fr) \<leftarrow> decode_next de fr;
          case m of
            Inl e \<Rightarrow> Some (BadFrame e, fr, st)
          | Inr None \<Rightarrow> Some (Open, fr, st)
          | Inr (Some msg) \<Rightarrow>
              do { (r, st) \<leftarrow> client_message rz wr msg st;
                   case r of
                     MsgNext \<Rightarrow> serve_frames n de rz wr fr st
                   | MsgDetached \<Rightarrow> Some (Detached, fr, st)
                   | MsgError e \<Rightarrow> Some (RelayFailed e, fr, st) } }"

definition serve_drain ::
  "client_msg deserializer \<Rightarrow> resize_env \<Rightarrow> (bytes \<Rightarrow> bytes option) \<Rightarrow> frame_reader \<Rightarrow> 'p input_state \<Rightarrow> (relay_end \<times> frame_reader \<times> 'p input_state) option" where
  "serve_drain de rz wr fr st = serve_frames (Suc (length (read_buf fr))) de rz wr fr st"

fun client_to_pty_loop ::
  "client_msg deserializer \<Rightarrow> resize_env \<Rightarrow> (bytes \<Rightarrow> bytes option) \<Rightarrow> read_result list \<Rightarrow> frame_reader \<Rightarrow> 'p input_state \<Rightarrow> (relay_end \<times> 'p input_state) option" where
  "client_to_pty_loop de rz wr [] fr st = Some (Open, st)"
| "client_to_pty_loop de rz wr (rd # rds) fr st =
     do { (r, fr) \<leftarrow> fill_from rd fr;
          case r of
            Inl e \<Rightarrow> Some (BadFrame e, st)
          | Inr False \<Rightarrow> Some (Closed, st)
          | Inr True \<Rightarrow>
              do { (r, fr, st) \<leftarrow> serve_drain de rz wr fr st;
                   case r of Open \<Rightarrow> client_to_pty_loop de rz wr rds fr st | _ \<Rightarrow> Some (r, st) } }"

definition client_to_pty ::
  "client_msg deserializer \<Rightarrow> resize_env \<Rightarrow> (bytes \<Rightarrow> bytes option) \<Rightarrow> bytes \<Rightarrow> read_result list \<Rightarrow> 'p input_state \<Rightarrow> (relay_end \<times> 'p input_state) option" where
  "client_to_pty de rz wr leftover rds st = client_to_pty_loop de rz wr rds (with_leftover leftover) st"

subsection \<open>Dispatch of a connection\<close>

datatype connect_request = ConnectRequest bytes nat nat nat bytes connect_mode

datatype client_end = TimedOut | ClosedEarly | ReadFailed protocol_error | Answered | Bridge connect_request

definition answer_client :: "server_msg serializer \<Rightarrow> server_msg \<Rightarrow> client_end sent" where
  "answer_client ser m = (let (out, r) = send_all ser [m] in (out, case r of Inl e \<Rightarrow> Inl e | Inr _ \<Rightarrow> Inr Answered))"

text \<open>
  The first message. A session to be bridged is handed on with the bytes already read; a killed one is
  removed, its client is disconnected, and it is dropped.
\<close>

definition first_message ::
  "server_msg serializer \<Rightarrow> client_msg \<Rightarrow> bytes \<Rightarrow> 'p manager \<Rightarrow> client_end sent \<times> 'p session_t option \<times> 'p manager" where
  "first_message ser msg leftover m =
     (case msg of
        Connect nm history c r mode \<Rightarrow>
          (case validate_session_name nm of
             Inl e \<Rightarrow> (answer_client ser (Error e), None, m)
           | Inr _ \<Rightarrow> (([], Inr (Bridge (ConnectRequest nm history c r leftover mode))), None, m))
      | ListSessions \<Rightarrow> (answer_client ser (SessionList (list_all_sessions m)), None, m)
      | KillSession nm \<Rightarrow>
          (case validate_session_name nm of
             Inl e \<Rightarrow> (answer_client ser (Error e), None, m)
           | Inr _ \<Rightarrow>
               (case remove_session nm m of
                  (Some s, m) \<Rightarrow> (answer_client ser (SessionKilled nm), Some (snd (session_drop (session_disconnect s))), m)
                | (None, m) \<Rightarrow> (answer_client ser (Error (''session '' @ quote_name nm @ '' not found'')), None, m)))
      | _ \<Rightarrow> (answer_client ser (Error ''expected Connect, ListSessions, or KillSession''), None, m))"

text \<open>Running out of reads is the deadline; the timeout is the environment's.\<close>

fun handle_client ::
  "server_msg serializer \<Rightarrow> client_msg deserializer \<Rightarrow> read_result list \<Rightarrow> frame_reader \<Rightarrow> 'p manager \<Rightarrow> (client_end sent \<times> 'p session_t option \<times> 'p manager) option" where
  "handle_client ser de [] fr m = Some (([], Inr TimedOut), None, m)"
| "handle_client ser de (rd # rds) fr m =
     do { (r, fr) \<leftarrow> fill_from rd fr;
          case r of
            Inr False \<Rightarrow> Some (([], Inr ClosedEarly), None, m)
          | Inl e \<Rightarrow> Some (([], Inr (ReadFailed e)), None, m)
          | Inr True \<Rightarrow>
              do { (d, fr) \<leftarrow> decode_next de fr;
                   case d of
                     Inl e \<Rightarrow> Some (([], Inl (Proto e)), None, m)
                   | Inr None \<Rightarrow> handle_client ser de rds fr m
                   | Inr (Some msg) \<Rightarrow> do { l \<leftarrow> into_leftover fr; Some (first_message ser msg l m) } } }"

subsection \<open>Clean-up and shutdown\<close>

definition cleanup_tick :: "'p manager \<Rightarrow> 'p session_t list \<times> 'p manager" where
  "cleanup_tick m = (let (dead, m) = take_dead_sessions m in (map (snd \<circ> session_drop) dead, m))"

definition shutdown :: "'p manager \<Rightarrow> 'p session_t list \<times> 'p manager" where
  "shutdown m = (let (ss, m) = drain_all m in (map (snd \<circ> session_drop) ss, m))"

end
