(* ===== verification/Server_Facts.thy ===== *)
theory Server_Facts
  imports Server
begin

text \<open>
  Facts about the server: what it writes to a client and how the client shows it, what it does with a
  client's messages however they are cut into reads, and the state it keeps.
\<close>

subsection \<open>Sending\<close>

lemma encode_encodable: "codec_ok ser de \<Longrightarrow> encodable ser m \<Longrightarrow> encode ser m = Inr (frame_of ser m)"
  by (fastforce simp: encodable_def frame_of_def encode_def codec_ok_def split: sum.splits)

lemma send_all_wire:
  assumes "codec_ok ser de" "list_all (encodable ser) ms"
  shows "send_all ser ms = (wire ser ms, Inr ())"
  using assms(2) by (induction ms) (simp_all add: encode_encodable[OF assms(1)] wire_def)

subsection \<open>The history in messages\<close>

definition chunk_weight :: "bytes list \<Rightarrow> nat" where
  "chunk_weight ls = sum_list (map (\<lambda>l. length l + BINCODE_LINE_OVERHEAD) ls)"

lemma chunk_history_concat: "concat (chunk_history limit lines chunk n) = chunk @ lines"
  by (induction lines arbitrary: chunk n) (simp_all add: Let_def)

lemma chunk_history_bounded:
  assumes "n = chunk_weight chunk" "chunk_weight chunk \<le> limit \<or> length chunk \<le> 1"
  shows "\<forall>ch\<in>set (chunk_history limit lines chunk n). ch \<noteq> [] \<and> (chunk_weight ch \<le> limit \<or> length ch = 1)"
  using assms
proof (induction lines arbitrary: chunk n)
  case Nil
  then show ?case by (cases chunk) auto
next
  case (Cons l ls)
  have w: "chunk_weight [l] = length l + BINCODE_LINE_OVERHEAD"
    "chunk_weight (chunk @ [l]) = chunk_weight chunk + (length l + BINCODE_LINE_OVERHEAD)"
    by (simp_all add: chunk_weight_def)
  show ?case
  proof (cases "n + (length l + BINCODE_LINE_OVERHEAD) > limit \<and> chunk \<noteq> []")
    case True
    then have "chunk_weight chunk \<le> limit \<or> length chunk = 1" using Cons.prems(2) by (cases chunk) auto
    moreover have "\<forall>ch\<in>set (chunk_history limit ls [l] (chunk_weight [l])).
        ch \<noteq> [] \<and> (chunk_weight ch \<le> limit \<or> length ch = 1)"
      by (rule Cons.IH) simp_all
    ultimately show ?thesis using True unfolding w(1) by (auto simp: Let_def)
  next
    case False
    then have "chunk_weight (chunk @ [l]) \<le> limit \<or> length (chunk @ [l]) \<le> 1"
      using Cons.prems(1) w(2) by auto
    then have "\<forall>ch\<in>set (chunk_history limit ls (chunk @ [l]) (chunk_weight (chunk @ [l]))).
        ch \<noteq> [] \<and> (chunk_weight ch \<le> limit \<or> length ch = 1)"
      by (rule Cons.IH[OF refl])
    then show ?thesis using False Cons.prems(1) unfolding w(2) by (auto simp: Let_def)
  qed
qed

lemma history_shown:
  "client_shows (history_messages ls @ ms) =
     apfst (append (concat (map (\<lambda>l. l @ [CHR 0x0D, CHR 0x0A]) ls))) (client_shows ms)"
proof -
  have "client_shows (map History chs @ ms) =
     apfst (append (concat (map (\<lambda>l. l @ [CHR 0x0D, CHR 0x0A]) (concat chs)))) (client_shows ms)" for chs
    by (induction chs) (simp_all add: dispatch_server_msg_def prod_eq_iff)
  then show ?thesis by (simp add: history_messages_def chunk_history_concat)
qed

subsection \<open>The initial state\<close>

text \<open>The lines and the frame of the initial state, and the screen afterwards.\<close>

definition attach_lines :: "screen_t \<Rightarrow> bytes list" where
  "attach_lines s = (if in_alt_screen (state s) then [] else map (render_line (style_table (grid s))) (scrollback_rows (grid s)))"

lemma initial_frame_eq:
  assumes "wf_screen s"
  shows "returns (initial_frame H s) (\<lambda>((hist, data), cache, s'). hist = attach_lines s
    \<and> s' = snd (take_queued_notifications s) \<and> cache_synced H (grid s') (title (state s')) cache
    \<and> (\<exists>frame. Some (frame, cache) = screen_render H True cache_new s'
         \<and> data = concat (queued_notifications (state s)) @ (if hist \<noteq> [] then flush_history (rows (grid s)) else []) @ frame))"
proof -
  let ?s = "snd (take_queued_notifications s)"
  have "wf_screen ?s" using assms by (simp add: take_queue_safe)
  from render_screen_impl_returns[OF wf_screenD(2)[OF this], of H "title (state ?s)" "[]" True cache_new]
  have "returns (screen_render H True cache_new ?s) (\<lambda>(frame, cache). cache_synced H (grid ?s) (title (state ?s)) cache)"
    by (auto simp: screen_render_def render_screen_def elim!: returns_mono)
  then obtain frame cache where "screen_render H True cache_new ?s = Some (frame, cache)"
    "cache_synced H (grid ?s) (title (state ?s)) cache" by (auto elim!: returnsE)
  then show ?thesis
    by (simp add: initial_frame_def attach_lines_def get_history_def take_queued_notifications_def on_state_def Let_def)
qed

lemma send_initial_state_wire:
  assumes s: "wf_screen s" and c: "codec_ok ser de" and f: "initial_frame H s = Some ((hist, data), cache, s1)"
    and enc: "encodable ser (Connected nm is_new)" "encodable ser (ScreenUpdate data)"
      "list_all (encodable ser) (history_messages hist)"
    and b: "between s1 = Some s2"
  shows "send_initial_state ser H between False is_new nm s =
    Some ((wire ser (Connected nm is_new # history_messages hist @ [ScreenUpdate data]), Inr cache), discard_pending s2)"
  using f b send_all_wire[OF c enc(3)]
  by (simp add: send_initial_state_def encode_encodable[OF c enc(1)] encode_encodable[OF c enc(2)] wire_def)

subsection \<open>The client's messages\<close>

fun serve_messages ::
  "resize_env \<Rightarrow> (bytes \<Rightarrow> bytes option) \<Rightarrow> client_msg list \<Rightarrow> 'p input_state \<Rightarrow> (relay_end \<times> 'p input_state) option" where
  "serve_messages rz wr [] st = Some (Open, st)"
| "serve_messages rz wr (m # ms) st =
     do { (r, st) \<leftarrow> client_message rz wr m st;
          case r of
            MsgNext \<Rightarrow> serve_messages rz wr ms st
          | MsgDetached \<Rightarrow> Some (Detached, st)
          | MsgError e \<Rightarrow> Some (RelayFailed e, st) }"

lemma serve_messages_append:
  "serve_messages rz wr (ms @ ns) st =
     serve_messages rz wr ms st \<bind> (\<lambda>(r, st). if r = Open then serve_messages rz wr ns st else Some (r, st))"
proof (induction ms arbitrary: st)
  case (Cons m ms)
  show ?case
    by (cases "client_message rz wr m st") (auto simp: Cons split: msg_result.splits)
qed simp

lemma serve_frames_decode:
  assumes "decode_all n de fr = Some (Inr (), ms, fr')"
  shows "\<exists>f. serve_frames n de rz wr fr st = map_option (\<lambda>(r, st). (r, f r, st)) (serve_messages rz wr ms st) \<and> f Open = fr'"
  using assms
proof (induction n arbitrary: fr ms st)
  case (Suc n)
  obtain m fr1 where m: "decode_next de fr = Some (m, fr1)"
    using Suc.prems by (cases "decode_next de fr") auto
  consider "m = Inr None" | x where "m = Inr (Some x)"
    using Suc.prems m by (cases m) (auto split: option.splits)
  then show ?case
  proof cases
    case 1
    then show ?thesis using Suc.prems m by auto
  next
    case (2 x)
    obtain ms' where ms': "ms = x # ms'" "decode_all n de fr1 = Some (Inr (), ms', fr')"
      using Suc.prems m 2 by (cases "decode_all n de fr1") auto
    show ?thesis
    proof (cases "client_message rz wr x st")
      case None
      then show ?thesis using m 2 ms'(1) by auto
    next
      case (Some p)
      obtain r st1 where p: "p = (r, st1)" by fastforce
      obtain f where f: "serve_frames n de rz wr fr1 st1 = map_option (\<lambda>(r, st). (r, f r, st)) (serve_messages rz wr ms' st1)"
        "f Open = fr'" using Suc.IH[OF ms'(2)] by blast
      show ?thesis
      proof (cases "r = MsgNext")
        case True
        then show ?thesis using m 2 ms'(1) Some p f by (intro exI[of _ f]) simp
      next
        case False
        then show ?thesis
          using m 2 ms'(1) Some p by (intro exI[of _ "\<lambda>r. if r = Open then fr' else fr1"]) (auto split: msg_result.splits)
      qed
    qed
  qed
qed simp

lemma serve_drain_messages:
  assumes "drain de fr = Some (Inr (), ms, fr')"
  shows "\<exists>f. serve_drain de rz wr fr st = map_option (\<lambda>(r, st). (r, f r, st)) (serve_messages rz wr ms st) \<and> f Open = fr'"
  using serve_frames_decode assms unfolding drain_def serve_drain_def by blast

lemma serve_then:
  fixes st :: "'p input_state"
  assumes "drain de fr1 = Some (Inr (), ms1, fr2)"
    and "\<And>st :: 'p input_state. client_to_pty_loop de rz wr rds fr2 st = serve_messages rz wr ms2 st"
  shows "serve_drain de rz wr fr1 st \<bind>
      (\<lambda>(r, fr, st). case r of Open \<Rightarrow> client_to_pty_loop de rz wr rds fr st | _ \<Rightarrow> Some (r, st))
    = serve_messages rz wr (ms1 @ ms2) st"
proof -
  obtain f where f: "serve_drain de rz wr fr1 st = map_option (\<lambda>(r, st). (r, f r, st)) (serve_messages rz wr ms1 st)"
    "f Open = fr2" using serve_drain_messages[OF assms(1)] by blast
  show ?thesis
  proof (cases "serve_messages rz wr ms1 st")
    case (Some q)
    then show ?thesis
      using f by (cases q; cases "fst q") (simp_all add: assms(2) serve_messages_append)
  qed (simp add: f serve_messages_append)
qed

lemma serve_loop_pump:
  assumes "pump de (map Inr parts) fr = Some (Inr (), ms, fr')" "list_all (\<lambda>d. d \<noteq> []) parts"
  shows "client_to_pty_loop de rz wr (map Inr parts) fr st = serve_messages rz wr ms st"
  using assms
proof (induction parts arbitrary: fr ms st)
  case (Cons d parts)
  obtain r fr1 where fill: "fill_from (Inr d) fr = Some (r, fr1)"
    using Cons.prems(1) by (cases "fill_from (Inr d) fr") auto
  have "r \<noteq> Inr False" using fill Cons.prems(2) by (auto simp: fill_from_def Let_def split: if_splits bind_splits)
  moreover have "\<not> (\<exists>e. r = Inl e)" using Cons.prems(1) fill by (auto split: sum.splits)
  ultimately have r: "r = Inr True" by (cases r) auto
  obtain r2 ms1 fr2 where dr: "drain de fr1 = Some (r2, ms1, fr2)"
    using Cons.prems(1) fill r by (cases "drain de fr1") auto
  obtain ms2 where p: "r2 = Inr ()" "ms = ms1 @ ms2" "pump de (map Inr parts) fr2 = Some (Inr (), ms2, fr')"
    using Cons.prems(1) fill dr r by (cases r2; cases "pump de (map Inr parts) fr2") auto
  show ?case
    using serve_then[OF dr[unfolded p(1)] Cons.IH[OF p(3)]] Cons.prems(2) by (simp add: fill r p(2))
qed simp

lemma client_to_pty_wire:
  assumes c: "codec_ok ser de" and enc: "list_all (encodable ser) ms"
    and w: "leftover @ concat (d # parts) = wire ser ms" and l: "length leftover \<le> buffer_bound"
    and ch: "list_all (\<lambda>d. d \<noteq> [] \<and> length d \<le> READ_BUF_SIZE) (d # parts)"
  shows "client_to_pty de rz wr leftover (map Inr (d # parts)) st = serve_messages rz wr ms st"
proof -
  let ?fr = "\<lparr>read_buf = leftover @ d, offset = 0\<rparr>"
  have fill: "fill_from (Inr d) (with_leftover leftover) = Some (Inr True, ?fr)"
    using ch l by (simp add: fill_from_def with_leftover_def Let_def buffer_bound_def)
  obtain ms1 ms2 p where s: "ms = ms1 @ ms2" "leftover @ d = wire ser ms1 @ p" "p @ concat parts = wire ser ms2"
    "decode_frame p = Inr None"
    using wire_prefix[OF c enc, of "leftover @ d" "concat parts"] w by auto
  have e: "list_all (encodable ser) ms1" "list_all (encodable ser) ms2" using enc s(1) by auto
  have fuel: "length ms1 < Suc (length (read_buf ?fr))"
    using wire_length[OF c e(1)] arg_cong[OF s(2), of length] by simp
  have "returns (drain de ?fr) (\<lambda>(r, ms', fr'). r = Inr () \<and> ms' = ms1 \<and> fr_ok fr' \<and> unread fr' = p)"
    unfolding drain_def using s(2,4) fuel by (intro decode_all_wire[OF c e(1)]) (auto simp: fr_ok_def unread_def)
  then obtain fr1 where dr: "drain de ?fr = Some (Inr (), ms1, fr1)" "fr_ok fr1" "unread fr1 = p"
    by (auto elim!: returnsE)
  obtain fr2 where "pump de (map Inr parts) fr1 = Some (Inr (), ms2, fr2)"
    using pump_wire[OF c e(2), of fr1 parts] dr s(3,4) ch by (auto simp: idle_def elim!: returnsE)
  then have "client_to_pty_loop de rz wr (map Inr parts) fr1 st = serve_messages rz wr ms2 st" for st
    using ch by (intro serve_loop_pump) (auto simp: list_all_iff)
  from serve_then[OF dr(1) this] show ?thesis by (simp add: client_to_pty_def fill s(1))
qed

text \<open>A whole message that is already in the leftover waits for the next read, and is lost if there is none.\<close>

lemma leftover_at_eof: "client_to_pty de rz wr leftover [Inr []] st = Some (Closed, st)"
  by (simp add: client_to_pty_def fill_from_def with_leftover_def)

subsection \<open>From the keyboard to the child process\<close>

fun keys :: "event list \<Rightarrow> bytes" where
  "keys [] = []"
| "keys (Key b # es) = b # keys es"
| "keys (Focus # es) = keys es"

definition focus_count :: "event list \<Rightarrow> nat" where
  "focus_count es = length (filter ((=) Focus) es)"

lemma keys_append [simp]: "keys (as @ bs) = keys as @ keys bs"
  by (induction as rule: keys.induct) simp_all

lemma keys_Key [simp]: "keys (map Key d) = d"
  by (induction d) simp_all

lemma focus_count_simps [simp]:
  "focus_count [] = 0" "focus_count (Focus # es) = Suc (focus_count es)" "focus_count (as @ bs) = focus_count as + focus_count bs"
  "focus_count (map Key d) = 0"
  by (simp_all add: focus_count_def filter_map comp_def)

text \<open>
  What the terminal sends, from its two sources: \<open>keyboard rs post\<close> is the keys \<open>k\<close> typed before each
  report of the terminal (\<open>True\<close> for a gain of focus, \<open>False\<close> for a loss), in order, and the keys typed
  after the last one. The keys themselves contain no report.
\<close>

definition report :: "bool \<Rightarrow> bytes" where
  "report g = (if g then ESC # ''[I'' else ESC # ''[O'')"

definition keyboard :: "(bytes \<times> bool) list \<Rightarrow> bytes \<Rightarrow> bytes" where
  "keyboard rs post = concat (map (\<lambda>(k, g). k @ report g) rs) @ post"

definition no_report :: "bytes \<Rightarrow> bool" where
  "no_report k \<longleftrightarrow> \<not> sublist (report True) k \<and> \<not> sublist (report False) k"

definition strokes_ok :: "(bytes \<times> bool) list \<Rightarrow> bool" where
  "strokes_ok rs \<longleftrightarrow> list_all (\<lambda>(k, g). no_report k \<and> (k = [] \<or> last k \<noteq> ESC)) rs"

lemma no_report_Cons [simp]:
  "no_report (b # k) \<Longrightarrow> no_report k"
  "\<not> no_report (ESC # CHR ''['' # FOCUS_IN # r)" "\<not> no_report (ESC # CHR ''['' # FOCUS_OUT # r)"
  by (auto simp: no_report_def report_def sublist_Cons_right)

lemma scan_report: "scan (report g @ r) = apfst (append (if g then [Focus] else [])) (scan r)"
  by (simp add: report_def prod_eq_iff)

lemma scan_keys:
  "no_report k \<Longrightarrow> k = [] \<or> last k \<noteq> ESC \<Longrightarrow>
    scan (k @ report g @ r) = apfst (append (map Key k @ (if g then [Focus] else []))) (scan r)"
proof (induction k rule: length_induct)
  case (1 k)
  have again: "scan (k' @ report g @ r) = apfst (append (map Key k' @ (if g then [Focus] else []))) (scan r)"
    if "length k' < length k" "no_report k'" "k' = [] \<or> last k' \<noteq> ESC" for k'
    using 1 that by blast
  show ?case
  proof (cases k rule: input_cases)
    case (2 b s)
    have "no_report s" "s = [] \<or> last s \<noteq> ESC" using 1(2,3) 2(1) by (auto dest: no_report_Cons(1) split: if_splits)
    then show ?thesis using again[of s] 2 by (simp add: prod_eq_iff)
  next
    case (4 c s)
    have "no_report s" "s = [] \<or> last s \<noteq> ESC" using 1(2,3) 4(1) by (auto dest!: no_report_Cons(1) split: if_splits)
    then show ?thesis using again[of s] 4 by (simp add: prod_eq_iff)
  next
    case 5
    have "scan (ESC # CHR ''['' # ESC # xs) = apfst (append [Key ESC, Key CHR ''['']) (scan (ESC # xs))" for xs
      using scan_steps(7)[of ESC "xs"] by (simp add: ESC_def prod_eq_iff)
    then show ?thesis using 5 by (cases g) (simp_all add: report_def prod_eq_iff)
  next
    case (8 d s)
    then have "no_report (CHR ''['' # d # s)" "last (CHR ''['' # d # s) \<noteq> ESC"
      using 1(2,3) by (auto dest: no_report_Cons(1))
    then show ?thesis using again[of "CHR ''['' # d # s"] 8 by (simp add: prod_eq_iff)
  qed (use 1 in \<open>auto simp: scan_report\<close>)
qed

lemma scan_tail: "no_report k \<Longrightarrow> keys (fst (scan k)) @ snd (scan k) = k \<and> focus_count (fst (scan k)) = 0"
proof (induction k rule: length_induct)
  case (1 k)
  have key: "focus_count (Key b # es) = focus_count es" for b es by (simp add: focus_count_def)
  show ?case
  proof (cases k rule: input_cases)
    case (2 b s)
    then show ?thesis using 1(1)[rule_format, of s] 1(2) by (simp add: key)
  next
    case (4 c s)
    have "no_report s" using 1(2) 4(1) by (blast dest: no_report_Cons(1))
    then show ?thesis using 1(1)[rule_format, of s] 4 by (simp add: key)
  next
    case (8 d s)
    have "no_report (CHR ''['' # d # s)" using 1(2) 8(1) by (blast dest: no_report_Cons(1))
    then show ?thesis using 1(1)[rule_format, of "CHR ''['' # d # s"] 8 by (simp add: key)
  qed (use 1(2) in \<open>auto simp: focus_count_def\<close>)
qed

lemma scan_keyboard:
  assumes "strokes_ok rs" "no_report post"
  shows "keys (fst (scan (keyboard rs post))) @ snd (scan (keyboard rs post)) = concat (map fst rs) @ post
    \<and> focus_count (fst (scan (keyboard rs post))) = length (filter snd rs)"
  using assms(1)
proof (induction rs)
  case Nil
  then show ?case using scan_tail[OF assms(2)] by (simp add: keyboard_def)
next
  case (Cons kg rs)
  obtain k g where kg: "kg = (k, g)" by fastforce
  have "keyboard (kg # rs) post = k @ report g @ keyboard rs post" by (simp add: keyboard_def kg)
  moreover have "scan (k @ report g @ keyboard rs post) = apfst (append (map Key k @ (if g then [Focus] else []))) (scan (keyboard rs post))"
    using Cons.prems by (intro scan_keys) (auto simp: strokes_ok_def kg)
  ultimately show ?case
    using Cons.IH Cons.prems by (auto simp: kg strokes_ok_def)
qed

text \<open>Directly after ESC a report is not recognised and becomes input.\<close>

lemma report_after_escape:
  "run_stdin_to_socket [Inr (ESC # report g), Inr []] filter_new = [Input (ESC # report g)]"
proof -
  have "DETACH_KEY \<noteq> ESC" "ESC \<noteq> CHR ''[''" "FOCUS_IN \<noteq> ESC" "FOCUS_OUT \<noteq> ESC" by (simp_all add: ESC_def)
  then show ?thesis
    by (simp add: report_def filter_process_def filter_new_def filter_loop_steps flush_filtered_def filter_flush_def Let_def)
qed

lemma send_actions_go_on: "DetachKey \<notin> set acts \<Longrightarrow> \<not> snd (send_actions acts)"
  by (induction acts rule: send_actions.induct) (simp_all add: case_prod_beta)

lemma serve_actions:
  assumes "DetachKey \<notin> set acts"
  shows "serve_messages rz (\<lambda>_. None) (fst (send_actions acts)) st =
    Some (Open, st\<lparr>i_written := i_written st @ keys (events acts), i_refresh := i_refresh st + focus_count (events acts)\<rparr>)"
  using assms
  by (induction acts arbitrary: st rule: send_actions.induct) (simp_all add: case_prod_beta client_message_def)

lemma filter_reads_no_detach:
  assumes "DETACH_KEY \<notin> set (concat ds)" "DETACH_KEY \<notin> set (carry f)"
  shows "DetachKey \<notin> set (fst (filter_reads ds f)) \<and> DETACH_KEY \<notin> set (carry (snd (filter_reads ds f)))"
  using assms
proof (induction ds arbitrary: f)
  case (Cons d ds)
  have no: "DETACH_KEY \<notin> set (carry f @ d)" using Cons.prems by simp
  have "set (carry (snd (filter_process d f))) \<subseteq> {ESC, CHR ''[''}"
    using filter_process_events(2)[OF no] scan_carry_set by simp
  then have "DETACH_KEY \<notin> set (carry (snd (filter_process d f)))" by (auto simp: ESC_def)
  moreover have "DetachKey \<notin> set (fst (filter_process d f))"
    using no filter_loop_no_detach[of "carry f @ d" "[]"] by (simp add: filter_process_def Let_def case_prod_beta)
  ultimately show ?case using Cons.IH[of "snd (filter_process d f)"] Cons.prems by (simp add: case_prod_beta)
qed simp

lemma send_actions_append:
  "DetachKey \<notin> set as \<Longrightarrow> fst (send_actions (as @ bs)) = fst (send_actions as) @ fst (send_actions bs)"
  by (induction as rule: send_actions.induct) (auto simp: case_prod_beta)

lemma run_stdin_reads:
  assumes "DETACH_KEY \<notin> set (concat ds)" "DETACH_KEY \<notin> set (carry f)" "list_all (\<lambda>d. d \<noteq> []) ds"
  shows "run_stdin_to_socket (map Inr ds @ rest) f =
    fst (send_actions (fst (filter_reads ds f))) @ run_stdin_to_socket rest (snd (filter_reads ds f))"
  using assms
proof (induction ds arbitrary: f)
  case (Cons d ds)
  have 1: "DetachKey \<notin> set (fst (filter_process d f))" "DETACH_KEY \<notin> set (carry (snd (filter_process d f)))"
    using filter_reads_no_detach[of "[d]" f] Cons.prems by (simp_all add: case_prod_beta)
  show ?case
    using Cons.IH[of "snd (filter_process d f)"] Cons.prems 1
    by (simp add: case_prod_beta send_actions_append send_actions_go_on)
qed simp

lemma filter_new_carry: "carry filter_new = []"
  by (simp add: filter_new_def)

text \<open>Typing, then the end of input: the child gets the keys and a sequence left incomplete at the end.\<close>

lemma typed_input:
  assumes "DETACH_KEY \<notin> set (concat ds)" "list_all (\<lambda>d. d \<noteq> []) ds"
  shows "serve_messages rz (\<lambda>_. None) (run_stdin_to_socket (map Inr ds @ [Inr []]) filter_new) st =
    Some (Open, st\<lparr>i_written := i_written st @ keys (fst (scan (concat ds))) @ snd (scan (concat ds)),
      i_refresh := i_refresh st + focus_count (fst (scan (concat ds)))\<rparr>)"
proof -
  let ?r = "filter_reads ds filter_new"
  have ev: "events (fst ?r) = fst (scan (concat ds))" "carry (snd ?r) = snd (scan (concat ds))"
    using filter_reads_events[of ds filter_new] assms(1) by (simp_all add: filter_new_def)
  have no: "DetachKey \<notin> set (fst ?r)"
    using filter_reads_no_detach[of ds filter_new] assms(1) by (simp add: filter_new_def)
  show ?thesis
    using run_stdin_reads[of ds filter_new "[Inr []]"] assms
    by (cases "carry (snd ?r) = []")
      (simp_all add: filter_new_carry serve_messages_append serve_actions[OF no] filter_flush_def client_message_def ev)
qed

text \<open>The detach key: what was typed before it arrives, nothing after it, and the relay ends.\<close>

lemma typed_detach:
  assumes "DETACH_KEY \<notin> set (concat ds @ pre)" "list_all (\<lambda>d. d \<noteq> []) ds"
  shows "serve_messages rz (\<lambda>_. None) (run_stdin_to_socket (map Inr ds @ Inr (pre @ DETACH_KEY # post) # rest) filter_new) st =
    Some (Detached, st\<lparr>i_written := i_written st @ keys (fst (scan (concat ds))) @ snd (scan (concat ds)) @ pre,
      i_refresh := i_refresh st + focus_count (fst (scan (concat ds)))\<rparr>)"
proof -
  let ?r = "filter_reads ds filter_new"
  have ev: "events (fst ?r) = fst (scan (concat ds))" "carry (snd ?r) = snd (scan (concat ds))"
    using filter_reads_events[of ds filter_new] assms(1) by (simp_all add: filter_new_def)
  have no: "DetachKey \<notin> set (fst ?r)" "DETACH_KEY \<notin> set (carry (snd ?r) @ pre)"
    using filter_reads_no_detach[of ds filter_new] assms(1) by (simp_all add: filter_new_def)
  then have "takeWhile (\<lambda>b. b \<noteq> DETACH_KEY) (carry (snd ?r) @ pre @ DETACH_KEY # post) = carry (snd ?r) @ pre"
    by (simp add: takeWhile_append)
  then have "fst (filter_process (pre @ DETACH_KEY # post) (snd ?r)) = flush_filtered (carry (snd ?r) @ pre) @ [DetachKey]"
    by (simp add: filter_process_def Let_def)
  then show ?thesis
    using run_stdin_reads[of ds filter_new "Inr (pre @ DETACH_KEY # post) # rest"] assms
    by (cases "carry (snd ?r) @ pre = []")
      (simp_all add: filter_new_carry serve_messages_append serve_actions[OF no(1)] flush_filtered_def client_message_def
        case_prod_beta ev)
qed

subsection \<open>The handshake\<close>

lemma await_connected_wire:
  assumes c: "codec_ok ser de" and enc: "encodable ser (Connected nm new)"
  shows "idle fr \<Longrightarrow> unread fr @ concat parts = frame_of ser (Connected nm new) @ rest \<Longrightarrow>
    list_all (\<lambda>d. d \<noteq> [] \<and> length d \<le> READ_BUF_SIZE) parts \<Longrightarrow>
    \<exists>k l. await_connected de (map Inr (take k parts)) fr = Some (HsConnected nm new l) \<and> l @ concat (drop k parts) = rest"
proof (induction parts arbitrary: fr)
  case Nil
  obtain d where d: "ser (Connected nm new) = Inr d" using enc by (auto simp: encodable_def)
  show ?case using Nil decode_frame_frame[OF c d, of rest] by (simp add: idle_def)
next
  case (Cons d parts)
  let ?m = "Connected nm new" and ?fr = "\<lparr>read_buf = unread fr @ d, offset = 0\<rparr>"
  obtain e where e: "ser ?m = Inr e" using enc by (auto simp: encodable_def)
  have fill: "fill_from (Inr d) fr = Some (Inr True, ?fr)"
    using fill_from_idle[OF Cons.prems(1), of d] Cons.prems(3) by simp
  have ok: "fr_ok ?fr" "unread ?fr = unread fr @ d" by (simp_all add: fr_ok_def unread_def)
  have "(unread fr @ d) @ concat parts = frame_of ser ?m @ rest" using Cons.prems(2) by simp
  then consider us where "(unread fr @ d) @ us = frame_of ser ?m" "us \<noteq> []"
    | us where "unread fr @ d = frame_of ser ?m @ us" "us @ concat parts = rest"
    unfolding append_eq_append_conv2 by (metis append_Nil2 append_Nil append.assoc)
  then show ?case
  proof cases
    case 1
    have n: "decode_frame (unread ?fr) = Inr None" unfolding ok(2) by (rule decode_frame_partial[OF c e 1])
    then have "decode_next de ?fr = Some (Inr None, ?fr)" by (simp add: decode_next_def slice_from_def ok(2))
    moreover obtain k l where "await_connected de (map Inr (take k parts)) ?fr = Some (HsConnected nm new l)"
      "l @ concat (drop k parts) = rest"
      using Cons.IH[of ?fr] Cons.prems n ok by (auto simp: idle_def)
    ultimately show ?thesis using fill by (intro exI[of _ "Suc k"] exI[of _ l]) simp
  next
    case (2 us)
    let ?fr' = "?fr\<lparr>offset := length (frame_of ser ?m)\<rparr>"
    have "decode_next de ?fr = Some (Inr (Some ?m), ?fr')"
      using decode_next_frame[OF c e ok(1), of us] ok(2) 2(1) by simp
    moreover have "into_leftover ?fr' = Some us" by (simp add: into_leftover_def slice_from_def 2(1))
    ultimately show ?thesis using fill 2(2) by (intro exI[of _ "Suc 0"] exI[of _ us]) simp
  qed
qed

subsection \<open>Resizing\<close>

definition sizes_agree :: "'p session_t \<Rightarrow> terminal_size \<Rightarrow> bool" where
  "sizes_agree s sz \<longleftrightarrow> master_size (pty s) = sz \<and> cols (grid (scr (screen s))) = ts_cols sz
     \<and> rows (grid (scr (screen s))) = ts_rows sz \<and> (dims_poisoned s \<or> dims s = sz)"

lemma resize_session_ok:
  assumes s: "session_ok s" and c: "c \<le> u16_max" and r: "r \<le> u16_max"
  shows "returns (resize_session rz c r s) (\<lambda>(res, s'). session_ok s' \<and> screen_poisoned s' = screen_poisoned s
    \<and> session_name s' = session_name s \<and> attach s' = attach s \<and> reader_alive s' = reader_alive s
    \<and> (res = Inr () \<longrightarrow> sizes_agree s' (sanitize_dimensions c r)) \<and> ((\<exists>e. res = Inl e) \<longrightarrow> s' = s))"
proof (cases "screen_poisoned s \<or> rz (sanitize_dimensions c r) \<noteq> None")
  case True
  then show ?thesis using s by (auto simp: resize_session_def resize_pty_def Let_def)
next
  case False
  let ?c = "max c 1" and ?r = "max r 1"
  have w: "wf_screen (scr (screen s))" using s False by (simp add: session_ok_def)
  have cr: "?c \<le> u16_max" "?r \<le> u16_max" using c r by auto
  obtain sc where "screen_resize ?c ?r (scr (screen s)) = Some sc" "wf_screen sc" "cols (grid sc) = ?c" "rows (grid sc) = ?r"
    using screen_resize_safe[OF w cr] screen_resize_eq[OF w cr(2), of ?c]
    by (auto simp: grid_resize_spec_def Let_def)
  then show ?thesis
    using False s
    by (auto simp: resize_session_def resize_pty_def sanitize_dimensions_def session_ok_def sizes_agree_def Let_def)
qed

lemma resize_or_sigwinch_ok:
  assumes "session_ok s" "c \<le> u16_max" "r \<le> u16_max"
  shows "returns (resize_or_sigwinch rz c r cur s) (\<lambda>(res, s'). session_ok s' \<and> screen_poisoned s' = screen_poisoned s
    \<and> session_name s' = session_name s \<and> attach s' = attach s \<and> reader_alive s' = reader_alive s)"
proof (cases "ts_cols cur \<noteq> c \<or> ts_rows cur \<noteq> r")
  case True
  then show ?thesis
    using resize_session_ok[OF assms, of rz] by (auto simp: resize_or_sigwinch_def elim!: returns_mono)
next
  case False
  then show ?thesis
    using assms(1) by (auto simp: resize_or_sigwinch_def session_ok_def Let_def split: option.splits)
qed

subsection \<open>Setting up a connection\<close>

lemma connect_eq:
  "snd (connect a) = (evict_previous a)\<lparr>has_client := True, evict_tx := Some (length (channels a)),
     channels := channels (evict_previous a) @ [watch_new]\<rparr>" "fst (connect a) = length (channels a)"
  by (auto simp: connect_def Let_def set_flag_def open_channel_def evict_previous_def at_sender_def split: option.splits)

lemma length_evict [simp]: "length (channels (at_sender f a)) = length (channels a)"
  by (simp add: at_sender_def split: option.splits)

text \<open>The client that connects is attached; the one before is told that it was evicted.\<close>

lemma connect_attaches:
  assumes "watch_ok borrow changed" "connect a = (ch, a')"
  shows "has_client a'" "evict_tx a' = Some ch" "ch = length (channels a)" "evict_event changed ch a' = None"
    "evict_tx a = Some c \<Longrightarrow> c < length (channels a) \<Longrightarrow> evict_event changed c a' = Some True"
proof -
  have a': "a' = snd (connect a)" "ch = length (channels a)" using assms(2) connect_eq(2)[of a] by simp_all
  show "has_client a'" "evict_tx a' = Some ch" "ch = length (channels a)" "evict_event changed ch a' = None"
    unfolding a' connect_eq
    by (simp_all add: evict_event_def evict_previous_def nth_append watch_new_def watch_okD(2)[OF assms(1)])
  show "evict_event changed c a' = Some True" if "evict_tx a = Some c" "c < length (channels a)"
    unfolding a' connect_eq using that
    by (simp add: evict_event_def evict_previous_def nth_append at_sender_def watch_evict_def watch_okD(2)[OF assms(1)])
qed

lemma guard_drop_attached:
  assumes "watch_ok borrow changed" "connect a = (ch, a')"
  shows "\<not> has_client (guard_drop borrow ch a')"
  using connect_eq[of a] assms(2) watch_okD(1)[OF assms(1)]
  by (auto simp: guard_drop_def evict_previous_def nth_append watch_new_def)

lemma manager_distinct: "manager_ok m \<Longrightarrow> distinct (map fst m)"
  by (simp add: manager_ok_def)

lemma create_spec:
  assumes m: "manager_ok m" and cr: "c \<le> u16_max" "r \<le> u16_max"
    and eq: "create spawn p0 nm c r history m = (res, m')"
  shows "case res of
      Inl e \<Rightarrow> m' = m
    | Inr _ \<Rightarrow> manager_ok m' \<and> map_of m nm = None \<and> (\<exists>s. map_of m' = (map_of m)(nm \<mapsto> s))"
  using create_ok[OF m cr, of spawn p0 nm history] eq names.lookup_put[OF manager_distinct[OF m]]
  by (auto simp: create_def split: sum.splits if_splits)

lemma get_or_create_spec:
  assumes m: "manager_ok m" and cr: "c \<le> u16_max" "r \<le> u16_max"
    and eq: "get_or_create spawn p0 nm c r history m = (res, m')"
  shows "case res of
      Inl e \<Rightarrow> m' = m
    | Inr (s, is_new) \<Rightarrow> manager_ok m' \<and> is_new = (map_of m nm = None) \<and> map_of m' = (map_of m)(nm \<mapsto> s)"
  using get_or_create_ok[OF m cr, of spawn p0 nm history] eq names.lookup_put[OF manager_distinct[OF m]]
  by (auto simp: get_or_create_def fun_upd_idem split: sum.splits option.splits)

lemma acquire_spec:
  assumes m: "manager_ok m" and cr: "c \<le> u16_max" "r \<le> u16_max"
    and eq: "acquire spawn p0 nm history c r mode m = (res, m')"
  shows "case res of
      Inl e \<Rightarrow> m' = m
    | Inr (s, is_new) \<Rightarrow> manager_ok m' \<and> is_new = (map_of m nm = None) \<and> map_of m' = (map_of m)(nm \<mapsto> s)
        \<and> (mode = CreateOnly \<longrightarrow> is_new) \<and> (mode = AttachOnly \<longrightarrow> \<not> is_new)"
proof (cases mode)
  case CreateOrAttach
  then show ?thesis using get_or_create_spec[OF m cr, of spawn p0 nm history res m'] eq
    by (auto simp: acquire_def split: sum.splits prod.splits)
next
  case CreateOnly
  obtain r1 m1 where "create spawn p0 nm c r history m = (r1, m1)" by fastforce
  with create_spec[OF m cr this] CreateOnly eq show ?thesis
    by (auto simp: acquire_def get_def split: sum.splits if_splits)
next
  case AttachOnly
  then show ?thesis using eq m by (auto simp: acquire_def get_def fun_upd_idem split: option.splits)
qed

lemma put_back_lookup: "manager_ok m \<Longrightarrow> map_of m nm = Some s \<Longrightarrow> map_of (put_back nm s' m) = (map_of m)(nm \<mapsto> s')"
  by (simp add: put_back_def manager_ok_def names.lookup_put)

lemma setup_session_ok:
  assumes w: "watch_ok borrow changed" and m: "manager_ok m" and cr: "c \<le> u16_max" "r \<le> u16_max"
  shows "returns (setup_session borrow spawn p0 rz nm history c r mode m) (\<lambda>(res, m'). manager_ok m'
    \<and> (\<forall>k. k \<noteq> nm \<longrightarrow> map_of m' k = map_of m k)
    \<and> (case res of
         Refused e \<Rightarrow> m' = m
       | SetupFailed e \<Rightarrow> map_of m nm \<noteq> None \<and> (\<exists>s. map_of m' nm = Some s \<and> \<not> has_client (attach s))
       | Ready ch is_new \<Rightarrow> is_new = (map_of m nm = None) \<and> (mode = CreateOnly \<longrightarrow> is_new) \<and> (mode = AttachOnly \<longrightarrow> \<not> is_new)
           \<and> (\<exists>s. map_of m' nm = Some s \<and> has_client (attach s) \<and> evict_tx (attach s) = Some ch
                \<and> evict_event changed ch (attach s) = None)))"
proof -
  obtain res m1 where acq: "acquire spawn p0 nm history c r mode m = (res, m1)" by fastforce
  note spec = acquire_spec[OF m cr acq]
  show ?thesis
  proof (cases res)
    case (Inl e)
    then show ?thesis using spec m acq by (simp add: setup_session_def)
  next
    case (Inr q)
    obtain s is_new where q: "q = (s, is_new)" by fastforce
    obtain ch a where con: "connect (attach s) = (ch, a)" by fastforce
    let ?s = "s\<lparr>attach := a\<rparr>"
    have m1: "manager_ok m1" "map_of m1 nm = Some s" "is_new = (map_of m nm = None)" "\<forall>k. k \<noteq> nm \<longrightarrow> map_of m1 k = map_of m k"
      "mode = CreateOnly \<longrightarrow> is_new" "mode = AttachOnly \<longrightarrow> \<not> is_new"
      using spec Inr q by auto
    then have s: "session_name s = nm" "session_ok s" by (auto simp: manager_ok_def)
    have put: "manager_ok (put_back nm s' m1)" "map_of (put_back nm s' m1) = (map_of m1)(nm \<mapsto> s')"
      if "session_name s' = nm" "session_ok s'" for s'
      using put_back_ok[OF m1(1) that] put_back_lookup[OF m1(1,2)] by auto
    have s': "session_name ?s = nm" "session_ok ?s" using s by (simp_all add: session_ok_def)
    show ?thesis
    proof (cases is_new)
      case True
      then show ?thesis
        using put[OF s'] m1 connect_attaches(1,2,4)[OF w con] by (simp add: setup_session_def acq Inr q session_connect_def con)
    next
      case False
      obtain r1 s1 where rs: "resize_or_sigwinch rz c r (current_dims ?s) ?s = Some (r1, s1)" "session_ok s1"
        "session_name s1 = nm" "attach s1 = a"
        using resize_or_sigwinch_ok[OF s'(2) cr, of rz "current_dims ?s"] s by (auto elim!: returnsE)
      let ?d = "s1\<lparr>attach := guard_drop borrow ch a\<rparr>"
      have d: "session_name ?d = nm" "session_ok ?d" using rs by (simp_all add: session_ok_def)
      show ?thesis
        using False put[OF rs(3,2)] put[OF d] m1 connect_attaches(1,2,4)[OF w con] guard_drop_attached[OF w con] rs
        by (cases r1) (auto simp: setup_session_def acq Inr q session_connect_def con)
    qed
  qed
qed

lemma put_back_twice: "put_back nm y (put_back nm x m) = put_back nm y m"
  by (auto simp: put_back_def update_Some_unfold AList.dom_update dom_map_of_conv_image_fst[symmetric] AList.update_conv')

lemma setup_session_split:
  assumes m: "manager_ok m" and cr: "c \<le> u16_max" "r \<le> u16_max"
  shows "setup_session borrow spawn p0 rz nm history c r mode m =
    (case setup_locked spawn p0 nm history c r mode m of
       (Ready ch False, m1) \<Rightarrow>
         setup_resize borrow rz nm c r ch (the (get nm m1)) \<bind> (\<lambda>(res, s). Some (res, put_back nm s m1))
     | (res, m1) \<Rightarrow> Some (res, m1))"
proof -
  obtain res m1 where acq: "acquire spawn p0 nm history c r mode m = (res, m1)" by fastforce
  note spec = acquire_spec[OF m cr acq]
  show ?thesis
  proof (cases res)
    case (Inl e)
    then show ?thesis using acq by (simp add: setup_session_def setup_locked_def)
  next
    case (Inr q)
    obtain s is_new where q: "q = (s, is_new)" by fastforce
    obtain ch s1 where con: "session_connect s = (ch, s1)" by fastforce
    have "manager_ok m1" "map_of m1 nm = Some s" using spec Inr q by auto
    then have "get nm (put_back nm s1 m1) = Some s1" by (simp add: get_def put_back_lookup)
    then show ?thesis
      using acq Inr q con
      by (cases is_new; cases "resize_or_sigwinch rz c r (current_dims s1) s1")
        (auto simp: setup_session_def setup_locked_def setup_resize_def put_back_twice split: sum.splits)
  qed
qed

lemma setup_locked_ok:
  assumes m: "manager_ok m" and cr: "c \<le> u16_max" "r \<le> u16_max"
    and e: "setup_locked spawn p0 nm history c r mode m = (res, m')"
  shows "manager_ok m' \<and> dom (map_of m') = (if \<exists>x. res = Refused x then dom (map_of m) else insert nm (dom (map_of m)))
    \<and> (\<forall>ch is_new. res = Ready ch is_new \<longrightarrow> is_new = (nm \<notin> dom (map_of m)))"
proof -
  obtain q m1 where acq: "acquire spawn p0 nm history c r mode m = (q, m1)" by fastforce
  note spec = acquire_spec[OF m cr acq]
  show ?thesis
  proof (cases q)
    case (Inl x)
    then show ?thesis using spec e m acq by (auto simp: setup_locked_def)
  next
    case (Inr p)
    obtain s is_new where p: "p = (s, is_new)" by fastforce
    obtain ch a where con: "connect (attach s) = (ch, a)" by fastforce
    have m1: "manager_ok m1" "map_of m1 nm = Some s" "is_new = (map_of m nm = None)" "map_of m1 = (map_of m)(nm \<mapsto> s)"
      using spec Inr p by auto
    from this(1,2) have "session_name s = nm" "session_ok s" by (simp_all add: manager_ok_def)
    then have s: "session_name (s\<lparr>attach := a\<rparr>) = nm" "session_ok (s\<lparr>attach := a\<rparr>)"
      by (simp_all add: session_ok_def)
    have "res = Ready ch is_new" "m' = put_back nm (s\<lparr>attach := a\<rparr>) m1"
      using e acq Inr p con by (simp_all add: setup_locked_def session_connect_def)
    then show ?thesis
      using put_back_ok[OF m1(1) s] put_back_lookup[OF m1(1,2), of "s\<lparr>attach := a\<rparr>"] m1(3,4) by auto
  qed
qed

subsection \<open>Killing, dropping\<close>

lemma kill_session:
  assumes w: "watch_ok borrow changed" and m: "manager_ok m" "map_of m nm = Some s"
    and ch: "evict_tx (attach s) = Some ch" "ch < length (channels (attach s))" "evict_event changed ch (attach s) = None"
  shows "\<exists>s' m'. first_message ser (KillSession nm) leftover m = (answer_client ser (SessionKilled nm), Some s', m')
    \<and> manager_ok m' \<and> map_of m' = (map_of m)(nm := None) \<and> evict_event changed ch (attach s') = Some False"
proof -
  have v: "validate_session_name nm = Inr ()" using m by (auto simp: manager_ok_def)
  have "map_of (AList.delete nm m) = (map_of m)(nm := None)" using m(1) by (simp add: manager_ok_def names.lookup_del)
  moreover have "manager_ok (AList.delete nm m)" using remove_ok[OF m(1), of nm] by (simp add: remove_session_def)
  moreover have "evict_event changed ch (attach (snd (session_drop (session_disconnect s)))) = Some False"
    using ch by (auto simp: session_drop_def session_disconnect_def disconnect_def evict_previous_def at_sender_def
        evict_event_def watch_close_def watch_okD(2)[OF w] split: if_splits)
  ultimately show ?thesis by (simp add: first_message_def v remove_session_def m(2))
qed

lemma drop_evicts:
  assumes w: "watch_ok borrow changed"
    and "child_lock (pty s) = LockOk" "evict_tx (attach s) = Some ch" "ch < length (channels (attach s))"
  shows "evict_event changed ch (attach (snd (session_drop s))) = Some True"
  using assms(2-) by (simp add: session_drop_def evict_previous_def at_sender_def evict_event_def watch_evict_def
      watch_okD(2)[OF w])

end
