(* ===== verification/Bridge.thy ===== *)
theory Bridge
  imports Server_Facts
begin

text \<open>
  A session at work: the persistent reader (\<open>src/src/session.rs\<close>), the relay from the screen to the
  client and the relay from the client to the child (\<open>src/src/server/session_relay.rs\<close>), which
  \<open>handle_session\<close> (\<open>src/src/server/session_bridge.rs\<close>) runs side by side on one session.

  An execution is a list of events, one for every turn of one of the three tasks; every interleaving
  is such a list, because each turn works under the locks it needs. The tasks share the screen, so
  what one leaves is what the next one finds.

  Shown here: the relays never panic in any interleaving; the screen keeps its invariant unless the
  reader has panicked on it, which poisons its mutex; and a frame sent by the relay hands over exactly
  what had scrolled off since the last one.
\<close>

record 'p world =
  ses :: "'p session_t"
  rel :: relay
  rdr_running :: bool
  rdr_written :: "bytes list"
  rdr_deferred :: "bytes list"
  typed :: bytes
  refreshes :: nat
  sent_out :: bytes
  over :: bool

datatype world_event =
    ReaderTurn read_result bool nat
  | RelayTurn relay_event
  | ClientTurn client_msg

definition world_reader ::
  "('p \<Rightarrow> byte \<Rightarrow> 'p \<times> action list) \<Rightarrow> (rchar \<Rightarrow> nat option) \<Rightarrow> read_result \<Rightarrow> bool \<Rightarrow> nat \<Rightarrow> 'p world \<Rightarrow> 'p world" where
  "world_reader advance cwidth rd lk k w =
     (let s = ses w;
          t = \<lparr>t_read = rd, t_client = has_client (attach s), t_lock = lk, t_writable = k\<rparr>;
          r = \<lparr>r_screen = screen s, r_poisoned = screen_poisoned s, r_written = rdr_written w,
               deferred_responses = rdr_deferred w, r_alive = reader_alive s, r_notified = 0\<rparr>;
          (out, r) = persistent_reader_loop advance cwidth [t] r
      in w\<lparr>ses := s\<lparr>screen := r_screen r, screen_poisoned := r_poisoned r, reader_alive := r_alive r\<rparr>,
           rdr_running := (out = GoOn), rdr_written := r_written r, rdr_deferred := deferred_responses r\<rparr>)"

definition world_relay ::
  "server_msg serializer \<Rightarrow> (row \<Rightarrow> 64 word) \<Rightarrow> relay_event \<Rightarrow> 'p world \<Rightarrow> 'p world option" where
  "world_relay ser H ev w =
     do { ((out, r), rl, s) \<leftarrow> relay_step ser H ev (rel w) (ses w);
          Some (w\<lparr>ses := s, rel := rl, refreshes := (if ev = RefreshNotified then 0 else refreshes w),
                  sent_out := sent_out w @ out, over := (r \<noteq> Inr False)\<rparr>) }"

definition world_client ::
  "resize_env \<Rightarrow> (bytes \<Rightarrow> bytes option) \<Rightarrow> client_msg \<Rightarrow> 'p world \<Rightarrow> 'p world option" where
  "world_client rz wr m w =
     do { (r, st) \<leftarrow> client_message rz wr m \<lparr>i_session = ses w, i_written = typed w, i_refresh = refreshes w\<rparr>;
          Some (w\<lparr>ses := i_session st, typed := i_written st, refreshes := i_refresh st, over := (r \<noteq> MsgNext)\<rparr>) }"

text \<open>A task that has ended takes no more turns, and a refresh is seen only when one was asked for.\<close>

definition world_step ::
  "('p \<Rightarrow> byte \<Rightarrow> 'p \<times> action list) \<Rightarrow> (rchar \<Rightarrow> nat option) \<Rightarrow> server_msg serializer \<Rightarrow> (row \<Rightarrow> 64 word) \<Rightarrow> resize_env
     \<Rightarrow> (bytes \<Rightarrow> bytes option) \<Rightarrow> world_event \<Rightarrow> 'p world \<Rightarrow> 'p world option" where
  "world_step advance cwidth ser H rz wr ev w =
     (case ev of
        ReaderTurn rd lk k \<Rightarrow> Some (if rdr_running w then world_reader advance cwidth rd lk k w else w)
      | RelayTurn e \<Rightarrow> if over w \<or> e = RefreshNotified \<and> refreshes w = 0 then Some w else world_relay ser H e w
      | ClientTurn m \<Rightarrow> if over w then Some w else world_client rz wr m w)"

subsection \<open>Frames of the relay\<close>

lemma update_client_eq:
  assumes s: "session_ok s" "\<not> screen_poisoned s"
  shows "returns (update_client ser H msgs fin rl s) (\<lambda>((out, r), rl', s').
    s' = s\<lparr>screen := (screen s)\<lparr>scr := taken (scr (screen s))\<rparr>\<rparr>
    \<and> cache_synced H (grid (scr (screen s'))) (title (state (scr (screen s')))) (render_cache_of rl')
    \<and> (\<exists>frame. out = fst (send_all ser (msgs (prepend_passthrough
            (pending_passthrough (state (scr (screen s))) @ queued_notifications (state (scr (screen s)))) frame)))
         \<and> Some (frame, render_cache_of rl') = render_screen_impl H (grid (taken (scr (screen s)))) (title (state (scr (screen s))))
             (map (render_line (style_table (grid (scr (screen s))))) (pending_rows (grid (scr (screen s)))))
             (pending_rows (grid (scr (screen s))) \<noteq> []) (render_cache_of rl)))"
proof -
  let ?s = "scr (screen s)"
  have "wf_screen ?s" using s by (simp add: session_ok_def)
  then obtain out pass c' where t: "take_and_render H (render_cache_of rl) ?s = Some ((out, pass), c', taken ?s)"
    "pass = pending_passthrough (state ?s) @ queued_notifications (state ?s)"
    "cache_synced H (grid (taken ?s)) (title (state ?s)) c'"
    "Some (out, c') = render_screen_impl H (grid (taken ?s)) (title (state ?s))
       (map (render_line (style_table (grid ?s))) (pending_rows (grid ?s))) (pending_rows (grid ?s) \<noteq> []) (render_cache_of rl)"
    using take_and_render_eq[of ?s H "render_cache_of rl"] by (auto elim!: returnsE)
  have title: "title (state (taken ?s)) = title (state ?s)" by (simp add: taken_def)
  obtain b r where send: "send_all ser (msgs (prepend_passthrough pass out)) = (b, r)" by fastforce
  have "update_client ser H msgs fin rl s =
      Some ((b, case r of Inl e \<Rightarrow> Inl e | Inr _ \<Rightarrow> Inr fin),
        (case r of Inl e \<Rightarrow> rl\<lparr>render_cache_of := c'\<rparr>
         | Inr _ \<Rightarrow> if fin then rl\<lparr>render_cache_of := c'\<rparr> else rl\<lparr>render_cache_of := c', pending_render := False\<rparr>),
        s\<lparr>screen := (screen s)\<lparr>scr := taken ?s\<rparr>\<rparr>)"
    using s(2) t(1) send by (cases r) (simp_all add: update_client_def)
  then show ?thesis
    using t(2,3,4) title send by (cases r; cases fin) (simp_all add: exI[of _ out])
qed

lemma session_ok_taken: "session_ok s \<Longrightarrow> \<not> screen_poisoned s \<Longrightarrow>
    session_ok (s\<lparr>screen := (screen s)\<lparr>scr := taken (scr (screen s))\<rparr>\<rparr>)"
  by (simp add: session_ok_def taken_safe)

lemma relay_step_ok:
  assumes s: "session_ok s"
  shows "returns (relay_step ser H ev rl s) (\<lambda>(_, _, s'). session_ok s' \<and> screen_poisoned s' = screen_poisoned s
    \<and> reader_alive s' = reader_alive s)"
proof (cases "screen_poisoned s")
  case True
  then show ?thesis
    using s by (cases ev) (auto simp: relay_step_def update_client_def render_and_send_def case_prod_beta Let_def)
next
  case False
  have upd: "returns (update_client ser H msgs fin rl s) (\<lambda>(_, _, s'). session_ok s' \<and> \<not> screen_poisoned s'
      \<and> reader_alive s' = reader_alive s)" for msgs fin
    using update_client_eq[OF s False, of ser H msgs fin rl] session_ok_taken[OF s False] False
    by (auto elim!: returns_mono)
  have "wf_screen (scr (screen s))" using s False by (simp add: session_ok_def)
  from render_screen_impl_returns[OF wf_screenD(2)[OF this], of H "title (state (scr (screen s)))" "[]" True "render_cache_of rl"]
  obtain u c where "render_screen_impl H (grid (scr (screen s))) (title (state (scr (screen s)))) [] True (render_cache_of rl) = Some (u, c)"
    by (auto elim!: returnsE)
  then show ?thesis
    using upd s False by (cases ev) (auto simp: relay_step_def render_and_send_def screen_render_def render_screen_def case_prod_beta Let_def)
qed

lemma client_message_ok:
  assumes s: "session_ok (i_session st)" and m: "\<And>c r. m = Resize c r \<Longrightarrow> c \<le> u16_max \<and> r \<le> u16_max"
  shows "returns (client_message rz wr m st)
    (\<lambda>(_, st'). session_ok (i_session st') \<and> screen_poisoned (i_session st') = screen_poisoned (i_session st)
      \<and> reader_alive (i_session st') = reader_alive (i_session st))"
proof (cases m)
  case (Resize c r)
  obtain res s' where "resize_session rz c r (i_session st) = Some (res, s')" "session_ok s'"
    "screen_poisoned s' = screen_poisoned (i_session st)" "reader_alive s' = reader_alive (i_session st)"
    using resize_session_ok[OF s, of c r rz] m[OF Resize] by (auto elim!: returnsE)
  then show ?thesis using Resize by (cases res) (simp_all add: client_message_def)
qed (use s in \<open>auto simp: client_message_def split: option.splits\<close>)

subsection \<open>Every interleaving\<close>

definition world_ok :: "'p world \<Rightarrow> bool" where
  "world_ok w \<longleftrightarrow> session_ok (ses w) \<and> length (rdr_deferred w) \<le> MAX_DEFERRED
     \<and> (rdr_running w \<longrightarrow> reader_alive (ses w) \<and> \<not> screen_poisoned (ses w))"

definition event_ok :: "world_event \<Rightarrow> bool" where
  "event_ok ev \<longleftrightarrow> (case ev of ClientTurn (Resize c r) \<Rightarrow> c \<le> u16_max \<and> r \<le> u16_max | _ \<Rightarrow> True)"

text \<open>A turn of the reader on output that can make it panic.\<close>

definition risky :: "('p \<Rightarrow> byte \<Rightarrow> 'p \<times> action list) \<Rightarrow> (rchar \<Rightarrow> nat option) \<Rightarrow> world_event \<Rightarrow> 'p world \<Rightarrow> bool" where
  "risky advance cwidth ev w \<longleftrightarrow>
     (case ev of
        ReaderTurn (Inr d) lk k \<Rightarrow>
          rdr_running w \<and> may_panic cwidth (actions_of advance d (parser (screen (ses w)))) (cols (grid (scr (screen (ses w)))))
      | _ \<Rightarrow> False)"

lemma world_reader_ok:
  assumes w: "world_ok w" "rdr_running w" and cw: "width_ok cwidth"
  shows "world_ok (world_reader advance cwidth rd lk k w)"
    and "screen_poisoned (ses (world_reader advance cwidth rd lk k w)) \<Longrightarrow> risky advance cwidth (ReaderTurn rd lk k) w"
proof -
  let ?s = "ses w"
  let ?t = "\<lparr>t_read = rd, t_client = has_client (attach ?s), t_lock = lk, t_writable = k\<rparr>"
  let ?r = "\<lparr>r_screen = screen ?s, r_poisoned = screen_poisoned ?s, r_written = rdr_written w,
    deferred_responses = rdr_deferred w, r_alive = reader_alive ?s, r_notified = 0\<rparr>"
  obtain out r where l: "persistent_reader_loop advance cwidth [?t] ?r = (out, r)" by fastforce
  have ok: "reader_ok ?r" "r_alive ?r" "\<not> r_poisoned ?r" using w by (auto simp: world_ok_def reader_ok_def session_ok_def)
  have r: "reader_ok r" "r_alive r = (out \<noteq> Break)"
    using reader_loop_safe[OF ok(1) cw ok(2), of advance "[?t]"] l by auto
  have poisoned: "out = Panic" if "r_poisoned r"
    using l ok(3) that by (auto simp: reader_turn_def Let_def split: if_splits sum.splits option.splits prod.splits turn_end.splits)
  show "world_ok (world_reader advance cwidth rd lk k w)"
    using r poisoned w l by (auto simp: world_reader_def world_ok_def session_ok_def reader_ok_def Let_def)
  assume "screen_poisoned (ses (world_reader advance cwidth rd lk k w))"
  then have p: "r_poisoned r" using l by (simp add: world_reader_def Let_def)
  obtain d where d: "rd = Inr d" using l p ok(3) by (cases rd) (auto simp: reader_turn_def)
  have "read_screen advance cwidth (has_client (attach ?s)) d (screen ?s) = None"
    using l p ok(3) d by (auto simp: reader_turn_def Let_def split: if_splits option.splits prod.splits)
  moreover have "wf_screen (scr (screen ?s))" using ok(1,3) by (simp add: reader_ok_def)
  ultimately show "risky advance cwidth (ReaderTurn rd lk k) w"
    using read_screen_safe[of "screen ?s" cwidth advance d "has_client (attach ?s)"] cw w(2) d
    by (simp add: risky_def)
qed

lemma world_step_ok:
  assumes cw: "width_ok cwidth" and w: "world_ok w" and ev: "event_ok ev"
  shows "returns (world_step advance cwidth ser H rz wr ev w)
    (\<lambda>w'. world_ok w' \<and> (screen_poisoned (ses w') \<longrightarrow> screen_poisoned (ses w) \<or> risky advance cwidth ev w))"
proof -
  note s = w[unfolded world_ok_def]
  show ?thesis
  proof (cases ev)
    case (ReaderTurn rd lk k)
    then show ?thesis using world_reader_ok[OF w _ cw] w by (auto simp: world_step_def)
  next
    case (RelayTurn e)
    have "returns (world_relay ser H e w) (\<lambda>w'. world_ok w' \<and> screen_poisoned (ses w') = screen_poisoned (ses w))"
      unfolding world_relay_def
      by (rule returns_bindI[OF relay_step_ok]) (use s in \<open>auto simp: world_ok_def\<close>)
    then show ?thesis using RelayTurn w by (auto simp: world_step_def elim!: returns_mono)
  next
    case (ClientTurn m)
    have "returns (world_client rz wr m w) (\<lambda>w'. world_ok w' \<and> screen_poisoned (ses w') = screen_poisoned (ses w))"
      unfolding world_client_def
      by (rule returns_bindI[OF client_message_ok]) (use s ev ClientTurn in \<open>auto simp: world_ok_def event_ok_def\<close>)
    then show ?thesis using ClientTurn w by (auto simp: world_step_def elim!: returns_mono)
  qed
qed

lemma world_steps_total:
  assumes "width_ok cwidth"
  shows "total_steps world_ok event_ok (world_step advance cwidth ser H rz wr)"
  by unfold_locales (use world_step_ok[OF assms] in \<open>blast intro: returns_mono\<close>)

text \<open>A screen whose mutex is poisoned has been poisoned by the reader, on one of its reads.\<close>

lemma poisoned_by_reader:
  assumes cw: "width_ok cwidth" and "world_ok w" "list_all event_ok evs"
    and "foldm (world_step advance cwidth ser H rz wr) evs w = Some w'"
    and "screen_poisoned (ses w')" "\<not> screen_poisoned (ses w)"
  shows "\<exists>pre ev post v. evs = pre @ ev # post \<and> foldm (world_step advance cwidth ser H rz wr) pre w = Some v
    \<and> risky advance cwidth ev v"
  using assms(2-)
proof (induction evs arbitrary: w)
  case (Cons ev evs)
  obtain v where v: "world_step advance cwidth ser H rz wr ev w = Some v" "world_ok v"
    "screen_poisoned (ses v) \<longrightarrow> risky advance cwidth ev w"
    "foldm (world_step advance cwidth ser H rz wr) evs v = Some w'"
    using world_step_ok[OF cw Cons.prems(1), of ev advance ser H rz wr] Cons.prems(2,3,5) by (auto elim!: returnsE)
  show ?case
  proof (cases "screen_poisoned (ses v)")
    case True
    then have "ev # evs = [] @ ev # evs" "foldm (world_step advance cwidth ser H rz wr) [] w = Some w" "risky advance cwidth ev w"
      using v(3) by simp_all
    then show ?thesis by blast
  next
    case False
    obtain pre e post u where "evs = pre @ e # post" "foldm (world_step advance cwidth ser H rz wr) pre v = Some u" "risky advance cwidth e u"
      using Cons.IH[OF v(2) _ v(4) Cons.prems(4) False] Cons.prems(2) by auto
    then have "ev # evs = (ev # pre) @ e # post" "foldm (world_step advance cwidth ser H rz wr) (ev # pre) w = Some u" "risky advance cwidth e u"
      using v(1) by simp_all
    then show ?thesis by blast
  qed
qed simp

end
