(* ===== verification/Startup.thy ===== *)
theory Startup
  imports Style
begin

text \<open>
  Getting client and server together: the socket directory (\<open>src/src/server/socket.rs\<close>), the launch of
  the server by a client (\<open>src/src/client/server_launcher.rs\<close>) and the server's claim of the socket
  (\<open>run_server\<close> in \<open>src/src/server/mod.rs\<close>).

  The file system is the operating system's. Its calls are parameters on a file system of any type:
  \<open>mkdir\<close>, \<open>lstat\<close> and \<open>chmod\<close>; what the code relies on is \<open>fs_ok\<close>. Attempts to connect, the file lock
  and the spawning of a process are decided by the environment.

  Launch and claim are given twice: as the functions a single process runs, and as a machine in which
  any number of clients and servers take their steps in any order, every system call being one step.

  Shown here: a directory is used only if it is no symbolic link and belongs to the user; as long as
  no client gives up on a server that is still starting, at most one server listens and the socket is
  its own; a launch that gives up can end with two servers listening, the second having taken the
  socket of the first.
\<close>

subsection \<open>The socket directory\<close>

type_synonym path = bytes

datatype file_kind = Directory | RegularFile | Symlink

record metadata =
  md_kind :: file_kind
  md_uid :: nat
  md_mode :: "32 word"

datatype mkdir_error = AlreadyExists | MkdirFailed bytes

datatype socket_error =
    CannotStat path bytes
  | IsSymlink path
  | WrongOwner path nat nat
  | CannotCreate path bytes

definition path_join :: "path \<Rightarrow> path \<Rightarrow> path" where
  "path_join base p = (if base = [] \<or> last base = CHR ''/'' then base @ p else base @ ''/'' @ p)"

fun decimal :: "nat \<Rightarrow> bytes" where
  "decimal n = (if n < 10 then [digit n] else decimal (n div 10) @ [digit (n mod 10)])"

declare decimal.simps [simp del]

definition dir_path :: "nat \<Rightarrow> path option \<Rightarrow> path" where
  "dir_path uid runtime_dir =
     (case runtime_dir of Some xdg \<Rightarrow> path_join xdg ''retach'' | None \<Rightarrow> ''/tmp/retach-'' @ decimal uid)"

abbreviation owner_only :: "32 word" where "owner_only \<equiv> 0x1C0"
abbreviation perm_bits :: "32 word \<Rightarrow> 32 word" where "perm_bits m \<equiv> and m 0x1FF"

definition socket_dir_impl ::
  "(32 word \<Rightarrow> path \<Rightarrow> 'fs \<Rightarrow> (mkdir_error + unit) \<times> 'fs) \<Rightarrow> (path \<Rightarrow> 'fs \<Rightarrow> bytes + metadata)
     \<Rightarrow> (32 word \<Rightarrow> path \<Rightarrow> 'fs \<Rightarrow> (bytes + unit) \<times> 'fs) \<Rightarrow> nat \<Rightarrow> path option \<Rightarrow> 'fs \<Rightarrow> (socket_error + path) \<times> 'fs" where
  "socket_dir_impl mkdir lstat chmod uid runtime_dir fs =
     (let dir = dir_path uid runtime_dir in
      case mkdir owner_only dir fs of
        (Inr _, fs) \<Rightarrow> (Inr dir, fs)
      | (Inl AlreadyExists, fs) \<Rightarrow>
          (case lstat dir fs of
             Inl e \<Rightarrow> (Inl (CannotStat dir e), fs)
           | Inr meta \<Rightarrow>
               if md_kind meta = Symlink then (Inl (IsSymlink dir), fs)
               else if md_uid meta \<noteq> uid then (Inl (WrongOwner dir (md_uid meta) uid), fs)
               else if perm_bits (md_mode meta) \<noteq> owner_only
               then (Inr dir, snd (chmod owner_only dir fs))
               else (Inr dir, fs))
      | (Inl (MkdirFailed e), fs) \<Rightarrow> (Inl (CannotCreate dir e), fs))"

text \<open>The two paths in it, given the outcome of \<open>socket_dir\<close>.\<close>

definition socket_path :: "socket_error + path \<Rightarrow> socket_error + path" where
  "socket_path dir = map_sum id (\<lambda>d. path_join d ''retach.sock'') dir"

definition lock_path :: "socket_error + path \<Rightarrow> socket_error + path" where
  "lock_path dir = map_sum id (\<lambda>d. path_join d ''retach.lock'') dir"

text \<open>
  What the code relies on. \<open>mkdir\<close> makes a directory of the caller's with the mode asked for (a umask
  that takes permissions from the owner is excluded); \<open>chmod\<close> of a path that is no symbolic link changes
  the permission bits only (of what a link would do nothing is said); a call that fails changes nothing.
\<close>

definition fs_ok ::
  "(32 word \<Rightarrow> path \<Rightarrow> 'fs \<Rightarrow> (mkdir_error + unit) \<times> 'fs) \<Rightarrow> (path \<Rightarrow> 'fs \<Rightarrow> bytes + metadata)
     \<Rightarrow> (32 word \<Rightarrow> path \<Rightarrow> 'fs \<Rightarrow> (bytes + unit) \<times> 'fs) \<Rightarrow> nat \<Rightarrow> bool" where
  "fs_ok mkdir lstat chmod uid \<longleftrightarrow>
     (\<forall>p fs. case mkdir owner_only p fs of
        (Inr _, fs') \<Rightarrow> (\<exists>m. lstat p fs' = Inr \<lparr>md_kind = Directory, md_uid = uid, md_mode = m\<rparr> \<and> perm_bits m = owner_only)
      | (Inl _, fs') \<Rightarrow> fs' = fs)
     \<and> (\<forall>m p fs. case chmod m p fs of
        (Inr _, fs') \<Rightarrow> (\<forall>md. lstat p fs = Inr md \<and> md_kind md \<noteq> Symlink \<longrightarrow>
            (\<exists>m'. lstat p fs' = Inr (md\<lparr>md_mode := m'\<rparr>) \<and> perm_bits m' = perm_bits m))
      | (Inl _, fs') \<Rightarrow> fs' = fs)"

lemma fs_okD:
  assumes "fs_ok mkdir lstat chmod uid"
  shows "mkdir owner_only p fs = (Inr u, fs') \<Longrightarrow>
      \<exists>m. lstat p fs' = Inr \<lparr>md_kind = Directory, md_uid = uid, md_mode = m\<rparr> \<and> perm_bits m = owner_only"
    "mkdir owner_only p fs = (Inl e, fs') \<Longrightarrow> fs' = fs"
    "chmod m p fs = (Inr u', fs') \<Longrightarrow> lstat p fs = Inr md \<Longrightarrow> md_kind md \<noteq> Symlink \<Longrightarrow>
      \<exists>m'. lstat p fs' = Inr (md\<lparr>md_mode := m'\<rparr>) \<and> perm_bits m' = perm_bits m"
    "chmod m p fs = (Inl e', fs') \<Longrightarrow> fs' = fs"
proof -
  note ok = assms[unfolded fs_ok_def]
  show "mkdir owner_only p fs = (Inr u, fs') \<Longrightarrow>
      \<exists>m. lstat p fs' = Inr \<lparr>md_kind = Directory, md_uid = uid, md_mode = m\<rparr> \<and> perm_bits m = owner_only"
    using ok[THEN conjunct1, rule_format, where p = p and fs = fs] by simp
  show "mkdir owner_only p fs = (Inl e, fs') \<Longrightarrow> fs' = fs"
    using ok[THEN conjunct1, rule_format, where p = p and fs = fs] by simp
  show "chmod m p fs = (Inr u', fs') \<Longrightarrow> lstat p fs = Inr md \<Longrightarrow> md_kind md \<noteq> Symlink \<Longrightarrow>
      \<exists>m'. lstat p fs' = Inr (md\<lparr>md_mode := m'\<rparr>) \<and> perm_bits m' = perm_bits m"
    using ok[THEN conjunct2, rule_format, where m = m and p = p and fs = fs] by simp
  show "chmod m p fs = (Inl e', fs') \<Longrightarrow> fs' = fs"
    using ok[THEN conjunct2, rule_format, where m = m and p = p and fs = fs] by simp
qed

lemma socket_dir_checked:
  assumes fs: "fs_ok mkdir lstat chmod uid" and r: "socket_dir_impl mkdir lstat chmod uid runtime_dir fs = (Inr dir, fs')"
  shows "dir = dir_path uid runtime_dir \<and> (\<exists>md. lstat dir fs' = Inr md \<and> md_kind md \<noteq> Symlink \<and> md_uid md = uid
    \<and> (perm_bits (md_mode md) = owner_only \<or> (\<exists>e. fst (chmod owner_only dir fs) = Inl e)))"
proof -
  let ?d = "dir_path uid runtime_dir"
  obtain res fs1 where mk: "mkdir owner_only ?d fs = (res, fs1)" by fastforce
  have d: "dir = ?d" using r mk by (auto simp: socket_dir_impl_def Let_def split: sum.splits mkdir_error.splits if_splits)
  show ?thesis
  proof (cases res)
    case (Inr u)
    then show ?thesis using r mk d fs_okD(1)[OF fs, of ?d fs u fs1] by (auto simp: socket_dir_impl_def)
  next
    case (Inl e)
    then have same: "fs1 = fs" using mk fs_okD(2)[OF fs] by simp
    obtain md where md: "lstat ?d fs = Inr md" "md_kind md \<noteq> Symlink" "md_uid md = uid" "e = AlreadyExists"
      using r mk Inl same by (auto simp: socket_dir_impl_def Let_def split: sum.splits mkdir_error.splits if_splits)
    show ?thesis
    proof (cases "perm_bits (md_mode md) = owner_only")
      case True
      then show ?thesis using r mk Inl same md d by (simp add: socket_dir_impl_def)
    next
      case False
      obtain c fs2 where c: "chmod owner_only ?d fs = (c, fs2)" by fastforce
      then have "fs' = fs2" using r mk Inl same md False by (simp add: socket_dir_impl_def)
      then show ?thesis
        using c md d fs_okD(3)[OF fs, of owner_only ?d fs _ fs2 md] fs_okD(4)[OF fs, of owner_only ?d fs _ fs2]
        by (cases c) auto
    qed
  qed
qed

text \<open>Any other kind of file passes: the test is for links only.\<close>

lemma regular_file_passes:
  assumes "mkdir owner_only (dir_path uid rd) fs = (Inl AlreadyExists, fs)"
    "lstat (dir_path uid rd) fs = Inr \<lparr>md_kind = RegularFile, md_uid = uid, md_mode = owner_only\<rparr>"
  shows "socket_dir_impl mkdir lstat chmod uid rd fs = (Inr (dir_path uid rd), fs)"
  using assms by (simp add: socket_dir_impl_def)

subsection \<open>The launch, as one client runs it\<close>

abbreviation SERVER_POLL_MAX :: nat where "SERVER_POLL_MAX \<equiv> 50"

datatype lock_result = LockHeld | LockBusy | LockFailed bytes

datatype launch_error =
    NoSocketDir socket_error
  | NoLockFile bytes
  | OtherTimedOut
  | LockError bytes
  | NoExecutable bytes
  | NoLogFile bytes
  | SpawnError bytes
  | NotStarted

text \<open>
  The environment of a launch: the outcomes of the two calls of \<open>socket_dir\<close>, that of the n-th attempt to
  connect, and the errors of the other calls. The result comes with the number of attempts made and whether a server was spawned.
\<close>

record launch_env =
  first_dir :: "socket_error + path"
  second_dir :: "socket_error + path"
  connects :: "nat \<Rightarrow> bool"
  open_lock :: "bytes option"
  flock :: lock_result
  current_exe :: "bytes option"
  open_log :: "bytes option"
  spawn_server :: "bytes option"

fun wait_for_server :: "nat \<Rightarrow> (nat \<Rightarrow> bool) \<Rightarrow> nat \<Rightarrow> bool \<times> nat" where
  "wait_for_server 0 conn k = (False, k)"
| "wait_for_server (Suc n) conn k = (if conn k then (True, Suc k) else wait_for_server n conn (Suc k))"

definition ensure_server_running :: "launch_env \<Rightarrow> (launch_error + unit) \<times> nat \<times> bool" where
  "ensure_server_running env =
     (case socket_path (first_dir env) of Inl e \<Rightarrow> (Inl (NoSocketDir e), 0, False) | Inr _ \<Rightarrow>
      if connects env 0 then (Inr (), 1, False)
      else (case lock_path (second_dir env) of Inl e \<Rightarrow> (Inl (NoSocketDir e), 1, False) | Inr _ \<Rightarrow>
       (case open_lock env of
        Some e \<Rightarrow> (Inl (NoLockFile e), 1, False)
      | None \<Rightarrow>
          (case flock env of
             LockFailed e \<Rightarrow> (Inl (LockError e), 1, False)
           | LockBusy \<Rightarrow>
               (let (ok, k) = wait_for_server SERVER_POLL_MAX (connects env) 1
                in (if ok then Inr () else Inl OtherTimedOut, k, False))
           | LockHeld \<Rightarrow>
               if connects env 1 then (Inr (), 2, False)
               else (case current_exe env of
                 Some e \<Rightarrow> (Inl (NoExecutable e), 2, False)
               | None \<Rightarrow>
                   (case open_log env of
                      Some e \<Rightarrow> (Inl (NoLogFile e), 2, False)
                    | None \<Rightarrow>
                        (case spawn_server env of
                           Some e \<Rightarrow> (Inl (SpawnError e), 2, False)
                         | None \<Rightarrow>
                             (let (ok, k) = wait_for_server SERVER_POLL_MAX (connects env) 2
                              in (if ok then Inr () else Inl NotStarted, k, True)))))))))"

lemma wait_for_server_eq:
  "wait_for_server n c k = (ok, k') \<Longrightarrow>
     (if ok then k < k' \<and> k' \<le> k + n \<and> c (k' - 1) else k' = k + n \<and> (\<forall>j<n. \<not> c (k + j)))"
proof (induction n arbitrary: k)
  case (Suc n)
  show ?case
  proof (cases "c k")
    case False
    then have "if ok then Suc k < k' \<and> k' \<le> Suc k + n \<and> c (k' - 1) else k' = Suc k + n \<and> (\<forall>j<n. \<not> c (Suc k + j))"
      using Suc.prems by (intro Suc.IH) simp
    moreover have "\<not> c (k + j)" if "\<forall>j<n. \<not> c (Suc k + j)" "j < Suc n" for j
      using that False by (cases j) auto
    ultimately show ?thesis by (simp split: if_split_asm)
  qed (use Suc.prems in auto)
qed simp

text \<open>A launch that succeeds has connected at its last attempt; a server is spawned only under the lock
  and only after two attempts have failed.\<close>

lemma launch_outcome:
  assumes "ensure_server_running env = (r, k, spawned)"
  shows "k \<le> SERVER_POLL_MAX + 2" "r = Inr () \<Longrightarrow> 0 < k \<and> connects env (k - 1)"
    "spawned \<Longrightarrow> flock env = LockHeld \<and> \<not> connects env 0 \<and> \<not> connects env 1"
proof -
  obtain ok k1 where busy: "wait_for_server SERVER_POLL_MAX (connects env) (Suc 0) = (ok, k1)" by fastforce
  obtain up k2 where held: "wait_for_server SERVER_POLL_MAX (connects env) 2 = (up, k2)" by fastforce
  have b: "0 < k1" "k1 \<le> 51" "ok \<Longrightarrow> connects env (k1 - Suc 0)" using wait_for_server_eq[OF busy] by (simp_all split: if_split_asm)
  have h: "0 < k2" "k2 \<le> 52" "up \<Longrightarrow> connects env (k2 - Suc 0)" using wait_for_server_eq[OF held] by (simp_all split: if_split_asm)
  note eq = assms[unfolded ensure_server_running_def]
  show "k \<le> SERVER_POLL_MAX + 2"
    using eq b(2) h(2) by (simp_all add: busy held split: if_split_asm option.splits lock_result.splits sum.splits)
  show "r = Inr () \<Longrightarrow> 0 < k \<and> connects env (k - 1)"
    using eq b(1,3) h(1,3) by (simp add: busy held split: if_split_asm option.splits lock_result.splits sum.splits)
  show "spawned \<Longrightarrow> flock env = LockHeld \<and> \<not> connects env 0 \<and> \<not> connects env 1"
    using eq by (simp add: busy held split: if_split_asm option.splits lock_result.splits sum.splits)
qed

subsection \<open>The claim of the socket, as one server runs it\<close>

datatype claim_error = OtherServer | BindFailed bytes

text \<open>
  Whether the path exists, whether a server answers on it, and the error of \<open>bind\<close>, which depends on
  whether the path was free by then. \<open>Inr\<close> says whether a stale socket was removed first.
\<close>

definition claim_socket :: "bool \<Rightarrow> bool \<Rightarrow> (bool \<Rightarrow> bytes option) \<Rightarrow> claim_error + bool" where
  "claim_socket path_exists answers bind_error =
     (if path_exists \<and> answers then Inl OtherServer
      else (case bind_error path_exists of Some e \<Rightarrow> Inl (BindFailed e) | None \<Rightarrow> Inr path_exists))"

subsection \<open>Many clients and servers\<close>

text \<open>
  Where a client stands in \<open>ensure_server_running\<close> and a server in \<open>run_server\<close>. \<open>Await n\<close> and \<open>Polling n\<close>
  have \<open>n\<close> attempts left. The socket file carries the number of the server that bound it. \<open>abandoned\<close> is
  an observation: a client left its launch, or was killed, while a server was starting.

  \<open>LaunchQuits\<close> is a client that leaves for any reason: an error of a call, or a signal. \<open>ServerKilled\<close>
  is a server that ends without running \<open>SocketGuard\<close>, also by an error before it listens. Binding the
  socket and listening on it are one step.
\<close>

datatype client_pc = Probe | TakeLock | Await nat | Recheck | Polling nat | ServerFound | GaveUp

datatype server_pc = CheckPath | ProbePath | RemovePath | BindPath | Listening | Gone

record launch =
  clients :: "client_pc list"
  lock :: "nat option"
  servers :: "server_pc list"
  sock_file :: "nat option"
  abandoned :: bool

definition launch_new :: launch where
  "launch_new = \<lparr>clients = [], lock = None, servers = [], sock_file = None, abandoned = False\<rparr>"

definition answering :: "launch \<Rightarrow> bool" where
  "answering s = (case sock_file s of Some j \<Rightarrow> j < length (servers s) \<and> servers s ! j = Listening | None \<Rightarrow> False)"

definition starting :: "server_pc \<Rightarrow> bool" where
  "starting p \<longleftrightarrow> p \<noteq> Listening \<and> p \<noteq> Gone"

definition goto_client :: "nat \<Rightarrow> client_pc \<Rightarrow> launch \<Rightarrow> launch" where
  "goto_client i p s = s\<lparr>clients := (clients s)[i := p]\<rparr>"

definition goto_server :: "nat \<Rightarrow> server_pc \<Rightarrow> launch \<Rightarrow> launch" where
  "goto_server j p s = s\<lparr>servers := (servers s)[j := p]\<rparr>"

text \<open>A client that leaves gives its lock back, also when it is killed.\<close>

definition leave :: "nat \<Rightarrow> client_pc \<Rightarrow> launch \<Rightarrow> launch" where
  "leave i p s =
     (goto_client i p s)\<lparr>lock := (if lock s = Some i then None else lock s),
        abandoned := abandoned s \<or> lock s = Some i \<and> list_ex starting (servers s)\<rparr>"

definition client_turn :: "nat \<Rightarrow> launch \<Rightarrow> launch" where
  "client_turn i s =
     (case clients s ! i of
        Probe \<Rightarrow> goto_client i (if answering s then ServerFound else TakeLock) s
      | TakeLock \<Rightarrow>
          (if lock s = None then goto_client i Recheck (s\<lparr>lock := Some i\<rparr>)
           else goto_client i (Await SERVER_POLL_MAX) s)
      | Await 0 \<Rightarrow> goto_client i GaveUp s
      | Await (Suc n) \<Rightarrow> goto_client i (if answering s then ServerFound else Await n) s
      | Recheck \<Rightarrow>
          if answering s then leave i ServerFound s
          else goto_client i (Polling SERVER_POLL_MAX) (s\<lparr>servers := servers s @ [CheckPath]\<rparr>)
      | Polling 0 \<Rightarrow> leave i GaveUp s
      | Polling (Suc n) \<Rightarrow> if answering s then leave i ServerFound s else goto_client i (Polling n) s
      | ServerFound \<Rightarrow> s
      | GaveUp \<Rightarrow> s)"

definition server_turn :: "nat \<Rightarrow> launch \<Rightarrow> launch" where
  "server_turn j s =
     (case servers s ! j of
        CheckPath \<Rightarrow> goto_server j (if sock_file s = None then BindPath else ProbePath) s
      | ProbePath \<Rightarrow> goto_server j (if answering s then Gone else RemovePath) s
      | RemovePath \<Rightarrow> goto_server j BindPath (s\<lparr>sock_file := None\<rparr>)
      | BindPath \<Rightarrow>
          if sock_file s = None then goto_server j Listening (s\<lparr>sock_file := Some j\<rparr>) else goto_server j Gone s
      | _ \<Rightarrow> s)"

text \<open>The end of a server: \<open>SocketGuard\<close> removes whatever is at the path; a killed server leaves it.\<close>

definition server_exit :: "nat \<Rightarrow> launch \<Rightarrow> launch" where
  "server_exit j s = (if servers s ! j = Listening then goto_server j Gone (s\<lparr>sock_file := None\<rparr>) else s)"

datatype launch_event = Join | LaunchTurn nat | LaunchQuits nat | ServerTurn nat | ServerExits nat | ServerKilled nat

definition launch_step :: "launch_event \<Rightarrow> launch \<Rightarrow> launch" where
  "launch_step ev s =
     (case ev of
        Join \<Rightarrow> s\<lparr>clients := clients s @ [Probe]\<rparr>
      | LaunchTurn i \<Rightarrow> if i < length (clients s) then client_turn i s else s
      | LaunchQuits i \<Rightarrow> if i < length (clients s) then leave i GaveUp s else s
      | ServerTurn j \<Rightarrow> if j < length (servers s) then server_turn j s else s
      | ServerExits j \<Rightarrow> if j < length (servers s) then server_exit j s else s
      | ServerKilled j \<Rightarrow> if j < length (servers s) then goto_server j Gone s else s)"

subsection \<open>One server\<close>

text \<open>
  Who holds the lock is where a holder stands, and the socket file names a server. Unless a launch was
  abandoned, only the last server can be starting, with its client polling under the lock; then no
  server listens. A server that listens has the socket file.
\<close>

definition holds :: "client_pc \<Rightarrow> bool" where
  "holds p \<longleftrightarrow> p = Recheck \<or> (\<exists>n. p = Polling n)"

definition lock_ok :: "launch \<Rightarrow> bool" where
  "lock_ok s \<longleftrightarrow>
     (\<forall>i<length (clients s). holds (clients s ! i) \<longleftrightarrow> lock s = Some i)
     \<and> (\<forall>i. lock s = Some i \<longrightarrow> i < length (clients s))"

definition holder_polls :: "launch \<Rightarrow> bool" where
  "holder_polls s \<longleftrightarrow> (\<exists>i n. lock s = Some i \<and> clients s ! i = Polling n)"

definition servers_ok :: "launch \<Rightarrow> bool" where
  "servers_ok s \<longleftrightarrow>
     (\<forall>j<length (servers s). starting (servers s ! j) \<longrightarrow>
        Suc j = length (servers s) \<and> holder_polls s
        \<and> Listening \<notin> set (servers s) \<and> (servers s ! j = BindPath \<longrightarrow> sock_file s = None))
     \<and> (\<forall>j<length (servers s). servers s ! j = Listening \<longrightarrow> sock_file s = Some j)"

definition launch_ok :: "launch \<Rightarrow> bool" where
  "launch_ok s \<longleftrightarrow> lock_ok s \<and> (abandoned s \<or> servers_ok s)"

lemma starting_simps [simp]: "\<not> starting Listening" "\<not> starting Gone" "starting CheckPath" "starting ProbePath"
    "starting RemovePath" "starting BindPath"
  by (simp_all add: starting_def)

lemmas launch_moves = goto_client_def goto_server_def leave_def

lemma servers_okD:
  assumes "servers_ok s" "j < length (servers s)"
  shows "servers s ! j = Listening \<Longrightarrow> sock_file s = Some j"
    "starting (servers s ! j) \<Longrightarrow> Suc j = length (servers s) \<and> holder_polls s"
    "starting (servers s ! j) \<Longrightarrow> k < length (servers s) \<Longrightarrow> servers s ! k \<noteq> Listening"
    "servers s ! j = BindPath \<Longrightarrow> sock_file s = None"
proof -
  note ok = assms(1)[unfolded servers_ok_def]
  show "servers s ! j = Listening \<Longrightarrow> sock_file s = Some j" using ok assms(2) by blast
  show "starting (servers s ! j) \<Longrightarrow> Suc j = length (servers s) \<and> holder_polls s"
    using ok assms(2) by blast
  show "starting (servers s ! j) \<Longrightarrow> k < length (servers s) \<Longrightarrow> servers s ! k \<noteq> Listening"
    using ok assms(2) nth_mem[of k "servers s"] by metis
  show "servers s ! j = BindPath \<Longrightarrow> sock_file s = None"
    using ok assms(2) by (simp add: starting_def)
qed

lemma answering_settled:
  assumes "servers_ok s" "answering s"
  shows "\<not> list_ex starting (servers s)"
proof -
  obtain k where "k < length (servers s)" "servers s ! k = Listening"
    using assms(2) by (auto simp: answering_def split: option.splits)
  then show ?thesis using servers_okD(3)[OF assms(1), of _ k] by (simp add: list_ex_length) blast
qed

lemma not_starting:
  assumes "servers_ok s" "lock s = Some i" "clients s ! i = Recheck"
  shows "\<not> list_ex starting (servers s)"
  using servers_okD(2)[OF assms(1)] assms(2,3) by (auto simp: list_ex_length holder_polls_def)

lemma lock_move:
  assumes "lock_ok s" "i < length (clients s)" "holds p \<longleftrightarrow> holds (clients s ! i)"
  shows "lock_ok (goto_client i p s)"
  using assms by (auto simp: lock_ok_def goto_client_def nth_list_update)

lemma lock_release:
  assumes "lock_ok s" "i < length (clients s)" "\<not> holds p"
  shows "lock_ok (leave i p s)"
  using assms by (auto simp: lock_ok_def launch_moves nth_list_update)

lemma lock_take:
  assumes "lock_ok s" "i < length (clients s)" "lock s = None"
  shows "lock_ok (goto_client i Recheck (s\<lparr>lock := Some i\<rparr>))"
  using assms by (auto simp: lock_ok_def goto_client_def nth_list_update holds_def)

lemma holds_simps [simp]: "holds Recheck" "holds (Polling n)" "\<not> holds Probe" "\<not> holds TakeLock" "\<not> holds (Await n)"
    "\<not> holds ServerFound" "\<not> holds GaveUp"
  by (simp_all add: holds_def)

lemma lock_servers [simp]: "lock_ok (s\<lparr>servers := ss\<rparr>) = lock_ok s" "lock_ok (s\<lparr>sock_file := f\<rparr>) = lock_ok s"
    "lock_ok (goto_server j p s) = lock_ok s"
  by (simp_all add: lock_ok_def goto_server_def)

lemma client_turn_lock:
  assumes "lock_ok s" "i < length (clients s)"
  shows "lock_ok (client_turn i s)"
  using assms
  by (simp add: client_turn_def lock_move lock_release lock_take split: client_pc.split nat.split)

lemma launch_step_lock: "lock_ok s \<Longrightarrow> lock_ok (launch_step ev s)"
  by (auto simp: launch_step_def client_turn_lock lock_release server_turn_def server_exit_def
      split: launch_event.split server_pc.split)
     (auto simp: lock_ok_def nth_append less_Suc_eq)

text \<open>When no server is starting, only the owner of the socket matters.\<close>

lemma servers_ok_settled:
  "\<not> list_ex starting (servers s) \<Longrightarrow>
     servers_ok s \<longleftrightarrow> (\<forall>j<length (servers s). servers s ! j = Listening \<longrightarrow> sock_file s = Some j)"
  by (auto simp: servers_ok_def list_ex_length)

lemma servers_ok_cong:
  "servers_ok s \<Longrightarrow> servers t = servers s \<Longrightarrow> sock_file t = sock_file s \<Longrightarrow> (holder_polls s \<Longrightarrow> holder_polls t) \<Longrightarrow> servers_ok t"
  by (auto simp: servers_ok_def)

lemma servers_move_client:
  assumes "servers_ok s" "i < length (clients s)" "(\<exists>n. clients s ! i = Polling n) \<longrightarrow> (\<exists>n. p = Polling n)"
  shows "servers_ok (goto_client i p s)"
proof (rule servers_ok_cong[OF assms(1)])
  assume "holder_polls s"
  then obtain k m where k: "lock s = Some k" "clients s ! k = Polling m" by (auto simp: holder_polls_def)
  then show "holder_polls (goto_client i p s)"
    using assms(2,3) by (cases "k = i") (auto simp: holder_polls_def goto_client_def)
qed (simp_all add: goto_client_def)

lemma servers_leave:
  assumes "servers_ok s" "lock_ok s" "i < length (clients s)" "\<not> abandoned (leave i p s)"
  shows "servers_ok (leave i p s)"
proof (cases "lock s = Some i")
  case True
  then have "\<not> list_ex starting (servers s)" using assms(4) by (simp add: leave_def)
  then show ?thesis using assms(1) by (simp add: servers_ok_settled launch_moves)
next
  case False
  then have "\<not> holds (clients s ! i)" using assms(2,3) by (simp add: lock_ok_def)
  then have "servers_ok (goto_client i p s)" using assms(1,3) by (intro servers_move_client) (auto simp: holds_def)
  then show ?thesis
    by (rule servers_ok_cong) (use False in \<open>simp_all add: launch_moves holder_polls_def\<close>)
qed

lemma servers_take:
  assumes "servers_ok s" "lock s = None"
  shows "servers_ok (goto_client i Recheck (s\<lparr>lock := Some i\<rparr>))"
proof -
  have "\<not> list_ex starting (servers s)" using servers_okD(2)[OF assms(1)] assms(2) by (auto simp: list_ex_length holder_polls_def)
  then show ?thesis using assms(1) by (simp add: servers_ok_settled goto_client_def)
qed

lemma servers_spawn:
  assumes "servers_ok s" "i < length (clients s)" "lock s = Some i" "clients s ! i = Recheck" "\<not> answering s"
  shows "servers_ok (goto_client i (Polling n) (s\<lparr>servers := servers s @ [CheckPath]\<rparr>))"
proof -
  have settled: "\<not> list_ex starting (servers s)" by (rule not_starting[OF assms(1,3,4)])
  have quiet: "servers s ! j \<noteq> Listening" if "j < length (servers s)" for j
    using servers_okD(1)[OF assms(1) that] assms(5) that by (auto simp: answering_def)
  then have "Listening \<notin> set (servers s)" by (auto simp: in_set_conv_nth)
  moreover have "\<not> starting (servers s ! j)" if "j < length (servers s)" for j
    using settled that by (simp add: list_ex_length)
  ultimately show ?thesis
    using assms(2,3) quiet by (auto simp: servers_ok_def holder_polls_def goto_client_def nth_append less_Suc_eq)
qed

lemma client_turn_servers:
  assumes s: "servers_ok s" "lock_ok s" and i: "i < length (clients s)" and a: "\<not> abandoned (client_turn i s)"
  shows "servers_ok (client_turn i s)"
proof (cases "clients s ! i")
  case Recheck
  then have "lock s = Some i" using s(2) i by (auto simp: lock_ok_def)
  then show ?thesis
    using s i a Recheck servers_leave[OF s i] servers_spawn[OF s(1) i] by (simp add: client_turn_def split: if_split_asm)
qed (use s i a servers_leave[OF s i] servers_take[OF s(1)] servers_move_client[OF s(1) i] in
  \<open>auto simp: client_turn_def split: nat.splits if_splits\<close>)

text \<open>Turns of a server: the one that is starting is the last, and nobody listens meanwhile.\<close>

lemma servers_move:
  assumes "servers_ok s" "j < length (servers s)" "starting (servers s ! j)" "p \<noteq> Listening" "p = BindPath \<longrightarrow> f = None"
  shows "servers_ok (goto_server j p (s\<lparr>sock_file := f\<rparr>))"
proof -
  note d = servers_okD(2,3)[OF assms(1,2,3)]
  have "servers s ! k \<noteq> Listening" if "k < length (servers s)" for k using d(2) that by blast
  moreover have "k = j" if "k < length (servers s)" "starting (servers s ! k)" for k
    using servers_okD(2)[OF assms(1) that] d(1) by simp
  moreover have "Listening \<notin> set ((servers s)[j := p])"
    using calculation(1) assms(2,4) by (auto simp: in_set_conv_nth nth_list_update)
  moreover have "holder_polls (goto_server j p (s\<lparr>sock_file := f\<rparr>))" using d(1) by (simp add: holder_polls_def goto_server_def)
  ultimately show ?thesis
    using d(1) assms(2,4,5) by (auto simp: servers_ok_def goto_server_def nth_list_update)
qed

lemma servers_listen:
  assumes "servers_ok s" "j < length (servers s)" "servers s ! j = BindPath"
  shows "servers_ok (goto_server j Listening (s\<lparr>sock_file := Some j\<rparr>))"
proof -
  note d = servers_okD(2,3)[OF assms(1,2)]
  have "k = j" if "k < length (servers s)" "starting (servers s ! k)" for k
    using servers_okD(2)[OF assms(1) that] d(1) assms(3) by simp
  then have "\<not> list_ex starting ((servers s)[j := Listening])"
    using assms(2) by (auto simp: list_ex_length nth_list_update split: if_splits)
  then show ?thesis
    using d(2) assms(2,3) by (auto simp: servers_ok_settled goto_server_def nth_list_update split: if_splits)
qed

text \<open>A server that ends: another one may be starting only if this one was not listening.\<close>

lemma servers_end:
  assumes "servers_ok s" "j < length (servers s)" "f = sock_file s \<or> servers s ! j = Listening"
  shows "servers_ok (goto_server j Gone (s\<lparr>sock_file := f\<rparr>))"
proof (cases "servers s ! j = Listening")
  case True
  have "\<not> starting (servers s ! k)" if "k < length (servers s)" for k
    using servers_okD(3)[OF assms(1) that _ assms(2)] True by blast
  then have "\<not> list_ex starting ((servers s)[j := Gone])" using assms(2) by (auto simp: list_ex_length nth_list_update split: if_splits)
  moreover have "(servers s)[j := Gone] ! k \<noteq> Listening" if "k < length (servers s)" for k
    using servers_okD(1)[OF assms(1) that] servers_okD(1)[OF assms(1,2) True] assms(2) that by (auto simp: nth_list_update)
  ultimately show ?thesis by (simp add: servers_ok_settled goto_server_def)
next
  case False
  note d = servers_okD[OF assms(1)]
  have "Listening \<notin> set ((servers s)[j := Gone])" if "Listening \<notin> set (servers s)"
    using that set_update_subset_insert[of "servers s" j Gone] by auto
  moreover have "Listening \<notin> set (servers s)" if "k < length (servers s)" "starting (servers s ! k)" for k
    using d(3)[OF that] by (auto simp: in_set_conv_nth)
  ultimately show ?thesis
    using assms(2,3) False d(1,2,4) unfolding servers_ok_def goto_server_def holder_polls_def
    by (auto simp: nth_list_update split: if_splits)
qed

lemma server_turn_servers:
  assumes "servers_ok s" "j < length (servers s)"
  shows "servers_ok (server_turn j s)"
proof (cases "servers s ! j")
  case CheckPath
  let ?p = "if sock_file s = None then BindPath else ProbePath"
  have "servers_ok (goto_server j ?p (s\<lparr>sock_file := sock_file s\<rparr>))"
    by (rule servers_move[OF assms]) (simp_all add: CheckPath)
  moreover have "server_turn j s = goto_server j ?p s" by (simp add: server_turn_def CheckPath)
  ultimately show ?thesis by simp
next
  case ProbePath
  then show ?thesis
    using assms servers_move[OF assms, of Gone "sock_file s"] servers_move[OF assms, of RemovePath "sock_file s"]
    by (simp add: server_turn_def)
next
  case RemovePath
  then show ?thesis using servers_move[OF assms, of BindPath None] by (simp add: server_turn_def)
next
  case BindPath
  then show ?thesis
    using servers_listen[OF assms] servers_okD(4)[OF assms] by (simp add: server_turn_def)
qed (use assms in \<open>simp_all add: server_turn_def\<close>)

lemma abandoned_stays: "abandoned s \<Longrightarrow> abandoned (launch_step ev s)"
  by (simp add: launch_step_def client_turn_def server_turn_def server_exit_def launch_moves
      split: launch_event.split client_pc.split server_pc.split nat.split)

lemma launch_step_servers:
  assumes s: "servers_ok s" "lock_ok s" and a: "\<not> abandoned (launch_step ev s)"
  shows "servers_ok (launch_step ev s)"
proof (cases ev)
  case Join
  then have "holder_polls s \<Longrightarrow> holder_polls (launch_step ev s)"
    using s(2) by (auto simp: launch_step_def holder_polls_def lock_ok_def nth_append)
  then show ?thesis by (rule servers_ok_cong[OF s(1), rotated 2]) (simp_all add: Join launch_step_def)
next
  case (ServerExits j)
  then show ?thesis using s servers_end[OF s(1), of j None] by (simp add: launch_step_def server_exit_def)
next
  case (ServerKilled j)
  then show ?thesis using s servers_end[OF s(1), of j "sock_file s"] by (simp add: launch_step_def)
qed (use s a client_turn_servers[OF s] servers_leave[OF s] server_turn_servers[OF s(1)] in
  \<open>auto simp: launch_step_def split: if_splits\<close>)

lemma launch_step_ok: "launch_ok s \<Longrightarrow> launch_ok (launch_step ev s)"
  using launch_step_lock launch_step_servers abandoned_stays unfolding launch_ok_def by blast

text \<open>A run is a list of events; a stale socket file may be left from before.\<close>

abbreviation launch_run :: "launch_event list \<Rightarrow> launch \<Rightarrow> launch" where
  "launch_run \<equiv> fold launch_step"

lemma launch_run_ok: "launch_ok s \<Longrightarrow> launch_ok (launch_run evs s)"
  by (rule fold_invariant[of evs "\<lambda>_. True"]) (simp_all add: launch_step_ok)

lemma launch_new_ok: "launch_ok launch_new"
  by (simp add: launch_ok_def lock_ok_def servers_ok_def launch_new_def)

lemma one_listener:
  assumes "launch_ok s" "\<not> abandoned s" "j < length (servers s)" "servers s ! j = Listening"
  shows "sock_file s = Some j"
  using servers_okD(1)[OF _ assms(3,4)] assms(1,2) by (simp add: launch_ok_def)

text \<open>
  The run that goes wrong: a killed server leaves its socket file; two launches are killed while their
  servers start; both servers find the file stale, and the second removes the file that the first has
  bound by then.
\<close>

definition stale_race :: "launch_event list" where
  "stale_race =
     [Join, LaunchTurn 0, LaunchTurn 0, LaunchTurn 0, ServerTurn 0, ServerTurn 0, LaunchTurn 0, ServerKilled 0,
      Join, LaunchTurn 1, LaunchTurn 1, LaunchTurn 1, LaunchQuits 1,
      Join, LaunchTurn 2, LaunchTurn 2, LaunchTurn 2, LaunchQuits 2,
      ServerTurn 1, ServerTurn 1, ServerTurn 2, ServerTurn 2,
      ServerTurn 1, ServerTurn 1, ServerTurn 2, ServerTurn 2]"

lemma stale_race_end:
  "servers (launch_run stale_race launch_new) = [Gone, Listening, Listening]"
  "sock_file (launch_run stale_race launch_new) = Some 2"
  by (simp_all add: stale_race_def launch_step_def client_turn_def server_turn_def launch_moves launch_new_def
      answering_def eval_nat_numeral)

end
