(* ===== verification/Lifecycle.thy ===== *)
theory Lifecycle
  imports Server_Facts Startup
begin

text \<open>
  \<open>src/src/server/mod.rs\<close> as a whole: \<open>run_server\<close> claims the socket, serves until a signal comes, takes
  the sessions out of the registry and waits until they are dropped, or for at most five seconds. An
  execution is a list of events, each of which happens under the registry's lock; their order is the
  environment's. Besides the steps of \<open>run_server\<close> itself they are what the handlers of connections do to
  the registry. A handler is a task of its own that nobody aborts, so its events go on after the signal,
  and even after the registry was emptied, until \<open>run_server\<close> returns.
\<close>

subsection \<open>Serving\<close>

text \<open>
  Where \<open>run_server\<close> is: in its loop, between a signal and \<open>drain_all\<close>, while the drained sessions are
  dropped, or at its end. \<open>SetUp\<close> is the part of \<open>setup_session\<close> under the lock; \<open>SessionMoves\<close> is anything
  that is done to the handles of a session: by its reader and its relays, and by the rest of
  \<open>setup_session\<close>. \<open>Drain\<close> and \<open>DropsOver\<close> are the steps of \<open>run_server\<close> after the signal; \<open>DropsOver\<close> comes
  when all are dropped or the time is over. \<open>finished\<close> has the sessions that were handed to the dropping
  thread; \<open>started\<close> and \<open>late\<close> are observations, the number of sessions that were created, and that were
  created after \<open>Drain\<close>.
\<close>

datatype signal = SigTerm | SigInt

datatype stage = Serving | Stopping signal | Emptied signal | Ended signal

record 'p server_t =
  stage :: stage
  mgr :: "'p manager"
  handlers :: nat
  finished :: "'p session_t list"
  started :: nat
  late :: nat

datatype 'p server_event =
    ClientAccepted
  | AcceptFailed bytes
  | FirstMessage client_msg bytes
  | SetUp bytes nat nat nat connect_mode
  | SessionMoves bytes "'p session_t"
  | CleanupDue
  | Signal signal
  | Drain
  | DropsOver

definition new_sessions :: "setup_result \<Rightarrow> nat" where
  "new_sessions res = (case res of Ready ch True \<Rightarrow> 1 | _ \<Rightarrow> 0)"

fun drained :: "stage \<Rightarrow> bool" where
  "drained (Emptied sg) = True"
| "drained (Ended sg) = True"
| "drained _ = False"

text \<open>Accepting and the clean-up task stop with the loop; the handlers do not.\<close>

definition server_step ::
  "server_msg serializer \<Rightarrow> (bytes \<Rightarrow> nat \<Rightarrow> nat \<Rightarrow> bytes + pty_t) \<Rightarrow> 'p \<Rightarrow> 'p server_event \<Rightarrow> 'p server_t \<Rightarrow> 'p server_t" where
  "server_step ser spawn p0 ev s =
     (if \<exists>sg. stage s = Ended sg then s
      else
        (case ev of
           ClientAccepted \<Rightarrow> if stage s = Serving then s\<lparr>handlers := handlers s + 1\<rparr> else s
         | AcceptFailed e \<Rightarrow> s
         | FirstMessage msg leftover \<Rightarrow>
             (case first_message ser msg leftover (mgr s) of
                (reply, killed, m) \<Rightarrow> s\<lparr>mgr := m, finished := finished s @ (case killed of None \<Rightarrow> [] | Some x \<Rightarrow> [x])\<rparr>)
         | SetUp nm history c r mode \<Rightarrow>
             (let (res, m) = setup_locked (spawn nm) p0 nm history c r mode (mgr s)
              in s\<lparr>mgr := m, started := started s + new_sessions res,
                   late := late s + (if drained (stage s) then new_sessions res else 0)\<rparr>)
         | SessionMoves nm x \<Rightarrow> s\<lparr>mgr := put_back nm x (mgr s)\<rparr>
         | CleanupDue \<Rightarrow>
             if drained (stage s) then s
             else (case cleanup_tick (mgr s) of (dead, m) \<Rightarrow> s\<lparr>mgr := m, finished := finished s @ dead\<rparr>)
         | Signal sg \<Rightarrow> if stage s = Serving then s\<lparr>stage := Stopping sg\<rparr> else s
         | Drain \<Rightarrow>
             (case stage s of
                Stopping sg \<Rightarrow>
                  (let (dropped, m) = shutdown (mgr s)
                   in s\<lparr>stage := Emptied sg, mgr := m, finished := finished s @ dropped\<rparr>)
              | _ \<Rightarrow> s)
         | DropsOver \<Rightarrow> (case stage s of Emptied sg \<Rightarrow> s\<lparr>stage := Ended sg\<rparr> | _ \<Rightarrow> s)))"

definition serve ::
  "server_msg serializer \<Rightarrow> (bytes \<Rightarrow> nat \<Rightarrow> nat \<Rightarrow> bytes + pty_t) \<Rightarrow> 'p \<Rightarrow> 'p server_event list \<Rightarrow> 'p server_t \<Rightarrow> 'p server_t" where
  "serve ser spawn p0 = fold (server_step ser spawn p0)"

subsection \<open>The whole server\<close>

record server_env =
  sighup_error :: "bytes option"
  socket_at :: "socket_error + path"
  path_exists :: bool
  answered :: bool
  bind_error :: "bool \<Rightarrow> bytes option"
  sigterm_error :: "bytes option"
  sigint_error :: "bytes option"

datatype server_error = NoSigHup bytes | NoSocketPath socket_error | NotClaimed claim_error | NoSignals bytes

datatype server_end = Failed server_error | Running | Stopped signal

text \<open>What happens to the socket file, in order.\<close>

datatype sock_op = RemoveStale | BindSocket | RemoveOnExit

definition server_new :: "'p server_t" where
  "server_new = \<lparr>stage = Serving, mgr = manager_new, handlers = 0, finished = [], started = 0, late = 0\<rparr>"

definition run_server ::
  "server_msg serializer \<Rightarrow> (bytes \<Rightarrow> nat \<Rightarrow> nat \<Rightarrow> bytes + pty_t) \<Rightarrow> 'p \<Rightarrow> server_env \<Rightarrow> 'p server_event list
    \<Rightarrow> server_end \<times> sock_op list \<times> 'p server_t" where
  "run_server ser spawn p0 env evs =
     (case sighup_error env of
        Some e \<Rightarrow> (Failed (NoSigHup (''failed to ignore SIGHUP: '' @ e)), [], server_new)
      | None \<Rightarrow>
     (case socket_path (socket_at env) of
        Inl e \<Rightarrow> (Failed (NoSocketPath e), [], server_new)
      | Inr path \<Rightarrow>
     (let stale = (if path_exists env \<and> \<not> answered env then [RemoveStale] else []) in
      case claim_socket (path_exists env) (answered env) (bind_error env) of
        Inl e \<Rightarrow> (Failed (NotClaimed e), stale, server_new)
      | Inr _ \<Rightarrow>
          (let bound = stale @ [BindSocket] in
           case (sigterm_error env, sigint_error env) of
             (Some e, _) \<Rightarrow> (Failed (NoSignals e), bound @ [RemoveOnExit], server_new)
           | (None, Some e) \<Rightarrow> (Failed (NoSignals e), bound @ [RemoveOnExit], server_new)
           | (None, None) \<Rightarrow>
               (let s = serve ser spawn p0 evs server_new
                in case stage s of
                     Ended sg \<Rightarrow> (Stopped sg, bound @ [RemoveOnExit], s)
                   | _ \<Rightarrow> (Running, bound, s))))))"

subsection \<open>Every session is put away\<close>

text \<open>
  The registry is well formed, and every session that was created is registered or was handed to the
  dropping thread; after \<open>Drain\<close> only sessions created since are registered. What the environment may
  do: dimensions are 16-bit numbers, and a session stays itself.
\<close>

definition server_ok :: "'p server_t \<Rightarrow> bool" where
  "server_ok s \<longleftrightarrow> manager_ok (mgr s) \<and> started s = length (mgr s) + length (finished s)
     \<and> (if drained (stage s) then length (mgr s) \<le> late s else late s = 0)"

definition server_event_ok :: "'p server_event \<Rightarrow> bool" where
  "server_event_ok ev \<longleftrightarrow>
     (case ev of
        SetUp nm history c r mode \<Rightarrow> c \<le> u16_max \<and> r \<le> u16_max
      | SessionMoves nm x \<Rightarrow> session_name x = nm \<and> session_ok x
      | _ \<Rightarrow> True)"

lemma manager_card: "manager_ok m \<Longrightarrow> length m = card (dom (map_of m))"
  using distinct_card[of "map fst m"] by (simp add: manager_ok_def dom_map_of_conv_image_fst)

lemma put_back_dom: "manager_ok m \<Longrightarrow> dom (map_of (put_back nm s m)) = dom (map_of m)"
  using names.lookup_put[of m nm s] by (auto simp: put_back_def manager_ok_def split: if_splits)

lemma setup_sessions:
  assumes m: "manager_ok m" and cr: "c \<le> u16_max" "r \<le> u16_max"
    and e: "setup_locked spawn p0 nm history c r mode m = (res, m')"
  shows "manager_ok m' \<and> length m' = length m + new_sessions res"
proof -
  note l = setup_locked_ok[OF m cr e]
  then have ok: "manager_ok m'" by simp
  show ?thesis
  proof (cases res)
    case (SetupFailed x)
    then show ?thesis using e by (auto simp: setup_locked_def Let_def split: prod.splits sum.splits)
  next
    case (Ready ch is_new)
    then have "dom (map_of m') = insert nm (dom (map_of m))" "is_new = (nm \<notin> dom (map_of m))" using l by auto
    then show ?thesis
      using ok Ready manager_card[OF m] manager_card[OF ok] finite_dom_map_of[of m]
      by (cases is_new) (simp_all add: new_sessions_def insert_absorb)
  qed (use l ok manager_card[OF m] manager_card[OF ok] in \<open>auto simp: new_sessions_def\<close>)
qed

lemma first_message_sessions:
  assumes m: "manager_ok m" and e: "first_message ser msg leftover m = (reply, killed, m')"
  shows "manager_ok m' \<and> length m = length m' + (case killed of None \<Rightarrow> 0 | Some x \<Rightarrow> 1)"
proof (cases "m' = m \<and> killed = None")
  case False
  then obtain nm s where nm: "m' = AList.delete nm m" "map_of m nm = Some s" "killed \<noteq> None"
    using e by (auto simp: first_message_def remove_session_def map_of_eq_None_iff delete_id
        split: client_msg.splits sum.splits option.splits)
  have ok: "manager_ok m'" using remove_ok[OF m, of nm] nm(1) by (simp add: remove_session_def)
  have "dom (map_of m') = dom (map_of m) - {nm}"
    using names.lookup_del[OF manager_distinct[OF m], of nm] nm(1) by auto
  moreover have "nm \<in> dom (map_of m)" using nm(2) by auto
  ultimately have "length m = Suc (length m')"
    using manager_card[OF m] manager_card[OF ok] card_Suc_Diff1[OF finite_dom_map_of[of m]] by simp
  then show ?thesis using ok nm(3) by auto
qed (use m in simp)

lemma cleanup_sessions:
  assumes m: "manager_ok m" and e: "cleanup_tick m = (dead, m')"
  shows "manager_ok m' \<and> length m = length m' + length dead"
proof -
  have d: "dead = map (snd \<circ> session_drop) (fst (take_dead_sessions m))" "m' = snd (take_dead_sessions m)"
    using e by (auto simp: cleanup_tick_def split: prod.splits)
  have ok: "manager_ok m'" using take_dead_ok[OF m] d(2) by simp
  have "x \<in> dom (map_of m') \<longleftrightarrow> (\<exists>s. map_of m x = Some s \<and> is_alive s)" for x
    unfolding d(2) take_dead_eq(2)[OF manager_distinct[OF m]] by (auto split: option.splits if_splits)
  moreover have "x \<in> fst ` set (filter (\<lambda>(nm, s). is_alive s) m) \<longleftrightarrow> (\<exists>s. (x, s) \<in> set m \<and> is_alive s)" for x
    by force
  ultimately have "dom (map_of m') = fst ` set (filter (\<lambda>(nm, s). is_alive s) m)"
    by (intro set_eqI) (simp add: map_of_eq_Some_iff[OF manager_distinct[OF m]])
  then have "length m' = length (filter (\<lambda>(nm, s). is_alive s) m)"
    using manager_card[OF ok] distinct_card[OF distinct_map_filter[OF manager_distinct[OF m]], of "\<lambda>(nm, s). is_alive s"] by simp
  moreover have "length dead = length (filter (\<lambda>x. \<not> (\<lambda>(nm, s). is_alive s) x) m)"
    using take_dead_eq(1)[OF manager_distinct[OF m]] d(1) by (simp add: filter_map comp_def split_def)
  ultimately show ?thesis using ok sum_length_filter_compl[of "\<lambda>(nm, s). is_alive s" m] by simp
qed

lemma server_step_ok:
  assumes s: "server_ok s" and ev: "server_event_ok ev"
  shows "server_ok (server_step ser spawn p0 ev s)"
proof (cases "\<exists>sg. stage s = Ended sg")
  case True
  then show ?thesis using s by (simp add: server_step_def)
next
  case False
  have m: "manager_ok (mgr s)" using s by (simp add: server_ok_def)
  show ?thesis
  proof (cases ev)
    case (FirstMessage msg leftover)
    obtain reply killed m' where f: "first_message ser msg leftover (mgr s) = (reply, killed, m')" by (metis prod_cases3)
    show ?thesis
      using first_message_sessions[OF m f] s False
      by (auto simp: server_step_def FirstMessage f server_ok_def split: option.splits)
  next
    case (SetUp nm history c r mode)
    then have cr: "c \<le> u16_max" "r \<le> u16_max" using ev by (simp_all add: server_event_ok_def)
    obtain res m' where e: "setup_locked (spawn nm) p0 nm history c r mode (mgr s) = (res, m')" by fastforce
    show ?thesis
      using setup_sessions[OF m cr e] s False by (simp add: server_step_def SetUp server_ok_def e)
  next
    case (SessionMoves nm x)
    then have x: "session_name x = nm" "session_ok x" using ev by (simp_all add: server_event_ok_def)
    have ok: "manager_ok (put_back nm x (mgr s))" by (rule put_back_ok[OF m x])
    then have "length (put_back nm x (mgr s)) = length (mgr s)"
      using manager_card[OF m] manager_card[OF ok] put_back_dom[OF m] by simp
    then show ?thesis using ok s False by (simp add: server_step_def SessionMoves server_ok_def)
  next
    case CleanupDue
    obtain dead m' where c: "cleanup_tick (mgr s) = (dead, m')" by fastforce
    show ?thesis using cleanup_sessions[OF m c] s False
      by (cases "drained (stage s)") (auto simp: server_step_def CleanupDue c server_ok_def)
  next
    case Drain
    show ?thesis
      using s False by (cases "stage s") (auto simp: server_step_def Drain server_ok_def shutdown_def drain_all_def manager_ok_def)
  qed (use s False in \<open>auto simp: server_step_def server_ok_def split: stage.split\<close>)
qed

lemma serve_append: "serve ser spawn p0 (as @ bs) s = serve ser spawn p0 bs (serve ser spawn p0 as s)"
  by (simp add: serve_def)

lemma serve_Cons: "serve ser spawn p0 (ev # evs) s = serve ser spawn p0 evs (server_step ser spawn p0 ev s)"
  by (simp add: serve_def)

lemma serve_ok: "server_ok s \<Longrightarrow> list_all server_event_ok evs \<Longrightarrow> server_ok (serve ser spawn p0 evs s)"
  by (induction evs arbitrary: s) (simp_all add: serve_def server_step_ok)

text \<open>The stages come in order, and the signal is kept.\<close>

fun rank :: "stage \<Rightarrow> nat" where
  "rank Serving = 0" | "rank (Stopping sg) = 1" | "rank (Emptied sg) = 2" | "rank (Ended sg) = 3"

fun signal_of :: "stage \<Rightarrow> signal option" where
  "signal_of Serving = None" | "signal_of (Stopping sg) = Some sg" | "signal_of (Emptied sg) = Some sg"
| "signal_of (Ended sg) = Some sg"

lemma step_stage:
  "rank (stage s) \<le> rank (stage (server_step ser spawn p0 ev s))"
  "ev = Signal sg \<Longrightarrow> 1 \<le> rank (stage (server_step ser spawn p0 ev s))"
  "ev = Drain \<Longrightarrow> 1 \<le> rank (stage s) \<Longrightarrow> 2 \<le> rank (stage (server_step ser spawn p0 ev s))"
  "ev = DropsOver \<Longrightarrow> 2 \<le> rank (stage s) \<Longrightarrow> 3 \<le> rank (stage (server_step ser spawn p0 ev s))"
  "signal_of (stage (server_step ser spawn p0 ev s)) = Some sg \<Longrightarrow> signal_of (stage s) = Some sg \<or> ev = Signal sg"
  by (cases "stage s"; cases ev; auto simp: server_step_def Let_def split: prod.splits if_splits)+

lemma serve_rank: "rank (stage s) \<le> rank (stage (serve ser spawn p0 evs s))"
  by (induction evs arbitrary: s) (auto simp: serve_def intro: order_trans[OF step_stage(1)])

lemma serve_signal: "signal_of (stage (serve ser spawn p0 evs s)) = Some sg \<Longrightarrow> signal_of (stage s) = Some sg \<or> Signal sg \<in> set evs"
proof (induction evs arbitrary: s)
  case (Cons ev evs)
  then show ?case using step_stage(5)[of ser spawn p0 ev s sg] by (auto simp: serve_Cons)
qed (simp add: serve_def)

text \<open>A signal, the drain and the end of the drops, in this order, end the server.\<close>

lemma serve_reaches:
  assumes "k \<le> rank (stage s)" "\<And>u. k \<le> rank (stage u) \<Longrightarrow> j \<le> rank (stage (server_step ser spawn p0 ev u))"
  shows "j \<le> rank (stage (serve ser spawn p0 (pre @ [ev]) s))"
  using assms(2)[OF order_trans[OF assms(1) serve_rank[of s ser spawn p0 pre]]]
  by (simp add: serve_append serve_Cons) (simp add: serve_def)

lemma serve_ends:
  assumes "subseq [Signal sg, Drain, DropsOver] evs"
  shows "3 \<le> rank (stage (serve ser spawn p0 evs s))"
proof -
  obtain a b c d where e: "evs = (a @ [Signal sg]) @ (b @ [Drain]) @ (c @ [DropsOver]) @ d"
    using assms by (fastforce dest!: list_emb_ConsD)
  let ?s1 = "serve ser spawn p0 (a @ [Signal sg]) s"
  let ?s2 = "serve ser spawn p0 (b @ [Drain]) ?s1"
  let ?s3 = "serve ser spawn p0 (c @ [DropsOver]) ?s2"
  have "1 \<le> rank (stage ?s1)" 
    by (rule serve_reaches[where k = 0]) (simp, rule step_stage(2)[OF refl])
  then have "2 \<le> rank (stage ?s2)" by (rule serve_reaches) (rule step_stage(3)[OF refl])
  then have "3 \<le> rank (stage ?s3)" by (rule serve_reaches) (rule step_stage(4)[OF refl])
  then have "3 \<le> rank (stage (serve ser spawn p0 d ?s3))" by (rule order_trans[OF _ serve_rank])
  then show ?thesis by (simp only: e serve_append)
qed

lemma server_new_ok: "server_ok server_new"
  by (simp add: server_ok_def server_new_def manager_new_def manager_ok_def)

text \<open>What \<open>Drain\<close> does: whatever is registered is handed to the dropping thread.\<close>

lemma drain_step:
  "stage s = Stopping sg \<Longrightarrow> server_step ser spawn p0 Drain s =
     s\<lparr>stage := Emptied sg, mgr := [], finished := finished s @ map (\<lambda>(nm, x). snd (session_drop x)) (mgr s)\<rparr>"
  by (simp add: server_step_def shutdown_def drain_all_def manager_new_def comp_def split_def)

lemma run_server_ends:
  assumes evs: "list_all server_event_ok evs" and r: "run_server ser spawn p0 env evs = (end, ops, s)"
  shows "server_ok s" "RemoveOnExit \<in> set ops \<longleftrightarrow> BindSocket \<in> set ops \<and> end \<noteq> Running"
    "BindSocket \<notin> set ops \<or> (\<exists>e. end = Failed e) \<Longrightarrow> started s = 0"
    "end = Running \<or> (\<exists>sg. end = Stopped sg) \<Longrightarrow> s = serve ser spawn p0 evs server_new"
    "end = Stopped sg \<Longrightarrow> stage s = Ended sg" "end = Running \<Longrightarrow> rank (stage s) < 3"
proof -
  have new: "server_ok server_new" "started server_new = 0" using server_new_ok by (simp_all add: server_new_def)
  have ok: "server_ok (serve ser spawn p0 evs server_new)" by (rule serve_ok[OF new(1) evs])
  show "server_ok s" "RemoveOnExit \<in> set ops \<longleftrightarrow> BindSocket \<in> set ops \<and> end \<noteq> Running"
    "BindSocket \<notin> set ops \<or> (\<exists>e. end = Failed e) \<Longrightarrow> started s = 0"
    "end = Running \<or> (\<exists>sg. end = Stopped sg) \<Longrightarrow> s = serve ser spawn p0 evs server_new"
    "end = Stopped sg \<Longrightarrow> stage s = Ended sg" "end = Running \<Longrightarrow> rank (stage s) < 3"
    using r ok new
    by (auto simp: run_server_def Let_def split: option.splits sum.splits stage.splits if_splits)
qed

end
