(* ===== verification/Frontend.thy ===== *)
theory Frontend
  imports Startup Client Session
begin

text \<open>
  The command line (\<open>src/src/cli.rs\<close>, \<open>src/src/main.rs\<close>), raw mode
  (\<open>src/src/client/raw_mode.rs\<close>) and \<open>connect\<close> of \<open>src/src/client/mod.rs\<close> around the parts of it that
  \<open>Client\<close> and \<open>Startup\<close> model.

  The settings of a terminal are of any type; \<open>cfmakeraw\<close> is the parameter \<open>makeraw\<close>. The results of
  system calls are decided by the environment, as is what the relays write to the terminal.

  Shown here: in every way in which \<open>connect\<close> can end, panics included, the terminal has its settings
  back; it is touched only after the server has accepted the client; and what is shown last is the
  clean-up sequence, unless a signal handler cannot be installed.
\<close>

subsection \<open>The command line\<close>

abbreviation DEFAULT_HISTORY :: nat where "DEFAULT_HISTORY \<equiv> 10000"
abbreviation MAX_HISTORY :: nat where "MAX_HISTORY \<equiv> 1000000"

datatype history_error = NotANumber | TooLarge

definition parse_history :: "bytes \<Rightarrow> history_error + nat" where
  "parse_history s =
     (case parse_uint (2 ^ 64 - 1) s of
        None \<Rightarrow> Inl NotANumber
      | Some v \<Rightarrow> if v > MAX_HISTORY then Inl TooLarge else Inr v)"

datatype command =
    OpenCmd bytes nat
  | NewCmd "bytes option" nat
  | AttachCmd bytes
  | ListCmd
  | KillCmd bytes
  | ServerCmd

datatype request = ConnectTo bytes nat connect_mode | AskList | AskKill bytes | RunServer

definition hex_digit :: "nat \<Rightarrow> byte" where
  "hex_digit n = char_of (if n < 10 then 48 + n else 87 + n)"

definition generate_name :: "64 word \<Rightarrow> bytes" where
  "generate_name h = ''s-'' @ map (\<lambda>i. hex_digit (unat h div 16 ^ (15 - i) mod 16)) [0..<16]"

text \<open>The dispatch of \<open>main\<close>; \<open>h\<close> is the random hash behind a generated name.\<close>

definition request_of :: "64 word \<Rightarrow> command \<Rightarrow> request" where
  "request_of h c =
     (case c of
        OpenCmd nm n \<Rightarrow> ConnectTo nm n CreateOrAttach
      | NewCmd nm n \<Rightarrow> ConnectTo (case nm of Some nm \<Rightarrow> nm | None \<Rightarrow> generate_name h) n CreateOnly
      | AttachCmd nm \<Rightarrow> ConnectTo nm 0 AttachOnly
      | ListCmd \<Rightarrow> AskList
      | KillCmd nm \<Rightarrow> AskKill nm
      | ServerCmd \<Rightarrow> RunServer)"

lemma parse_history_bound: "parse_history s = Inr n \<Longrightarrow> n \<le> MAX_HISTORY"
  by (auto simp: parse_history_def split: option.splits if_splits)

lemma hex_digit_allowed: "n < 16 \<Longrightarrow> name_char (hex_digit n)"
  by (auto simp: hex_digit_def name_char_def)

lemma generated_name_valid: "validate_session_name (generate_name h) = Inr ()"
proof -
  have "name_char (hex_digit (n mod 16))" for n
    by (rule hex_digit_allowed) simp
  moreover have "list_all name_char ''s-''" by code_simp
  ultimately show ?thesis
    by (simp add: validate_ok generate_name_def list_all_iff)
qed

subsection \<open>Raw mode\<close>

text \<open>A terminal: its settings, the backup in \<open>ORIGINAL_TERMIOS\<close> with its mutex, and what it was sent.\<close>

record 't tty =
  settings :: 't
  backup :: "'t option"
  backup_poisoned :: bool
  shown :: bytes

definition set_backup :: "'t option \<Rightarrow> 't tty \<Rightarrow> 't tty" where
  "set_backup b s = (if backup_poisoned s then s else s\<lparr>backup := b\<rparr>)"

definition emit :: "bytes \<Rightarrow> 't tty \<Rightarrow> 't tty" where
  "emit d s = s\<lparr>shown := shown s @ d\<rparr>"

text \<open>The arguments of type \<open>bytes option\<close> are the errors of \<open>tcgetattr\<close> and \<open>tcsetattr\<close>.\<close>

definition raw_enter :: "('t \<Rightarrow> 't) \<Rightarrow> bytes option \<Rightarrow> bytes option \<Rightarrow> 't tty \<Rightarrow> (bytes + 't) \<times> 't tty" where
  "raw_enter makeraw get_err set_err s =
     (case get_err of
        Some e \<Rightarrow> (Inl e, s)
      | None \<Rightarrow>
          (let original = settings s; s = set_backup (Some original) s in
           case set_err of
             Some e \<Rightarrow> (Inl e, s)
           | None \<Rightarrow> (Inr original, s\<lparr>settings := makeraw original\<rparr>)))"

definition raw_drop :: "bytes option \<Rightarrow> 't \<Rightarrow> 't tty \<Rightarrow> 't tty" where
  "raw_drop set_err original s = set_backup None (if set_err = None then s\<lparr>settings := original\<rparr> else s)"

definition emergency_restore :: "bytes option \<Rightarrow> 't tty \<Rightarrow> 't tty" where
  "emergency_restore set_err s =
     (case backup s of
        Some original \<Rightarrow> if backup_poisoned s \<or> set_err \<noteq> None then s else s\<lparr>settings := original\<rparr>
      | None \<Rightarrow> s)"

subsection \<open>Connecting\<close>

text \<open>The hook that \<open>connect\<close> installs.\<close>

definition panic_hook :: "bytes option \<Rightarrow> 't tty \<Rightarrow> 't tty" where
  "panic_hook set_err s = emit cleanup_terminal (emergency_restore set_err s)"

datatype phase_end = StdinEnds | SocketEnds | Signalled | TaskPanics | MainPanics

record phase_env =
  get_err :: "bytes option"
  enter_err :: "bytes option"
  winch_err :: "bytes option"
  signal_err :: "bytes option"
  restore_err :: "bytes option"
  phase_ends :: phase_end
  relayed :: bytes

text \<open>
  From \<open>RawMode::enter\<close> to the end of \<open>connect\<close>. The result is \<open>None\<close> when the main task panics, else
  the error or the messages sent on leaving. The two signal errors are early returns, before and after
  the relays are spawned.
\<close>

definition interactive :: "('t \<Rightarrow> 't) \<Rightarrow> phase_env \<Rightarrow> 't tty \<Rightarrow> (bytes + client_msg list) option \<times> 't tty" where
  "interactive makeraw env s =
     (case raw_enter makeraw (get_err env) (enter_err env) s of
        (Inl e, s) \<Rightarrow> (Some (Inl e), s)
      | (Inr original, s) \<Rightarrow>
          (let s = emit enable_focus s in
           case winch_err env of
             Some e \<Rightarrow> (Some (Inl e), raw_drop (restore_err env) original s)
           | None \<Rightarrow>
               (let s = emit (relayed env) s in
                case signal_err env of
                  Some e \<Rightarrow> (Some (Inl e), raw_drop (restore_err env) original s)
                | None \<Rightarrow>
                    (let s = (if phase_ends env \<in> {TaskPanics, MainPanics} then panic_hook (restore_err env) s else s);
                         s = raw_drop (restore_err env) original s
                     in if phase_ends env = MainPanics then (None, s)
                        else (Some (Inr (if phase_ends env = Signalled then [Detach] else [])), emit cleanup_terminal s)))))"

text \<open>\<open>connect\<close>: launch, connection, request, handshake, and the phase above.\<close>

definition get_terminal_size :: "(nat \<times> nat) option \<Rightarrow> nat \<times> nat" where
  "get_terminal_size sz = (case sz of Some s \<Rightarrow> s | None \<Rightarrow> (DEFAULT_COLS, DEFAULT_ROWS))"

datatype connect_error =
    LaunchFails launch_error
  | NoServer "socket_error + bytes"
  | NotEncoded protocol_error
  | HandshakeFails handshake
  | TerminalFails bytes

record connect_env =
  launching :: launch_env
  stream_err :: "(socket_error + bytes) option"
  size_of_terminal :: "(nat \<times> nat) option"
  handshake_reads :: "read_result list"
  phase :: phase_env

text \<open>The result, the bytes sent to the server as request, and the terminal; \<open>None\<close> is a panic.\<close>

definition client_connect ::
  "client_msg serializer \<Rightarrow> server_msg deserializer \<Rightarrow> ('t \<Rightarrow> 't) \<Rightarrow> bytes \<Rightarrow> nat \<Rightarrow> connect_mode \<Rightarrow> connect_env
     \<Rightarrow> 't tty \<Rightarrow> ((connect_error + client_msg list) option \<times> bytes \<times> 't tty) option" where
  "client_connect ser de makeraw nm history mode env s =
     (case fst (ensure_server_running (launching env)) of
        Inl e \<Rightarrow> Some (Some (Inl (LaunchFails e)), [], s)
      | Inr _ \<Rightarrow>
          (case stream_err env of
             Some e \<Rightarrow> Some (Some (Inl (NoServer e)), [], s)
           | None \<Rightarrow>
               (let (c, r) = get_terminal_size (size_of_terminal env) in
                case encode ser (Connect nm history c r mode) of
                  Inl e \<Rightarrow> Some (Some (Inl (NotEncoded e)), [], s)
                | Inr d \<Rightarrow>
                    do { h \<leftarrow> await_connected de (handshake_reads env) frame_reader_new;
                         Some (case h of
                             HsConnected _ _ _ \<Rightarrow>
                               (let (res, s) = interactive makeraw (phase env) s in
                                (map_option (map_sum TerminalFails id) res, d, s))
                           | _ \<Rightarrow> (Some (Inl (HandshakeFails h)), d, s)) })))"

subsection \<open>The terminal is given back\<close>

lemmas tty_defs = raw_drop_def set_backup_def emit_def panic_hook_def emergency_restore_def

lemma raw_enter_cases:
  assumes "raw_enter makeraw ge se s = (r, s')"
  shows "(\<exists>e. r = Inl e) \<and> settings s' = settings s \<and> shown s' = shown s
    \<or> r = Inr (settings s) \<and> s' = (set_backup (Some (settings s)) s)\<lparr>settings := makeraw (settings s)\<rparr>"
  using assms by (auto simp: raw_enter_def set_backup_def Let_def split: option.splits if_splits)

lemma raw_drop_settings: "settings (raw_drop None original s) = original"
  by (simp add: raw_drop_def set_backup_def)

lemma interactive_settings:
  assumes "restore_err env = None" "interactive makeraw env s = (res, s')"
  shows "settings s' = settings s"
proof -
  obtain r s1 where "raw_enter makeraw (get_err env) (enter_err env) s = (r, s1)" by fastforce
  with assms show ?thesis
    using raw_enter_cases[of makeraw "get_err env" "enter_err env" s r s1]
    by (cases r) (auto simp: interactive_def raw_drop_settings emit_def Let_def split: option.splits if_splits)
qed

text \<open>What the terminal was sent, and that no backup stays behind.\<close>

lemma interactive_shown:
  assumes "get_err env = None" "enter_err env = None" "interactive makeraw env s = (res, s')"
  shows "winch_err env = None \<Longrightarrow> signal_err env = None \<Longrightarrow> shown s' = shown s @ enable_focus @ relayed env
      @ (if phase_ends env = TaskPanics then cleanup_terminal else []) @ cleanup_terminal"
    "winch_err env \<noteq> None \<Longrightarrow> shown s' = shown s @ enable_focus"
    "winch_err env = None \<Longrightarrow> signal_err env \<noteq> None \<Longrightarrow> shown s' = shown s @ enable_focus @ relayed env"
    "\<not> backup_poisoned s \<Longrightarrow> backup s' = None"
  using assms
  by (cases "phase_ends env"; auto simp: interactive_def raw_enter_def tty_defs Let_def split: option.splits)+

lemma map_sum_Inl: "map_sum f g x = Inl y \<longleftrightarrow> (\<exists>z. x = Inl z \<and> y = f z)"
  by (cases x) auto

lemma client_connect_settings:
  assumes "restore_err (phase env) = None"
    "client_connect ser de makeraw nm history mode env s = Some (res, d, s')"
  shows "settings s' = settings s"
  using assms interactive_settings[of "phase env" makeraw s]
  by (auto simp: client_connect_def Let_def split: sum.splits option.splits handshake.splits prod.splits bind_splits)

text \<open>Until the server has accepted, the terminal is not touched at all.\<close>

lemma client_connect_refused:
  assumes "client_connect ser de makeraw nm history mode env s = Some (Some (Inl e), d, s')"
    "\<And>m. e \<noteq> TerminalFails m"
  shows "s' = s"
  using assms
  by (auto simp: client_connect_def Let_def map_sum_Inl split: sum.splits option.splits handshake.splits prod.splits bind_splits)

end
