(* ===== verification/Picture.thy ===== *)
theory Picture
  imports Screen
begin

text \<open>
  What a terminal shows. The picture of a row lists, for every column, the character, its width, its
  style and its combining marks; it abstracts from the style identifiers, which differ between the
  session and the terminal that shows it. \<open>face\<close> is the picture of a whole emulator with the part of
  its state that decides what the next byte does.

  The emulator itself is the specification of the terminal. Each operation the renderer makes use of
  is shown to commute with the abstraction.
\<close>

subsection \<open>Pictures\<close>

record glyph =
  gl_char :: rchar
  gl_width :: nat
  gl_style :: style
  gl_marks :: "rchar list"

definition glyph_of :: "style_table_t \<Rightarrow> row \<Rightarrow> nat \<Rightarrow> glyph" where
  "glyph_of t r x = (let cl = row_cells r ! x in
     \<lparr>gl_char = cell_c cl, gl_width = cell_width cl, gl_style = style_get t (style_id cl), gl_marks = combining_at x r\<rparr>)"

definition picture :: "style_table_t \<Rightarrow> row \<Rightarrow> glyph list" where
  "picture t r = map (glyph_of t r) [0..<row_len r]"

definition screen_picture :: "grid_t \<Rightarrow> glyph list list" where
  "screen_picture g = map (picture (style_table g)) (visible_rows g)"

definition history_picture :: "grid_t \<Rightarrow> glyph list list" where
  "history_picture g = map (picture (style_table g)) (scrollback_rows g)"

definition blank_glyph :: glyph where
  "blank_glyph = \<lparr>gl_char = 32, gl_width = 1, gl_style = style_default, gl_marks = []\<rparr>"

definition glyph_new :: "rchar \<Rightarrow> nat \<Rightarrow> style \<Rightarrow> glyph" where
  "glyph_new c w sty = \<lparr>gl_char = c, gl_width = w, gl_style = sty, gl_marks = []\<rparr>"

text \<open>Half of a wide character that is broken up becomes a blank; its marks stay.\<close>

definition broken :: "glyph \<Rightarrow> glyph" where
  "broken gl = gl\<lparr>gl_char := 32, gl_width := 1, gl_style := style_default\<rparr>"

definition fix_glyphs :: "nat \<Rightarrow> glyph list \<Rightarrow> glyph list" where
  "fix_glyphs x gs =
     (if gl_width (gs ! x) = 2 then gs[Suc x := broken (gs ! Suc x), x := broken (gs ! x)]
      else if gl_width (gs ! x) = 0 \<and> x > 0 then gs[x - 1 := broken (gs ! (x - 1)), x := broken (gs ! x)]
      else gs)"

definition put_glyph :: "nat \<Rightarrow> glyph \<Rightarrow> glyph list \<Rightarrow> glyph list" where
  "put_glyph x gl gs = (fix_glyphs x gs)[x := gl]"

definition put_glyphs :: "nat \<Rightarrow> rchar \<Rightarrow> nat \<Rightarrow> style \<Rightarrow> glyph list \<Rightarrow> glyph list" where
  "put_glyphs x c w sty gs =
     (if w = 2 \<and> Suc x < length gs
      then put_glyph (Suc x) (glyph_new 0 0 sty) (put_glyph x (glyph_new c w sty) gs)
      else put_glyph x (glyph_new c w sty) gs)"

definition mark_glyph :: "nat \<Rightarrow> rchar \<Rightarrow> glyph list \<Rightarrow> glyph list" where
  "mark_glyph x m gs = gs[x := (gs ! x)\<lparr>gl_marks := gl_marks (gs ! x) @ [m]\<rparr>]"

definition erase_right :: "nat \<Rightarrow> glyph list \<Rightarrow> glyph list" where
  "erase_right x gs = take x (fix_glyphs x gs) @ replicate (length gs - x) blank_glyph"

lemma picture_length [simp]: "length (picture t r) = row_len r"
  by (simp add: picture_def)

lemma picture_nth [simp]: "x < row_len r \<Longrightarrow> picture t r ! x = glyph_of t r x"
  by (simp add: picture_def)

lemma picture_eqI:
  assumes "row_len r = length gs" "\<And>x. x < row_len r \<Longrightarrow> glyph_of t r x = gs ! x"
  shows "picture t r = gs"
  using assms by (intro nth_equalityI) auto

lemma fix_glyphs_length [simp]: "length (fix_glyphs x gs) = length gs"
  by (simp add: fix_glyphs_def)

lemma put_glyph_length [simp]: "length (put_glyph x gl gs) = length gs"
  by (simp add: put_glyph_def)

lemma put_glyphs_length [simp]: "length (put_glyphs x c w sty gs) = length gs"
  by (simp add: put_glyphs_def)

lemma erase_right_length [simp]: "x \<le> length gs \<Longrightarrow> length (erase_right x gs) = length gs"
  by (simp add: erase_right_def)

subsection \<open>Row operations on pictures\<close>

lemma glyph_default:
  assumes "wf_style_table t" "row_cells r ! x = cell_default"
  shows "glyph_of t r x = \<lparr>gl_char = 32, gl_width = 1, gl_style = style_default, gl_marks = combining_at x r\<rparr>"
  using assms by (simp add: glyph_of_def cell_default_def style_get_zero)

lemma combining_at_cells [simp]: "combining_at x (r\<lparr>row_cells := cs\<rparr>) = combining_at x r"
  by (simp add: combining_at_def)

lemma map_of_filter_key: "map_of (filter (\<lambda>(c, _). P c) cm) x = (if P x then map_of cm x else None)"
  by (induction cm) (auto split: prod.split)

lemma combining_at_clear [simp]: "combining_at x (clear_combining y r) = (if x = y then [] else combining_at x r)"
  by (simp add: combining_at_def clear_combining_def map_of_filter_key)

lemma combining_at_clear_range [simp]:
  "combining_at x (clear_combining_range a b r) = (if a \<le> x \<and> x < b then [] else combining_at x r)"
  by (auto simp: combining_at_def clear_combining_range_def map_of_filter_key)

lemma map_of_push_mark:
  "map_of (push_mark y m cm) x =
     (if x = y then Some (case map_of cm y of Some ms \<Rightarrow> ms @ [m] | None \<Rightarrow> [m]) else map_of cm x)"
  by (induction y m cm rule: push_mark.induct) auto

lemma combining_at_push:
  "combining_at x (push_combining y m r) = (if x = y then combining_at x r @ [m] else combining_at x r)"
  by (simp add: combining_at_def push_combining_def map_of_push_mark split: option.split)

lemma combining_len_at: "combining_len x r = length (combining_at x r)"
  by (simp add: combining_len_def combining_at_def split: option.split)

lemma row_frame_simps [simp]:
  "row_cells (clear_combining x r) = row_cells r" "row_cells (clear_combining_range a b r) = row_cells r"
  "row_cells (push_combining x m r) = row_cells r"
  by (simp_all add: clear_combining_def clear_combining_range_def push_combining_def)

lemma row_len_cells: "length (row_cells r) = row_len r"
  by (simp add: row_len_def)

lemma row_len_update [simp]: "row_len (r\<lparr>row_cells := cs\<rparr>) = length cs"
  by (simp add: row_len_def)

lemma row_len_marks [simp]:
  "row_len (clear_combining x r) = row_len r" "row_len (clear_combining_range a b r) = row_len r"
  "row_len (push_combining x m r) = row_len r"
  by (simp_all add: row_len_def)

lemma row_len_put [simp]:
  "row_len (write_cell x cl r) = row_len r" "row_len (put_cell x cl r) = row_len r"
  "row_len (put_row x cl r) = row_len r" "row_len (fill_span a b cl r) = row_len r"
  "row_len (erase_span a b cl r) = row_len r" "row_len (erase_row cl r) = row_len r"
  by (simp_all add: put_row_def put_cell_def write_cell_def fill_span_def erase_span_def erase_row_def
      clear_all_combining_def Let_def row_len_cells) (simp_all add: row_len_def)

lemma picture_fix_row:
  assumes t: "wf_style_table t" and x: "x < row_len r"
  shows "picture t (fix_row x r) = fix_glyphs x (picture t r)"
proof (rule picture_eqI)
  have d: "style_get t 0 = style_default" using t by (rule style_get_zero)
  fix i assume i: "i < row_len (fix_row x r)"
  have w: "gl_width (picture t r ! x) = cell_width (row_cells r ! x)"
    using x by (simp add: glyph_of_def Let_def)
  show "glyph_of t (fix_row x r) i = fix_glyphs x (picture t r) ! i"
    using i x d
    by (cases "cell_width (row_cells r ! x) = 2"; cases "Suc x = i")
      (auto simp: fix_row_def fix_glyphs_def Let_def glyph_of_def w row_len_cells nth_list_update broken_def cell_default_def)
qed simp

lemma picture_write_cell:
  assumes "x < row_len r"
  shows "picture t (write_cell x cl r) = (picture t r)[x := glyph_new (cell_c cl) (cell_width cl) (style_get t (style_id cl))]"
  using assms
  by (intro picture_eqI) (auto simp: write_cell_def glyph_of_def row_len_cells nth_list_update glyph_new_def Let_def)

lemma picture_put_cell:
  assumes "wf_style_table t" "x < row_len r"
  shows "picture t (put_cell x cl r) = put_glyph x (glyph_new (cell_c cl) (cell_width cl) (style_get t (style_id cl))) (picture t r)"
  using assms by (simp add: put_cell_def picture_write_cell picture_fix_row put_glyph_def)

lemma picture_put_row:
  assumes "wf_style_table t" "x < row_len r"
  shows "picture t (put_row x (cell_new c i w) r) = put_glyphs x c w (style_get t i) (picture t r)"
  using assms
  by (simp add: put_row_def picture_put_cell put_glyphs_def cell_new_def)

lemma picture_push:
  assumes "x < row_len r"
  shows "picture t (push_combining x m r) = mark_glyph x m (picture t r)"
  using assms
  by (intro picture_eqI) (auto simp: glyph_of_def mark_glyph_def nth_list_update combining_at_push Let_def)

lemma picture_erase_right:
  assumes t: "wf_style_table t" and x: "x < row_len r"
  shows "picture t (erase_span x (row_len r) cell_default r) = erase_right x (picture t r)"
proof -
  have d: "style_get t 0 = style_default" using t by (rule style_get_zero)
  have f: "picture t (fix_row x r) = fix_glyphs x (picture t r)" using t x by (rule picture_fix_row)
  have keep: "glyph_of t (fix_row x r) i = fix_glyphs x (picture t r) ! i" if "i < row_len r" for i
    using that f picture_nth[of i "fix_row x r" t] by simp
  show ?thesis
  proof (rule picture_eqI)
    show "row_len (erase_span x (row_len r) cell_default r) = length (erase_right x (picture t r))"
      using x by simp
    fix i assume "i < row_len (erase_span x (row_len r) cell_default r)"
    then have i: "i < row_len r" by simp
    show "glyph_of t (erase_span x (row_len r) cell_default r) i = erase_right x (picture t r) ! i"
      using i x d keep[OF i]
      by (auto simp: erase_span_def Let_def glyph_of_def fill_span_def erase_right_def nth_append cell_default_def
          blank_glyph_def)
  qed
qed

lemma picture_erase_row:
  "wf_style_table t \<Longrightarrow> picture t (erase_row cell_default r) = replicate (row_len r) blank_glyph"
  by (intro picture_eqI)
     (auto simp: erase_row_def clear_all_combining_def row_len_def glyph_of_def blank_glyph_def cell_default_def
       style_get_zero combining_at_def)

lemma picture_blank_row:
  "wf_style_table t \<Longrightarrow> picture t (new_blank_row cell_default g) = replicate (cols g) blank_glyph"
  by (intro picture_eqI)
     (auto simp: new_blank_row_def from_cells_def row_len_def glyph_of_def blank_glyph_def cell_default_def
       style_get_zero combining_at_def)

text \<open>A change of the style table that keeps the meaning of the identifiers in a row keeps its picture.\<close>

lemma picture_table_cong:
  assumes "\<And>cl. cl \<in> set (row_cells r) \<Longrightarrow> style_get t' (style_id cl) = style_get t (style_id cl)"
  shows "picture t' r = picture t r"
  using assms by (auto simp: picture_def glyph_of_def Let_def row_len_def)

subsection \<open>The face of a terminal\<close>

record face =
  f_cols :: nat
  f_rows :: "glyph list list"
  f_hist :: "glyph list list"
  f_limit :: nat
  f_x :: nat
  f_y :: nat
  f_pending :: bool
  f_region :: "nat \<times> nat"
  f_shown :: bool
  f_modes :: terminal_modes
  f_style :: style

definition face_of :: "screen_t \<Rightarrow> face" where
  "face_of s = (let g = grid s in
     \<lparr>f_cols = cols g, f_rows = screen_picture g, f_hist = history_picture g, f_limit = scrollback_limit g,
      f_x = cursor_x g, f_y = cursor_y g, f_pending = wrap_pending g, f_region = scroll_region g,
      f_shown = cursor_visible g, f_modes = modes g, f_style = current_style (state s)\<rparr>)"

lemma face_simps [simp]:
  "f_cols (face_of s) = cols (grid s)" "f_rows (face_of s) = screen_picture (grid s)"
  "f_hist (face_of s) = history_picture (grid s)" "f_limit (face_of s) = scrollback_limit (grid s)"
  "f_x (face_of s) = cursor_x (grid s)" "f_y (face_of s) = cursor_y (grid s)"
  "f_pending (face_of s) = wrap_pending (grid s)" "f_region (face_of s) = scroll_region (grid s)"
  "f_shown (face_of s) = cursor_visible (grid s)" "f_modes (face_of s) = modes (grid s)"
  "f_style (face_of s) = current_style (state s)"
  by (simp_all add: face_of_def Let_def)

text \<open>
  Room in the style table for the styles \<open>S\<close>: however many of them are still to be interned, no
  garbage collection is needed and no identifier is lost to the default style. A fresh terminal has
  room for the styles of any session.
\<close>

definition room :: "style set \<Rightarrow> style_table_t \<Rightarrow> bool" where
  "room S t \<longleftrightarrow> finite S \<and> length (styles t) + card (S - insert style_default (dom (style_index t))) \<le> 65536"

lemma room_new:
  assumes "wf_style_table t"
  shows "room (set (styles t)) style_table_new"
proof -
  have d: "style_default \<in> set (styles t)" and len: "length (styles t) \<le> 65536"
    using assms by (auto simp: wf_style_table_def) (metis length_greater_0_conv nth_mem)
  have "card (set (styles t) - {style_default}) < card (set (styles t))"
    using d by (intro card_Diff1_less) auto
  also have "\<dots> \<le> length (styles t)" by (rule card_length)
  finally show ?thesis using len by (simp add: room_def style_table_new_def)
qed

lemma intern_room:
  assumes wf: "wf_style_table t" and room: "room S t" and s: "s \<in> insert style_default S"
  shows "returns (intern s t) (\<lambda>(i, t'). room S t' \<and> style_get t' i = s \<and> (i = 0 \<longrightarrow> s = style_default))"
proof -
  obtain i t' where e: "intern s t = Some (i, t')" and post: "intern_post t s (i, t')"
    using intern_contract[OF wf, of s] by (auto elim!: returnsE)
  let ?D = "insert style_default (dom (style_index t))"
  have new: "card (S - insert s ?D) + 1 \<le> card (S - ?D)" if "s \<notin> ?D"
    using that s room card_Diff1_less[of "S - ?D" s] by (auto simp: room_def Diff_insert[of S s])
  have fit: "length (styles t) \<le> u16_max" if "s \<notin> ?D"
    using new[OF that] room by (simp add: room_def)
  have get: "style_get t' i = s"
  proof (cases "style_index t s")
    case None
    then have "s \<noteq> style_default \<Longrightarrow> \<not> style_is_full t" using fit by (auto simp: style_is_full_def dom_def)
    then show ?thesis using post style_get_zero[OF wf] by (auto simp: intern_post_def)
  next
    case (Some j)
    moreover have "styles t ! j = s" "j < length (styles t)" "s \<noteq> style_default"
      using wf Some by (auto simp: wf_style_table_def)
    ultimately show ?thesis using e by (simp add: intern_def style_is_default_def style_get_def)
  qed
  have "room S t'"
  proof (cases "s \<in> ?D")
    case True
    then have "t' = t" using e by (auto simp: intern_def style_is_default_def split: if_splits)
    then show ?thesis using room by simp
  next
    case False
    then have "dom (style_index t') = insert s (dom (style_index t)) \<and> length (styles t') \<le> Suc (length (styles t))"
      using e fit by (auto simp: intern_def style_is_default_def Let_def vset_def split: if_splits)
    then show ?thesis
      using new[OF False] room by (auto simp: room_def insert_commute)
  qed
  moreover have "i = 0 \<longrightarrow> s = style_default"
    using get post by (auto simp: intern_post_def style_get_zero)
  ultimately show ?thesis using get by (simp add: e)
qed

definition ready :: "style set \<Rightarrow> screen_t \<Rightarrow> bool" where
  "ready S s \<longleftrightarrow> wf_screen s \<and> room S (style_table (grid s))"

lemma readyD:
  assumes "ready S s"
  shows "wf_screen s" "room S (style_table (grid s))" "wf_style_table (style_table (grid s))"
    "grid_ok (live_cell (style_table (grid s))) (grid s)"
  using assms by (auto simp: ready_def dest: wf_screenD)

lemma visible_rows_used: "grid_ok P (grid s) \<Longrightarrow> r \<in> set (visible_rows (grid s)) \<Longrightarrow> r \<in> set (used_rows s)"
  by (auto simp: visible_rows_def used_rows_def dest: in_set_takeD in_set_dropD)

lemma history_rows_used: "r \<in> set (scrollback_rows (grid s)) \<Longrightarrow> r \<in> set (used_rows s)"
  by (auto simp: scrollback_rows_def used_rows_def dest: in_set_takeD)

lemma table_step_face:
  assumes "wf_screen s" "table_step s s'"
  shows "face_of s' = face_of s"
proof -
  obtain t where t: "s' = s\<lparr>grid := (grid s)\<lparr>style_table := t\<rparr>\<rparr>"
    "\<forall>j\<in>used_ids s. style_get t j = style_get (style_table (grid s)) j"
    using assms(2) by (auto simp: table_step_def)
  have "picture t r = picture (style_table (grid s)) r" if "r \<in> set (used_rows s)" for r
    using that t(2) by (intro picture_table_cong) (auto simp: used_ids_def)
  then show ?thesis
    using visible_rows_used[OF wf_screenD(2)[OF assms(1)]] history_rows_used[of _ s]
    by (auto simp: face_of_def Let_def t(1) screen_picture_def history_picture_def visible_rows_def scrollback_rows_def
        scroll_region_def)
qed

lemma intern_with_gc_ready:
  assumes s: "ready S s" and sty: "sty \<in> insert style_default S"
  shows "returns (intern_with_gc sty s) (\<lambda>(i, s'). ready S s' \<and> face_of s' = face_of s
    \<and> state s' = state s \<and> style_get (style_table (grid s')) i = sty \<and> i \<in> live_ids (style_table (grid s')))"
proof -
  obtain i t where it: "intern sty (style_table (grid s)) = Some (i, t)" "room S t" "style_get t i = sty"
    "i = 0 \<longrightarrow> sty = style_default"
    using intern_room[OF readyD(3)[OF s] readyD(2)[OF s] sty] by (auto elim!: returnsE)
  let ?s = "s\<lparr>grid := (grid s)\<lparr>style_table := t\<rparr>\<rparr>"
  have e: "intern_with_gc sty s = Some (i, ?s)"
    using it by (auto simp: intern_with_gc_def intern_style_def style_is_default_def)
  then have step: "table_step s ?s" "i \<in> live_ids t"
    using intern_with_gc_step[OF wf_at_self[OF readyD(1)[OF s]], of sty] by simp_all
  have "ready S ?s"
    using table_step_wf[OF wf_at_self[OF readyD(1)[OF s]] step(1)] it(2) by (simp add: ready_def wf_at_def)
  then show ?thesis
    using table_step_face[OF readyD(1)[OF s] step(1)] e it(3) step(2) by simp
qed

lemma blank_cell_ready:
  assumes s: "ready S s" and bg: "bg (current_style (state s)) = None"
  shows "blank_cell s = Some (cell_default, s)"
proof -
  have "style_default\<lparr>bg := None\<rparr> = style_default" by (simp add: style_default_def)
  then show ?thesis
    by (simp add: blank_cell_def bg intern_with_gc_def intern_style_def intern_def style_is_default_def
        cell_new_def cell_default_def)
qed

subsection \<open>Actions and faces\<close>

definition face_ok :: "face \<Rightarrow> bool" where
  "face_ok f \<longleftrightarrow>
     0 < f_cols f \<and> f_cols f \<le> u16_max \<and> length (f_rows f) \<le> u16_max \<and> f_x f < f_cols f \<and> f_y f < length (f_rows f)
     \<and> fst (f_region f) \<le> snd (f_region f) \<and> snd (f_region f) < length (f_rows f)
     \<and> list_all (\<lambda>gs. length gs = f_cols f) (f_rows f)"

lemma visible_rows_ok:
  assumes "grid_ok P g"
  shows "length (visible_rows g) = rows g" "\<And>y. y < rows g \<Longrightarrow> visible_rows g ! y = cells g ! (scrollback_len g + y)"
    "\<And>y. y < rows g \<Longrightarrow> row_fits P (cols g) (visible_rows g ! y)"
proof -
  show len: "length (visible_rows g) = rows g" using assms by (simp add: visible_rows_def grid_ok_def)
  show nth: "visible_rows g ! y = cells g ! (scrollback_len g + y)" if "y < rows g" for y
    using that assms by (simp add: visible_rows_def grid_ok_def)
  show "row_fits P (cols g) (visible_rows g ! y)" if "y < rows g" for y
    using that grid_ok_row[OF assms that] nth by simp
qed

lemma face_of_ok:
  assumes "wf_screen s"
  shows "face_ok (face_of s)" "length (f_rows (face_of s)) = rows (grid s)"
proof -
  have g: "grid_ok (live_cell (style_table (grid s))) (grid s)" using assms by (simp add: wf_screenD)
  have "list_all (\<lambda>gs. length gs = cols (grid s)) (screen_picture (grid s))"
    using visible_rows_ok(1)[OF g] row_fits_len[OF visible_rows_ok(3)[OF g]]
    by (auto simp: screen_picture_def list_all_length)
  then show "face_ok (face_of s)" "length (f_rows (face_of s)) = rows (grid s)"
    using grid_okD[OF g] visible_rows_ok(1)[OF g] by (auto simp: face_ok_def screen_picture_def scroll_region_def)
qed

text \<open>\<open>paints cw S as f f'\<close>: a terminal with face \<open>f\<close> that performs the actions has face \<open>f'\<close>.\<close>

definition paints :: "(rchar \<Rightarrow> nat option) \<Rightarrow> style set \<Rightarrow> action list \<Rightarrow> face \<Rightarrow> face \<Rightarrow> bool" where
  "paints cw S as f f' \<longleftrightarrow>
     (\<forall>s. ready S s \<and> face_of s = f \<longrightarrow> returns (foldm (perform cw) as s) (\<lambda>s'. ready S s' \<and> face_of s' = f'))"

lemma paints_append: "paints cw S as f g \<Longrightarrow> paints cw S bs g h \<Longrightarrow> paints cw S (as @ bs) f h"
  by (auto simp: paints_def foldm_append elim!: returns_mono)

lemma paints_Cons: "paints cw S [a] f g \<Longrightarrow> paints cw S as g h \<Longrightarrow> paints cw S (a # as) f h"
  using paints_append[of cw S "[a]" f g as h] by simp

lemma paints_Nil [simp]: "paints cw S [] f f"
  by (simp add: paints_def)

lemma paints_cong: "paints cw S as f g \<Longrightarrow> g = h \<Longrightarrow> paints cw S as f h"
  by simp

lemma paintsI:
  assumes "\<And>s. ready S s \<Longrightarrow> face_of s = f \<Longrightarrow> face_ok f \<Longrightarrow>
    returns (perform cw a s) (\<lambda>s'. ready S s' \<and> face_of s' = f')"
  shows "paints cw S [a] f f'"
  using assms by (auto simp: paints_def face_of_ok readyD(1))

text \<open>An action that leaves the style table alone keeps the terminal ready.\<close>

lemma paints_control:
  assumes cw: "width_ok cw"
    and step: "\<And>s. ready S s \<Longrightarrow> face_of s = f \<Longrightarrow> face_ok f \<Longrightarrow> length (f_rows f) = rows (grid s) \<Longrightarrow>
      returns (perform cw a s) (\<lambda>s'. style_table (grid s') = style_table (grid s) \<and> face_of s' = f')"
  shows "paints cw S [a] f f'"
proof (rule paintsI)
  fix s assume s: "ready S s" "face_of s = f" "face_ok f"
  have rows: "length (f_rows f) = rows (grid s)"
    using face_of_ok(2)[OF readyD(1)[OF s(1)]] s(2) by simp
  show "returns (perform cw a s) (\<lambda>s'. ready S s' \<and> face_of s' = f')"
    using step[OF s rows] readyD(2)[OF s(1)] perform_safe[OF readyD(1)[OF s(1)] cw, of a]
    by (auto simp: ready_def elim!: returnsE)
qed

subsubsection \<open>Control sequences\<close>

definition sgr_act :: "style \<Rightarrow> action" where
  "sgr_act sty = csi (map (map unat) ([0] # sgr_params sty)) CHR ''m''"

lemma paints_sgr: "width_ok cw \<Longrightarrow> paints cw S [sgr_act sty] f (f\<lparr>f_style := sty\<rparr>)"
proof (rule paints_control)
  fix s assume "face_of s = f"
  then show "returns (perform cw (sgr_act sty) s) (\<lambda>s'. style_table (grid s') = style_table (grid s)
      \<and> face_of s' = f\<lparr>f_style := sty\<rparr>)"
    using apply_sgr_params[of sty]
    by (auto simp: sgr_act_def csi_dispatch_def on_state_def apply_sgr_def face_of_def Let_def simp del: map_map)
qed (simp_all add: sgr_act_def)

definition move :: "nat \<Rightarrow> nat \<Rightarrow> face \<Rightarrow> face" where
  "move x y f = f\<lparr>f_x := x, f_y := y, f_pending := False\<rparr>"

lemma csi_param_simps [simp]:
  "csi_param [] i d = d" "csi_param [[n]] 0 d = (if n = 0 then d else n)"
  "csi_param [[n], [m]] 0 d = (if n = 0 then d else n)" "csi_param [[n], [m]] (Suc 0) d = (if m = 0 then d else m)"
  by (simp_all add: csi_param_def)

text \<open>In origin mode a line number counts from the top margin and stops at the bottom margin.\<close>

definition line_of :: "face \<Rightarrow> nat \<Rightarrow> nat" where
  "line_of f y = (if origin_mode (f_modes f) then min (fst (f_region f) + y) (snd (f_region f)) else y)"

lemmas face_eval = face_of_def Let_def screen_picture_def history_picture_def visible_rows_def scrollback_rows_def
  scroll_region_def

lemma paints_position:
  assumes "width_ok cw" "x < f_cols f" "y < length (f_rows f)"
  shows "paints cw S [csi [[y + 1], [x + 1]] CHR ''H''] f (move x (line_of f y) f)"
proof (rule paints_control)
  fix s assume s: "face_of s = f" "face_ok f" "length (f_rows f) = rows (grid s)"
  have "sat_add16 (fst (f_region f)) y = fst (f_region f) + y \<or> snd (f_region f) < sat_add16 (fst (f_region f)) y"
    using s(2) by (auto simp: sat_add16_def face_ok_def)
  then show "returns (perform cw (csi [[y + 1], [x + 1]] CHR ''H'') s)
      (\<lambda>s'. style_table (grid s') = style_table (grid s) \<and> face_of s' = move x (line_of f y) f)"
    using assms(2-3) s
    by (auto simp: csi_dispatch_def try_grid_def csi_cursor_position_def usub_def face_eval move_def
        line_of_def face_ok_def sat_add16_def)
qed (use assms in simp_all)

lemma paints_home:
  assumes "width_ok cw"
  shows "paints cw S [csi [] CHR ''H''] f (move 0 (line_of f 0) f)"
proof (rule paints_control)
  fix s assume s: "face_of s = f" "face_ok f" "length (f_rows f) = rows (grid s)"
  then show "returns (perform cw (csi [] CHR ''H'') s)
      (\<lambda>s'. style_table (grid s') = style_table (grid s) \<and> face_of s' = move 0 (line_of f 0) f)"
    by (auto simp: csi_dispatch_def try_grid_def csi_cursor_position_def usub_def face_eval move_def
        line_of_def face_ok_def sat_add16_def)
qed (use assms in simp_all)

definition cleared :: "face \<Rightarrow> face" where
  "cleared f = f\<lparr>f_rows := map (\<lambda>_. replicate (f_cols f) blank_glyph) (f_rows f)\<rparr>"

lemma paints_clear:
  assumes cw: "width_ok cw" and bg: "bg (f_style f) = None"
  shows "paints cw S [csi [[2]] CHR ''J''] f (cleared f)"
proof (rule paints_control)
  fix s assume s: "ready S s" "face_of s = f" "face_ok f" "length (f_rows f) = rows (grid s)"
  let ?g = "grid s"
  note g = readyD(4)[OF s(1)] and t = readyD(3)[OF s(1)]
  have P: "live_cell (style_table ?g) cell_default" using t by simp
  have blank: "blank_cell s = Some (cell_default, s)"
    by (rule blank_cell_ready[OF s(1)]) (use bg s(2) in auto)
  have split: "length (cells ?g) = scrollback_len ?g + rows ?g" using grid_okD(5)[OF g] .
  obtain cs where cs: "erase_rows_spec 0 (rows ?g) cell_default ?g = ?g\<lparr>cells := cs\<rparr>"
    using erase_rows_spec_frame by blast
  have e: "perform cw (csi [[2]] CHR ''J'') s = Some (s\<lparr>grid := ?g\<lparr>cells := cs\<rparr>\<rparr>)"
    by (simp add: csi_dispatch_def csi_erase_display_def blank try_grid_def erase_rows_eq(1)[OF g P] cs)
  have vis: "drop (scrollback_len ?g) cs = map (erase_row cell_default) (drop (scrollback_len ?g) (cells ?g))"
    using erase_all_rows[OF split, of cell_default] by (simp add: cs)
  have len: "length cs = length (cells ?g)"
    using fold_edit_length[of "erase_row cell_default" "[0..<rows ?g]" ?g] cs by (simp add: erase_rows_spec_def)
  have hist: "take (scrollback_len ?g) cs = take (scrollback_len ?g) (cells ?g)"
  proof (rule nth_equalityI)
    fix i assume "i < length (take (scrollback_len ?g) cs)"
    then show "take (scrollback_len ?g) cs ! i = take (scrollback_len ?g) (cells ?g) ! i"
      using erase_rows_spec_nth[of i ?g 0 "rows ?g" cell_default] len by (simp add: cs)
  qed (simp add: len)
  have "map (picture (style_table ?g)) (map (erase_row cell_default) (visible_rows ?g))
      = map (\<lambda>_. replicate (cols ?g) blank_glyph) (visible_rows ?g)"
    using t visible_rows_ok(1)[OF g] row_fits_len[OF visible_rows_ok(3)[OF g]]
    by (auto simp: picture_erase_row in_set_conv_nth)
  then have "face_of (s\<lparr>grid := ?g\<lparr>cells := cs\<rparr>\<rparr>) = cleared (face_of s)"
    by (simp add: face_eval cleared_def hist vis take_map comp_def)
  then show "returns (perform cw (csi [[2]] CHR ''J'') s)
      (\<lambda>s'. style_table (grid s') = style_table (grid s) \<and> face_of s' = cleared f)"
    unfolding e using s(2) by simp
qed (use cw in simp_all)

text \<open>Every edit of a row shows as an edit of its picture.\<close>

definition edit_face :: "(glyph list \<Rightarrow> glyph list) \<Rightarrow> face \<Rightarrow> face" where
  "edit_face h f = f\<lparr>f_rows := (f_rows f)[f_y f := h (f_rows f ! f_y f)]\<rparr>"

lemma face_edit_row:
  assumes g: "grid_ok P (grid s)" and y: "y < rows (grid s)"
  shows "face_of (s\<lparr>grid := edit_row y h (grid s)\<rparr>) = (face_of s)\<lparr>f_rows :=
    (screen_picture (grid s))[y := picture (style_table (grid s)) (h (visible_rows (grid s) ! y))]\<rparr>"
proof -
  have nth: "cells (grid s) ! (scrollback_len (grid s) + y) = visible_rows (grid s) ! y"
    using visible_rows_ok(2)[OF g y] by simp
  have vis: "visible_rows (edit_row y h (grid s)) = (visible_rows (grid s))[y := h (visible_rows (grid s) ! y)]"
    unfolding visible_rows_def using y by (simp add: edit_row_def nth visible_rows_def drop_update_swap take_update_swap)
  show ?thesis
    by (simp add: face_of_def Let_def screen_picture_def vis map_update history_picture_def scroll_region_def)
qed

lemma face_edit:
  assumes s: "ready S s"
    and h: "\<And>r. row_len r = cols (grid s) \<Longrightarrow> picture (style_table (grid s)) (h r) = k (picture (style_table (grid s)) r)"
  shows "face_of (s\<lparr>grid := edit_row (cursor_y (grid s)) h (grid s)\<rparr>) = edit_face k (face_of s)"
proof -
  note g = readyD(4)[OF s]
  have y: "cursor_y (grid s) < rows (grid s)" using grid_okD(8)[OF g] .
  have "row_len (visible_rows (grid s) ! cursor_y (grid s)) = cols (grid s)"
    using row_fits_len[OF visible_rows_ok(3)[OF g y]] .
  then show ?thesis
    using y visible_rows_ok(1)[OF g] by (simp add: face_edit_row[OF g y] edit_face_def h screen_picture_def)
qed

lemma paints_erase_right:
  assumes cw: "width_ok cw" and bg: "bg (f_style f) = None"
  shows "paints cw S [csi [] CHR ''K''] f (edit_face (erase_right (f_x f)) f)"
proof (rule paints_control)
  fix s assume s: "ready S s" "face_of s = f" "face_ok f" "length (f_rows f) = rows (grid s)"
  let ?g = "grid s"
  note g = readyD(4)[OF s(1)] and t = readyD(3)[OF s(1)]
  have P: "live_cell (style_table ?g) cell_default" using t by simp
  have blank: "blank_cell s = Some (cell_default, s)"
    by (rule blank_cell_ready[OF s(1)]) (use bg s(2) in auto)
  have e: "perform cw (csi [] CHR ''K'') s
      = Some (s\<lparr>grid := edit_row (cursor_y ?g) (erase_span (cursor_x ?g) (cols ?g) cell_default) ?g\<rparr>)"
    using grid_okD(7,8)[OF g] erase_cells_eq[OF g grid_okD(8)[OF g] P grid_okD(7)[OF g] order_refl, of cell_default]
    by (simp add: csi_dispatch_def csi_erase_line_def blank try_grid_def)
  have "picture (style_table ?g) (erase_span (cursor_x ?g) (cols ?g) cell_default r)
      = erase_right (cursor_x ?g) (picture (style_table ?g) r)" if "row_len r = cols ?g" for r
    using picture_erase_right[OF t, of "cursor_x ?g" r] grid_okD(7)[OF g] that by simp
  from face_edit[OF s(1), of "erase_span (cursor_x ?g) (cols ?g) cell_default", OF this]
  show "returns (perform cw (csi [] CHR ''K'') s)
      (\<lambda>s'. style_table (grid s') = style_table (grid s) \<and> face_of s' = edit_face (erase_right (f_x f)) f)"
    unfolding e using s(2) by auto
qed (use cw in simp_all)

subsubsection \<open>Printing\<close>

text \<open>
  The modes in which the frames of the renderer are read as they are meant: lines count from the top
  of the screen, a full line leaves the cursor waiting to wrap, and characters stand for themselves.
\<close>

definition plain :: "terminal_modes \<Rightarrow> bool" where
  "plain m \<longleftrightarrow> \<not> origin_mode m \<and> autowrap_mode m
     \<and> (case active_charset m of G0 \<Rightarrow> g0_charset m | G1 \<Rightarrow> g1_charset m) = Ascii"

definition advanced :: "nat \<Rightarrow> face \<Rightarrow> face" where
  "advanced w f = (if f_cols f \<le> f_x f + w then f\<lparr>f_x := f_cols f - 1, f_pending := True\<rparr> else f\<lparr>f_x := f_x f + w\<rparr>)"

lemma face_control:
  "face_of (on_grid (set_wrap_pending b) s) = (face_of s)\<lparr>f_pending := b\<rparr>"
  "face_of (on_grid (set_cursor_x_unclamped x) s) = (face_of s)\<lparr>f_x := x\<rparr>"
  "face_of (on_grid (set_cursor_visible b) s) = (face_of s)\<lparr>f_shown := b\<rparr>"
  "face_of (on_grid (modes_mut k) s) = (face_of s)\<lparr>f_modes := k (modes (grid s))\<rparr>"
  by (simp_all add: on_grid_def face_eval)

definition printed :: "rchar \<Rightarrow> nat \<Rightarrow> face \<Rightarrow> face" where
  "printed c w f = advanced w (edit_face (put_glyphs (f_x f) c w (f_style f)) f)"

lemma map_charset_plain: "plain m \<Longrightarrow> map_charset m c = c"
  by (simp add: map_charset_def plain_def)

lemma paints_print:
  assumes cw: "width_ok cw" "cw c = Some w" "0 < w" and m: "plain (f_modes f)"
    and f: "\<not> f_pending f" "f_style f \<in> insert style_default S" "f_x f + w \<le> f_cols f"
  shows "paints cw S [Print c] f (printed c w f)"
proof (rule paintsI)
  fix s assume s: "ready S s" "face_of s = f" "face_ok f"
  let ?s1 = "on_state (\<lambda>st. st\<lparr>last_printed_char := c\<rparr>) s"
  have w: "w \<le> 3" using cw(1,2) by (auto simp: width_ok_def)
  have s1: "ready S ?s1" "face_of ?s1 = f" "state ?s1 = (state s)\<lparr>last_printed_char := c\<rparr>" "grid ?s1 = grid s"
    using s on_state_wf[OF readyD(1)[OF s(1)]] readyD(2)[OF s(1)] wf_screenD[OF readyD(1)[OF s(1)]]
    by (auto simp: ready_def on_state_def face_of_def Let_def wf_screen_def alt_ok_def queues_ok_def split: option.splits)
  obtain i s2 where i: "intern_with_gc (f_style f) ?s1 = Some (i, s2)" "ready S s2" "face_of s2 = f"
    "style_get (style_table (grid s2)) i = f_style f" "i \<in> live_ids (style_table (grid s2))"
    using intern_with_gc_ready[OF s1(1) f(2)] s1(2) by (auto elim!: returnsE)
  let ?g = "grid s2" and ?cl = "cell_new c i w"
  note g = readyD(4)[OF i(2)] and t = readyD(3)[OF i(2)]
  have P: "live_cell (style_table ?g) cell_default" "live_cell (style_table ?g) ?cl"
    "live_cell (style_table ?g) (cell_new 0 (style_id ?cl) 0)"
    using t i(5) w by (simp_all add: cell_new_def cell_default_def live_cell_def zero_live)
  have cur: "cursor_x ?g = f_x f" "cursor_y ?g = f_y f" "cols ?g = f_cols f" "modes ?g = f_modes f" "wrap_pending ?g = f_pending f"
    "f_x f < f_cols f" "f_y f < rows ?g" "f_cols f \<le> u16_max"
    using i(3) s(3) face_of_ok(2)[OF readyD(1)[OF i(2)]] by (auto simp: face_ok_def)
  have old: "cols (grid s) = f_cols f" "rows (grid s) = rows ?g" "cursor_x (grid s) = f_x f" "cursor_y (grid s) = f_y f"
    "modes (grid s) = f_modes f" "wrap_pending (grid s) = f_pending f" "current_style (state s) = f_style f"
    using s(2) i(3) face_of_ok(2)[OF readyD(1)[OF s(1)]] face_of_ok(2)[OF readyD(1)[OF i(2)]] by auto
  have set: "set_cell (f_x f) (f_y f) ?cl ?g = Some (edit_row (f_y f) (put_row (f_x f) ?cl) ?g)"
    using set_cell_eq[OF g _ _ P(1,2)] cur by simp
  let ?s3 = "s2\<lparr>grid := edit_row (f_y f) (put_row (f_x f) ?cl) ?g\<rparr>"
  have face3: "face_of ?s3 = edit_face (put_glyphs (f_x f) c w (f_style f)) f"
    using face_edit[OF i(2), of "put_row (f_x f) ?cl" "put_glyphs (f_x f) c w (f_style f)"]
      picture_put_row[OF t, of "f_x f" _ c i w] cur i(3,4) by simp
  let ?s4 = "if f_cols f \<le> f_x f + w then on_grid (set_wrap_pending True) (on_grid (set_cursor_x_unclamped (f_cols f - 1)) ?s3)
     else on_grid (set_cursor_x_unclamped (f_x f + w)) ?s3"
  have at: "print_at_cursor c w ?s1 = Some ?s4"
    using i(1) set cur old f(3) m
    by (auto simp: print_at_cursor_def Let_def s1(3,4) try_grid_def add16_def usub_def plain_def on_grid_def)
  have "print cw c s = print_at_cursor c w ?s1"
    using cw(2,3) f(1,3) m old
    by (auto simp: print_def Let_def map_charset_plain s1(4) usub_def)
  moreover have "room S (style_table (grid ?s4))" using readyD(2)[OF i(2)] by (simp add: on_grid_def)
  moreover have "face_of ?s4 = printed c w f"
    using cur by (simp add: printed_def face3[symmetric] advanced_def face_control)
  ultimately show "returns (perform cw (Print c) s) (\<lambda>s'. ready S s' \<and> face_of s' = printed c w f)"
    using at print_safe[OF wf_at_self[OF readyD(1)[OF s(1)]] cw(1), of c] by (simp add: ready_def wf_at_def)
qed

text \<open>A combining mark joins the character before the cursor.\<close>

definition mark_col :: "face \<Rightarrow> nat" where
  "mark_col f = (let tx = (if f_pending f then f_x f else f_x f - 1)
     in if gl_width (f_rows f ! f_y f ! tx) = 0 \<and> tx > 0 then tx - 1 else tx)"

definition zero_width :: "(rchar \<Rightarrow> nat option) \<Rightarrow> rchar \<Rightarrow> bool" where
  "zero_width cw c \<longleftrightarrow> cw c = None \<or> cw c = Some 0"

lemma paints_mark:
  assumes cw: "width_ok cw" "zero_width cw m" and p: "plain (f_modes f)"
    and f: "f_pending f \<or> 0 < f_x f" "length (gl_marks (f_rows f ! f_y f ! mark_col f)) < 16"
  shows "paints cw S [Print m] f (edit_face (mark_glyph (mark_col f) m) f)"
proof (rule paints_control)
  fix s assume s: "ready S s" "face_of s = f" "face_ok f" "length (f_rows f) = rows (grid s)"
  let ?g = "grid s" and ?t = "style_table (grid s)"
  let ?r = "visible_rows ?g ! f_y f"
  note g = readyD(4)[OF s(1)]
  have cur: "cursor_x ?g = f_x f" "cursor_y ?g = f_y f" "cols ?g = f_cols f" "wrap_pending ?g = f_pending f"
    "modes ?g = f_modes f" "f_x f < f_cols f" "f_y f < rows ?g" "f_cols f \<le> u16_max"
    using s(2,3,4) by (auto simp: face_ok_def)
  define tx where "tx = (if f_pending f then f_x f else f_x f - 1)"
  have tx: "tx < f_cols f" using cur by (auto simp: tx_def)
  have len: "row_len ?r = f_cols f" using row_fits_len[OF visible_rows_ok(3)[OF g, of "f_y f"]] cur by simp
  have row: "f_rows f ! f_y f = picture ?t ?r"
    using s(2) cur visible_rows_ok(1)[OF g] by (auto simp: screen_picture_def)
  have width: "gl_width (f_rows f ! f_y f ! tx) = cell_width (row_cells ?r ! tx)"
    using tx len by (simp add: row glyph_of_def Let_def)
  have mc: "mark_col f = (if cell_width (row_cells ?r ! tx) = 0 \<and> tx > 0 then tx - 1 else tx)" "mark_col f < f_cols f"
    using tx by (auto simp: mark_col_def tx_def[symmetric] width)
  have marks: "combining_len (mark_col f) ?r < 16"
    using f(2) mc(2) len by (simp add: row glyph_of_def Let_def combining_len_at)
  have col: "mark_column ?g = Some tx"
    using cur f(1) by (auto simp: mark_column_def tx_def)
  have vis: "visible_row (f_y f) ?g = Some ?r"
    using cur visible_rows_ok(2)[OF g, of "f_y f"] grid_ok_index[OF g, of "f_y f"] by (simp add: visible_row_def vget_def)
  have edit: "visible_row_mut (f_y f) (\<lambda>r. Some (push_combining (mark_col f) m r)) ?g
      = Some (edit_row (f_y f) (push_combining (mark_col f) m) ?g)"
    by (rule visible_row_mut_edit[OF g]) (use cur in simp_all)
  have as16: "as_u16 (mark_col f) = mark_col f" using mc(2) cur(8) by simp
  have e: "handle_combining_mark m ?g = Some (edit_row (f_y f) (push_combining (mark_col f) m) ?g)"
    using vis tx len marks edit cur as16
    by (simp add: handle_combining_mark_def col row_get_def vget_def row_len_cells mc(1)[symmetric] Let_def
        del: One_nat_def)
  let ?s1 = "on_state (\<lambda>st. st\<lparr>last_printed_char := m\<rparr>) s"
  have pr: "print cw m s = try_grid (handle_combining_mark m) ?s1"
    using cw(2) p cur by (auto simp: print_def Let_def map_charset_plain zero_width_def on_state_def)
  have "face_of ?s1 = face_of s" by (simp add: on_state_def face_eval)
  moreover have "ready S ?s1"
    using on_state_wf[OF readyD(1)[OF s(1)], of "\<lambda>st. st\<lparr>last_printed_char := m\<rparr>"] readyD(2)[OF s(1)] wf_screenD(4)[OF readyD(1)[OF s(1)]]
    by (simp add: ready_def queues_ok_def) (simp add: on_state_def)
  ultimately have "face_of (?s1\<lparr>grid := edit_row (f_y f) (push_combining (mark_col f) m) ?g\<rparr>) = edit_face (mark_glyph (mark_col f) m) f"
    using face_edit[of S ?s1 "push_combining (mark_col f) m" "mark_glyph (mark_col f) m"] picture_push mc(2) cur s(2)
    by (simp add: on_state_def)
  then show "returns (perform cw (Print m) s) (\<lambda>s'. style_table (grid s') = ?t \<and> face_of s' = edit_face (mark_glyph (mark_col f) m) f)"
    using e by (simp add: pr try_grid_def on_state_def)
qed (use cw in simp_all)

subsubsection \<open>Modes, margins, title\<close>

abbreviation on_modes :: "(terminal_modes \<Rightarrow> terminal_modes) \<Rightarrow> face \<Rightarrow> face" where
  "on_modes k f \<equiv> f\<lparr>f_modes := k (f_modes f)\<rparr>"

text \<open>Switching origin mode on moves the cursor to the top margin.\<close>

definition set_origin :: "bool \<Rightarrow> face \<Rightarrow> face" where
  "set_origin b f = on_modes (\<lambda>m. m\<lparr>origin_mode := b\<rparr>) (if b then move 0 (fst (f_region f)) f else f)"

lemma paints_dec:
  assumes "width_ok cw"
  shows "paints cw S (dec_act 1 b) f (on_modes (\<lambda>m. m\<lparr>cursor_key_mode := b\<rparr>) f)"
    "paints cw S (dec_act 6 b) f (set_origin b f)"
    "paints cw S (dec_act 7 b) f (on_modes (\<lambda>m. m\<lparr>autowrap_mode := b\<rparr>) f)"
    "paints cw S (dec_act 25 b) f (f\<lparr>f_shown := b\<rparr>)"
    "paints cw S (dec_act 1000 b) f (on_modes (\<lambda>m. m\<lparr>mouse_modes := (mouse_modes m)\<lparr>click := b\<rparr>\<rparr>) f)"
    "paints cw S (dec_act 1002 b) f (on_modes (\<lambda>m. m\<lparr>mouse_modes := (mouse_modes m)\<lparr>button := b\<rparr>\<rparr>) f)"
    "paints cw S (dec_act 1003 b) f (on_modes (\<lambda>m. m\<lparr>mouse_modes := (mouse_modes m)\<lparr>any_motion := b\<rparr>\<rparr>) f)"
    "paints cw S (dec_act 1004 b) f (on_modes (\<lambda>m. m\<lparr>focus_reporting := b\<rparr>) f)"
    "paints cw S (dec_act 1005 b) f (on_modes (\<lambda>m. m\<lparr>mouse_encoding := (if b then Utf8Enc else X10)\<rparr>) f)"
    "paints cw S (dec_act 1006 b) f (on_modes (\<lambda>m. m\<lparr>mouse_encoding := (if b then Sgr else X10)\<rparr>) f)"
    "paints cw S (dec_act 2004 b) f (on_modes (\<lambda>m. m\<lparr>bracketed_paste := b\<rparr>) f)"
    "paints cw S (dec_act 2026 b) f f"
  unfolding dec_act_def
  by (rule paints_control[OF assms], simp,
      auto simp: csi_dispatch_def csi_set_dec_private_mode_def dec_private_mode_def Let_def mouse_modes_set_def
        mouse_encoding_from_param_def on_grid_def face_eval set_origin_def move_def)+

lemma paints_other_modes:
  assumes "width_ok cw"
  shows "paints cw S (shape_act sh) f (on_modes (\<lambda>m. m\<lparr>cursor_shape := sh\<rparr>) f)"
    "paints cw S (charset_act CHR ''('' cs) f (on_modes (\<lambda>m. m\<lparr>g0_charset := cs\<rparr>) f)"
    "paints cw S (charset_act CHR '')'' cs) f (on_modes (\<lambda>m. m\<lparr>g1_charset := cs\<rparr>) f)"
    "paints cw S (keypad_act b) f (on_modes (\<lambda>m. m\<lparr>keypad_app_mode := b\<rparr>) f)"
    "paints cw S (active_act a) f (on_modes (\<lambda>m. m\<lparr>active_charset := a\<rparr>) f)"
  unfolding shape_act_def charset_act_def keypad_act_def active_act_def
  by (rule paints_control[OF assms], simp,
      auto simp: csi_dispatch_def esc_dispatch_def execute_def on_grid_def face_eval shape_param_inverse
        split: charset.split active_charset_t.split)+

lemma paints_encoding:
  assumes "width_ok cw"
  shows "paints cw S (encoding_act e) f (on_modes (\<lambda>m. m\<lparr>mouse_encoding := e\<rparr>) f)"
proof -
  have "paints cw S (dec_act 1005 b @ dec_act 1006 b') f (on_modes (\<lambda>m. m\<lparr>mouse_encoding := (if b' then Sgr else X10)\<rparr>) f)"
    "paints cw S (dec_act 1006 b' @ dec_act 1005 b) f (on_modes (\<lambda>m. m\<lparr>mouse_encoding := (if b then Utf8Enc else X10)\<rparr>) f)" for b b'
    using paints_append[OF paints_dec(9)[OF assms, of S b f] paints_dec(10)[OF assms, of S b']]
      paints_append[OF paints_dec(10)[OF assms, of S b' f] paints_dec(9)[OF assms, of S b]] by simp_all
  from this(1)[of False True] this(2)[of False True] this(2)[of False False] show ?thesis by (cases e) simp_all
qed

definition with_modes :: "terminal_modes \<Rightarrow> bool \<Rightarrow> face \<Rightarrow> face" where
  "with_modes m b f = (if b then move 0 (fst (f_region f)) f else f)\<lparr>f_modes := m\<rparr>"

text \<open>Mode sequences one after the other, on a face whose modes are kept apart from the rest of it.\<close>

lemma modes_step: "(\<And>f. paints cw S as f (on_modes k f)) \<Longrightarrow> paints cw S as (f\<lparr>f_modes := q\<rparr>) (f\<lparr>f_modes := k q\<rparr>)"
  by (erule meta_allE[of _ "f\<lparr>f_modes := q\<rparr>"]) simp

lemma modes_if:
  "(\<And>f. paints cw S as f (on_modes k f)) \<Longrightarrow> (x = y \<Longrightarrow> k q = q) \<Longrightarrow>
    paints cw S (if_changed (x \<noteq> y) as) (f\<lparr>f_modes := q\<rparr>) (f\<lparr>f_modes := k q\<rparr>)"
  using modes_step[where f = f and q = q] by auto

lemma origin_step:
  "width_ok cw \<Longrightarrow> paints cw S (dec_act 6 b) (f\<lparr>f_modes := q\<rparr>)
    ((if b then move 0 (fst (f_region f)) f else f)\<lparr>f_modes := q\<lparr>origin_mode := b\<rparr>\<rparr>)"
  using paints_dec(2)[of cw S b "f\<lparr>f_modes := q\<rparr>"] by (cases b) (auto simp: set_origin_def move_def)

lemma origin_if:
  assumes "width_ok cw" "origin_mode q = o'"
  shows "paints cw S (if_changed (b \<noteq> o') (dec_act 6 b)) (f\<lparr>f_modes := q\<rparr>)
    ((if b \<and> \<not> o' then move 0 (fst (f_region f)) f else f)\<lparr>f_modes := q\<lparr>origin_mode := b\<rparr>\<rparr>)"
proof (cases "b = o'")
  case True
  then have "q\<lparr>origin_mode := b\<rparr> = q" using assms(2) by (cases q) simp
  then show ?thesis using True by simp
next
  case False
  then show ?thesis using origin_step[OF assms(1), where b = b and f = f and q = q] by auto
qed

lemmas mode_steps = paints_dec(1,3,5-8,11) paints_other_modes paints_encoding

lemma paints_all_modes:
  assumes w: "width_ok cw"
  shows "paints cw S (delta_actions always m r) f (with_modes m (origin_mode m) f)"
proof -
  have "paints cw S (delta_actions always m r) (f\<lparr>f_modes := q\<rparr>) (with_modes m (origin_mode m) f)" for q
    unfolding delta_actions_def
    by (rule paints_cong, (rule paints_append origin_step[OF w] mode_steps[OF w, THEN modes_step])+)
      (simp add: with_modes_def)
  from this[of "f_modes f"] show ?thesis by simp
qed

lemma paints_changed_modes:
  assumes w: "width_ok cw" and p: "f_modes f = p"
  shows "paints cw S (delta_actions if_changed m p) f (with_modes m (origin_mode m \<and> \<not> origin_mode p) f)"
proof -
  have "paints cw S (delta_actions if_changed m p) (f\<lparr>f_modes := p\<rparr>) (with_modes m (origin_mode m \<and> \<not> origin_mode p) f)"
    unfolding delta_actions_def
    by (rule paints_cong, (rule paints_append origin_if[OF w] mode_steps[OF w, THEN modes_if] | (simp; fail))+)
      (simp add: with_modes_def)
  moreover have "f\<lparr>f_modes := p\<rparr> = f" using p by auto
  ultimately show ?thesis by simp
qed

lemma paints_margins:
  assumes "width_ok cw" "t \<le> b" "b < length (f_rows f)"
  shows "paints cw S [csi [[t + 1], [b + 1]] CHR ''r''] f
    (move 0 (if origin_mode (f_modes f) then t else 0) (f\<lparr>f_region := (t, b)\<rparr>))"
proof (rule paints_control)
  fix s assume s: "face_of s = f" "face_ok f" "length (f_rows f) = rows (grid s)"
  then show "returns (perform cw (csi [[t + 1], [b + 1]] CHR ''r'') s) (\<lambda>s'. style_table (grid s') = style_table (grid s)
      \<and> face_of s' = move 0 (if origin_mode (f_modes f) then t else 0) (f\<lparr>f_region := (t, b)\<rparr>))"
    using assms(2,3)
    by (auto simp: csi_dispatch_def try_grid_def csi_set_scrolling_region_def usub_def face_eval move_def)
qed (use assms in simp_all)

lemma paints_no_margins:
  assumes "width_ok cw"
  shows "paints cw S [csi [] CHR ''r''] f (move 0 0 (f\<lparr>f_region := (0, length (f_rows f) - 1)\<rparr>))"
proof (rule paints_control)
  fix s assume s: "face_of s = f" "face_ok f" "length (f_rows f) = rows (grid s)"
  then show "returns (perform cw (csi [] CHR ''r'') s) (\<lambda>s'. style_table (grid s') = style_table (grid s)
      \<and> face_of s' = move 0 0 (f\<lparr>f_region := (0, length (f_rows f) - 1)\<rparr>))"
    by (auto simp: csi_dispatch_def try_grid_def csi_set_scrolling_region_def usub_def face_eval move_def face_ok_def)
qed (use assms in simp_all)

definition title_act :: "bytes \<Rightarrow> action" where
  "title_act ttl = OscDispatch (''2'' # split_on CHR '';'' (sanitize_title ttl)) True"

lemma split_on_hd: "split_on c xs \<noteq> [] \<and> length (hd (split_on c xs)) \<le> length xs"
  by (induction xs) (auto split: list.split)

lemma paints_title:
  assumes "width_ok cw" "length ttl \<le> 4096"
  shows "paints cw S [title_act ttl] f f"
proof -
  have len: "length (sanitize_title ttl) \<le> 4096"
    unfolding sanitize_title_def using assms(2) length_filter_le order_trans by blast
  obtain t ts where t: "split_on CHR '';'' (sanitize_title ttl) = t # ts" "length t \<le> 4096"
    using split_on_hd[of "CHR '';''" "sanitize_title ttl"] len by (cases "split_on CHR '';'' (sanitize_title ttl)") auto
  have n: "osc_number ''2'' = Some 2"
    by (simp add: osc_number_def parse_uint_def parse_digits_def utf8_valid.simps(2) char_len_def)
  have a: "title_act ttl = OscDispatch (''2'' # t # ts) True" by (simp add: title_act_def t(1))
  have o: "\<exists>u. osc_dispatch (''2'' # t # ts) True st = Some (st\<lparr>title := u\<rparr>)" for st
    using t(2) exI[of "\<lambda>u. st = st\<lparr>title := u\<rparr>" "title st"] by (auto simp: osc_dispatch_def n)
  show ?thesis
  proof (rule paints_control[OF assms(1)])
    fix s assume "face_of s = f"
    then show "returns (perform cw (title_act ttl) s) (\<lambda>s'. style_table (grid s') = style_table (grid s) \<and> face_of s' = f)"
      using o[of "state s"] by (auto simp: a try_state_def face_eval)
  qed
qed

definition scrolled :: "face \<Rightarrow> face" where
  "scrolled f = f\<lparr>f_rows := tl (f_rows f) @ [replicate (f_cols f) blank_glyph],
     f_hist := drop (Suc (length (f_hist f)) - f_limit f) (f_hist f @ [hd (f_rows f)]), f_pending := False\<rparr>"

lemma scroll_up_spec_frame:
  "cols (scroll_up_spec a fill g) = cols g" "scrollback_limit (scroll_up_spec a fill g) = scrollback_limit g"
  "cursor_x (scroll_up_spec a fill g) = cursor_x g" "cursor_y (scroll_up_spec a fill g) = cursor_y g"
  "wrap_pending (scroll_up_spec a fill g) = wrap_pending g" "scroll_region (scroll_up_spec a fill g) = scroll_region g"
  "cursor_visible (scroll_up_spec a fill g) = cursor_visible g" "modes (scroll_up_spec a fill g) = modes g"
  by (simp_all add: scroll_up_spec_def Let_def scroll_region_def)

lemma paints_line_feed:
  assumes cw: "width_ok cw" and f: "f_region f = (0, length (f_rows f) - 1)" "f_y f = length (f_rows f) - 1"
    "0 < f_limit f" "bg (f_style f) = None"
  shows "paints cw S [Execute (byte_of 0x0A)] f (scrolled f)"
proof (rule paints_control)
  fix s assume s: "ready S s" "face_of s = f" "face_ok f" "length (f_rows f) = rows (grid s)"
  let ?s = "on_grid (set_wrap_pending False) s"
  let ?g = "grid ?s"
  have s1: "ready S ?s"
    using s(1) on_grid_safe[where f = "set_wrap_pending False", OF wf_at_self[OF readyD(1)[OF s(1)]] control_keeps(1)[OF readyD(4)[OF s(1)]]]
    by (simp add: ready_def wf_at_def) (simp add: on_grid_def)
  note g = readyD(4)[OF s1] and t = readyD(3)[OF s1]
  have cur: "scroll_top ?g = 0" "scroll_bottom ?g = rows ?g - 1" "cursor_y ?g = rows ?g - 1" "0 < scrollback_limit ?g"
    "bg (current_style (state ?s)) = None" "state ?s = state s"
    using s(2,4) f by (auto simp: on_grid_def scroll_region_def)
  have main: "\<not> in_alt_screen (state s)" "scrollback_len ?g \<le> scrollback_limit ?g"
    using wf_screenD(3)[OF readyD(1)[OF s1]] cur by (auto simp: alt_ok_def split: option.splits)
  let ?g' = "scroll_up_spec False cell_default ?g"
  have "bval (byte_of 0x0A) = 0x0A" by simp
  then have e: "perform cw (Execute (byte_of 0x0A)) s = Some (?s\<lparr>grid := ?g'\<rparr>)"
    using cur main(1) blank_cell_ready[OF s1 cur(5)]
    by (simp add: execute_def Let_def line_feed_def p_scroll_up_def try_grid_def scroll_up_eq[OF g])
  note h = scroll_up_history[OF g _ cur(1,4) main(2), of False cell_default]
  obtain v vs where v: "visible_rows ?g = v # vs" "rows ?g = Suc (length vs)"
    using visible_rows_ok(1)[OF g] grid_okD(3)[OF g] by (cases "visible_rows ?g") auto
  have vis: "visible_rows ?g' = vs @ [new_blank_row cell_default ?g]"
    using h(2) cur(2) v by (simp add: region_up_def)
  have len: "length (scrollback_rows ?g) = scrollback_len ?g"
    using grid_okD(5)[OF g] by (simp add: scrollback_rows_def)
  have "screen_picture ?g' = tl (screen_picture ?g) @ [replicate (cols ?g) blank_glyph]"
    "history_picture ?g' = drop (Suc (length (history_picture ?g)) - scrollback_limit ?g)
       (history_picture ?g @ [hd (screen_picture ?g)])"
    using vis h(1) v len by (simp_all add: screen_picture_def history_picture_def picture_blank_row[OF t] drop_map[symmetric])
  moreover have "wrap_pending ?g = False" by (simp add: on_grid_def)
  ultimately have "face_of (?s\<lparr>grid := ?g'\<rparr>) = scrolled (face_of ?s)"
    by (simp add: face_of_def Let_def scrolled_def scroll_up_spec_frame)
  moreover have "scrolled (face_of ?s) = scrolled f"
    using s(2) by (auto simp: face_control scrolled_def)
  ultimately show "returns (perform cw (Execute (byte_of 0x0A)) s)
      (\<lambda>s'. style_table (grid s') = style_table (grid s) \<and> face_of s' = scrolled f)"
    unfolding e by (simp add: on_grid_def)
qed (use cw in simp_all)

end
