(* ===== verification/Terminal.thy ===== *)
theory Terminal
  imports Picture
begin

text \<open>
  Frames on a terminal: performing the actions whose text a frame is makes the terminal show the
  screen of the session.
\<close>

subsection \<open>Rows that can be painted\<close>

text \<open>
  A character that is itself when it is read back: not a control character. In a paintable row every
  cell has the width of its character, a wide character is followed by its other half, and marks have
  no width. Blanks behind the last cell with content carry no marks, for they are not drawn.
\<close>

definition printable :: "rchar \<Rightarrow> bool" where
  "printable c \<longleftrightarrow> scalar c \<and> 0x20 \<le> c \<and> \<not> (0x7F \<le> c \<and> c \<le> 0x9F)"

definition head_ok :: "(rchar \<Rightarrow> nat option) \<Rightarrow> row \<Rightarrow> nat \<Rightarrow> cell \<Rightarrow> nat \<Rightarrow> bool" where
  "head_ok cw r x cl w \<longleftrightarrow>
     cell_width cl = w \<and> cw (cell_c cl) = Some w \<and> printable (cell_c cl) \<and> length (combining_at x r) \<le> 16
     \<and> list_all (\<lambda>m. printable m \<and> zero_width cw m) (combining_at x r)"

fun cells_paintable :: "(rchar \<Rightarrow> nat option) \<Rightarrow> row \<Rightarrow> nat \<Rightarrow> cell list \<Rightarrow> bool" where
  "cells_paintable cw r x [] = True"
| "cells_paintable cw r x [cl] = head_ok cw r x cl 1"
| "cells_paintable cw r x (cl # d # cs) =
     (if cell_width cl = 2
      then head_ok cw r x cl 2 \<and> cell_c d = 0 \<and> cell_width d = 0 \<and> style_id d = style_id cl
        \<and> combining_at (Suc x) r = [] \<and> cells_paintable cw r (Suc (Suc x)) cs
      else head_ok cw r x cl 1 \<and> cells_paintable cw r (Suc x) (d # cs))"

definition paintable :: "(rchar \<Rightarrow> nat option) \<Rightarrow> row \<Rightarrow> bool" where
  "paintable cw r \<longleftrightarrow> cells_paintable cw r 0 (row_cells r)
     \<and> list_all (\<lambda>x. combining_at x r = []) [write_len r..<row_len r]"

text \<open>The same for the columns of a terminal's row: every wide character has its other half.\<close>

fun paired :: "glyph list \<Rightarrow> bool" where
  "paired [] = True"
| "paired [g] = (gl_width g = 1)"
| "paired (g # h # gs) = (if gl_width g = 2 then gl_width h = 0 \<and> paired gs else gl_width g = 1 \<and> paired (h # gs))"

text \<open>What is left of the columns from a character on when something is printed over it.\<close>

fun after_head :: "glyph list \<Rightarrow> glyph list" where
  "after_head (g # h # gs) = (if gl_width g = 2 then broken h # gs else h # gs)"
| "after_head _ = []"

lemma after_head_paired: "paired gs \<Longrightarrow> paired (after_head gs)"
  by (induction gs rule: paired.induct) (auto simp: broken_def split: if_splits elim: paired.elims)

lemma after_head_length [simp]: "length (after_head gs) = length gs - 1"
  by (induction gs rule: after_head.induct) auto

lemma put_glyph_at:
  assumes "paired gs" "gs \<noteq> []"
  shows "put_glyph (length pre) gl (pre @ gs) = pre @ gl # after_head gs"
  using assms
  by (cases gs rule: paired.cases) (auto simp: put_glyph_def fix_glyphs_def list_update_append nth_append split: if_splits)

lemma put_glyphs_at:
  assumes "paired gs" "0 < w" "w \<le> 2" "w \<le> length gs"
  shows "put_glyphs (length pre) c w sty (pre @ gs)
    = pre @ glyph_new c w sty # (if w = 2 then [glyph_new 0 0 sty] else []) @ (after_head ^^ w) gs"
proof (cases "w = 2")
  case True
  have "0 < length gs" "0 < length (after_head gs)" unfolding after_head_length using assms(4) True by linarith+
  then have "gs \<noteq> []" "after_head gs \<noteq> []" by blast+
  then show ?thesis
    using True assms put_glyph_at[OF after_head_paired[OF assms(1)], of "pre @ [glyph_new c 2 sty]" "glyph_new 0 0 sty"]
    by (simp add: put_glyphs_def put_glyph_at[OF assms(1)] numeral_2_eq_2 Suc_le_eq)
next
  case False
  then have "w = 1" using assms(2,3) by simp
  moreover have "gs \<noteq> []" using assms(2,4) by auto
  ultimately show ?thesis using assms put_glyph_at[OF assms(1), of pre] by (auto simp: put_glyphs_def)
qed

lemma drop_ConsD:
  assumes "c # cs = drop x xs"
  shows "x < length xs" "xs ! x = c" "drop (Suc x) xs = cs"
proof -
  show x: "x < length xs" using assms by (metis drop_all list.distinct(1) not_le)
  show "xs ! x = c" "drop (Suc x) xs = cs" using Cons_nth_drop_Suc[OF x, folded assms] by simp_all
qed

subsection \<open>Painting cells\<close>

definition add_marks :: "nat \<Rightarrow> rchar list \<Rightarrow> glyph list \<Rightarrow> glyph list" where
  "add_marks x ms gs = gs[x := (gs ! x)\<lparr>gl_marks := gl_marks (gs ! x) @ ms\<rparr>]"

lemma edit_face_row [simp]:
  "f_y f < length (f_rows f) \<Longrightarrow> f_rows (edit_face h f) ! f_y f = h (f_rows f ! f_y f)"
  "f_cols (edit_face h f) = f_cols f" "f_x (edit_face h f) = f_x f" "f_y (edit_face h f) = f_y f"
  "f_pending (edit_face h f) = f_pending f" "f_modes (edit_face h f) = f_modes f" "f_style (edit_face h f) = f_style f"
  "length (f_rows (edit_face h f)) = length (f_rows f)"
  by (simp_all add: edit_face_def)

lemma paints_marks:
  assumes "width_ok cw" "plain (f_modes f)" "f_pending f \<or> 0 < f_x f" "f_y f < length (f_rows f)"
    "mark_col f = x" "x < length (f_rows f ! f_y f)"
    "length (gl_marks (f_rows f ! f_y f ! x)) + length ms \<le> 16" "list_all (zero_width cw) ms"
  shows "paints cw S (map Print ms) f (edit_face (add_marks x ms) f)"
  using assms
proof (induction ms arbitrary: f)
  case Nil
  then show ?case by (simp add: edit_face_def add_marks_def)
next
  case (Cons m ms)
  let ?f = "edit_face (mark_glyph x m) f"
  have row: "f_rows ?f ! f_y f = mark_glyph x m (f_rows f ! f_y f)" using Cons.prems(4) by simp
  have "gl_width (mark_glyph x m gs ! i) = gl_width (gs ! i)" for gs i
    by (cases "x < length gs") (auto simp: mark_glyph_def nth_list_update list_update_beyond)
  then have "mark_col ?f = mark_col f" using row by (simp add: mark_col_def Let_def)
  then have mc: "mark_col ?f = x" using Cons.prems(5) by simp
  have "paints cw S (map Print ms) ?f (edit_face (add_marks x ms) ?f)"
    using Cons.prems row mc by (intro Cons.IH) (simp_all add: mark_glyph_def)
  moreover have "edit_face (add_marks x ms) ?f = edit_face (add_marks x (m # ms)) f"
    using Cons.prems(4,6) by (simp add: edit_face_def add_marks_def mark_glyph_def)
  moreover have "paints cw S [Print m] f ?f"
    using paints_mark[OF Cons.prems(1) _ Cons.prems(2,3), of m S] Cons.prems(5,7,8) by simp
  ultimately show ?case by (auto intro: paints_Cons)
qed

text \<open>\<open>at_col e f\<close>: the cursor at column \<open>e\<close>, or waiting to wrap when that is the end of the line.\<close>

definition at_col :: "nat \<Rightarrow> face \<Rightarrow> face" where
  "at_col e f = (if e < f_cols f then f\<lparr>f_x := e, f_pending := False\<rparr> else f\<lparr>f_x := f_cols f - 1, f_pending := True\<rparr>)"

definition on_col :: "nat \<Rightarrow> face \<Rightarrow> bool" where
  "on_col e f \<longleftrightarrow> (if e < f_cols f then f_x f = e \<and> \<not> f_pending f else f_x f = f_cols f - 1 \<and> f_pending f)"

lemma on_at_col [simp]: "on_col e (at_col e f)"
  by (simp add: on_col_def at_col_def)

lemma at_col_id: "on_col e f \<Longrightarrow> at_col e f = f"
  by (rule face.equality) (auto simp: on_col_def at_col_def split: if_splits)

definition set_row :: "glyph list \<Rightarrow> face \<Rightarrow> face" where
  "set_row gs f = f\<lparr>f_rows := (f_rows f)[f_y f := gs]\<rparr>"

definition head_glyphs :: "rchar \<Rightarrow> nat \<Rightarrow> style \<Rightarrow> rchar list \<Rightarrow> glyph list" where
  "head_glyphs c w sty ms =
     \<lparr>gl_char = c, gl_width = w, gl_style = sty, gl_marks = ms\<rparr> # (if w = 2 then [glyph_new 0 0 sty] else [])"

lemma paints_head:
  assumes cw: "width_ok cw" "cw c = Some w" "0 < w" and w: "w \<le> 2" and m: "plain (f_modes f)"
    and f: "on_col (length pre) f" "f_style f \<in> insert style_default S" "f_y f < length (f_rows f)"
    and row: "f_rows f ! f_y f = pre @ gs" "length (pre @ gs) = f_cols f" "paired gs" "w \<le> length gs"
    and ms: "length ms \<le> 16" "list_all (zero_width cw) ms"
  shows "paints cw S (Print c # map Print ms) f
    (at_col (length pre + w) (set_row (pre @ head_glyphs c w (f_style f) ms @ (after_head ^^ w) gs) f))"
proof -
  let ?x = "length pre"
  have "?x < f_cols f" using row(2,4) cw(3) by simp
  then have fx: "f_x f = ?x" "\<not> f_pending f"
    using f(1) by (simp_all add: on_col_def)
  let ?g = "printed c w f"
  have g: "?g = at_col (?x + w) (edit_face (put_glyphs ?x c w (f_style f)) f)"
    using fx by (simp add: printed_def advanced_def at_col_def)
  have put: "put_glyphs ?x c w (f_style f) (pre @ gs)
      = pre @ glyph_new c w (f_style f) # (if w = 2 then [glyph_new 0 0 (f_style f)] else []) @ (after_head ^^ w) gs"
    using put_glyphs_at[OF row(3) cw(3) w row(4)] .
  have "paints cw S [Print c] f ?g"
    by (rule paints_print[OF cw m]) (use fx f(2) row(2,4) in auto)
  moreover have "paints cw S (map Print ms) ?g (edit_face (add_marks ?x ms) ?g)"
  proof (rule paints_marks[OF cw(1)])
    show "mark_col ?g = ?x"
      using f(3) row(1,2,4) put w cw(3) by (auto simp: g at_col_def mark_col_def Let_def nth_append glyph_new_def nth_Cons' )
  qed (use m f(3) row put cw(3) ms in \<open>auto simp: g at_col_def nth_append glyph_new_def\<close>)
  moreover have "edit_face (add_marks ?x ms) ?g
      = at_col (?x + w) (set_row (pre @ head_glyphs c w (f_style f) ms @ (after_head ^^ w) gs) f)"
    using f(3) row(1) put
    by (simp add: g at_col_def edit_face_def set_row_def add_marks_def nth_append list_update_append head_glyphs_def glyph_new_def)
  ultimately show ?thesis by (auto intro: paints_Cons)
qed

fun cell_actions :: "style_table_t \<Rightarrow> row \<Rightarrow> nat \<Rightarrow> nat \<Rightarrow> nat \<Rightarrow> cell list \<Rightarrow> action list" where
  "cell_actions t r lim x sid [] = []"
| "cell_actions t r lim x sid (cl # cs) =
     (if x \<ge> lim then []
      else if cell_width cl = 0 then cell_actions t r lim (Suc x) sid cs
      else (if style_id cl \<noteq> sid then [sgr_act (style_get t (style_id cl))] else [])
        @ (Print (cell_c cl) # map Print (combining_at (as_u16 x) r))
        @ cell_actions t r lim (Suc x) (style_id cl) cs)"

lemma sgr_act_text: "act_bytes (sgr_act sty) = to_sgr_with_reset sty"
proof -
  have p: "join_with CHR '':'' (map (write_u16 \<circ> unat) p) = show_param p" for p :: "8 word list"
    by (induction p rule: show_param.induct) (simp_all add: write_u8_u16)
  have j: "join_with CHR '';'' (q # map show_param ps) = q @ seps ps" for q and ps :: "8 word list list"
    by (induction ps arbitrary: q) simp_all
  have "csi_text (map (map unat) ([0 :: 8 word] # ps)) = ''0'' @ seps ps" for ps
    using j[of "''0''" ps] by (simp add: csi_text_def comp_def p[unfolded comp_def] write_u8_u16[of 0, simplified, symmetric] write_u8_literals)
  then show ?thesis by (simp add: sgr_act_def to_sgr_with_reset_params)
qed

lemma cell_actions_text: "text_of (cell_actions t r lim x sid cs) = fst (draw_cells t r lim x sid cs)"
  by (induction t r lim x sid cs rule: cell_actions.induct)
    (auto simp: case_prod_beta Let_def sgr_act_text cell_text_def comp_def)

text \<open>The column at which the painting of a row ends: \<open>lim\<close>, or behind a wide character there.\<close>

fun end_col :: "nat \<Rightarrow> nat \<Rightarrow> cell list \<Rightarrow> nat" where
  "end_col lim x [] = x"
| "end_col lim x (cl # cs) = (if x \<ge> lim \<and> cell_width cl \<noteq> 0 then x else end_col lim (Suc x) cs)"

lemma end_col_bounds:
  "x \<le> end_col lim x cs \<and> end_col lim x cs \<le> x + length cs \<and> (lim \<le> x + length cs \<longrightarrow> lim \<le> end_col lim x cs)"
proof (induction cs arbitrary: x)
  case (Cons cl cs)
  show ?case using Cons.IH[of "Suc x"] by auto
qed simp

lemma style_get_in: "style_get t i \<in> insert style_default (set (styles t))"
  by (simp add: style_get_def)

lemma style_same: "f_style f = sty \<Longrightarrow> f\<lparr>f_style := sty\<rparr> = f"
  by (cases f) simp

lemma paints_styled_head:
  assumes cw: "width_ok cw" and S: "set (styles t) \<subseteq> S" and h: "head_ok cw r x cl w" "0 < w" "cl = row_cells r ! x" "x + w \<le> row_len r"
    and w: "w \<le> 2"
    and d: "w = 2 \<Longrightarrow> cell_c (row_cells r ! Suc x) = 0 \<and> cell_width (row_cells r ! Suc x) = 0
      \<and> style_id (row_cells r ! Suc x) = style_id cl \<and> combining_at (Suc x) r = []"
    and f: "plain (f_modes f)" "on_col x f" "f_style f = style_get t sid" "f_y f < length (f_rows f)"
      "row_len r = f_cols f" "row_len r \<le> u16_max"
    and row: "f_rows f ! f_y f = take x (picture t r) @ gs" "length gs = row_len r - x" "paired gs"
  shows "paints cw S ((if style_id cl \<noteq> sid then [sgr_act (style_get t (style_id cl))] else [])
      @ (Print (cell_c cl) # map Print (combining_at (as_u16 x) r))) f
    (at_col (x + w) (set_row (take (x + w) (picture t r) @ (after_head ^^ w) gs) (f\<lparr>f_style := style_get t (style_id cl)\<rparr>)))"
proof -
  let ?sty = "style_get t (style_id cl)" and ?pre = "take x (picture t r)"
  let ?f = "f\<lparr>f_style := ?sty\<rparr>"
  have x: "x < row_len r" "length ?pre = x" "as_u16 x = x" using h(2,4) f(6) by auto
  have head: "glyph_of t r x = \<lparr>gl_char = cell_c cl, gl_width = w, gl_style = ?sty, gl_marks = combining_at x r\<rparr>"
    using h(1,3) by (simp add: glyph_of_def Let_def head_ok_def)
  have "take (x + w) (picture t r) = ?pre @ head_glyphs (cell_c cl) w ?sty (combining_at x r)"
  proof (cases "w = 2")
    case True
    then have "glyph_of t r (Suc x) = glyph_new 0 0 ?sty"
      using d by (simp add: glyph_of_def Let_def glyph_new_def)
    then show ?thesis
      using True h(4) x(1) head by (simp add: take_Suc_conv_app_nth head_glyphs_def)
  next
    case False
    then have "w = 1" using w h(2) by simp
    then show ?thesis using h(4) x(1) head by (simp add: take_Suc_conv_app_nth head_glyphs_def)
  qed
  moreover have a: "paints cw S (if style_id cl \<noteq> sid then [sgr_act ?sty] else []) f ?f"
  proof (cases "style_id cl = sid")
    case True
    then have "?f = f" using f(3) by (intro style_same) simp
    then show ?thesis using True by simp
  qed (simp add: paints_sgr[OF cw])
  moreover have b: "paints cw S (Print (cell_c cl) # map Print (combining_at (as_u16 x) r)) ?f
    (at_col (length ?pre + w) (set_row (?pre @ head_glyphs (cell_c cl) w (f_style ?f) (combining_at x r) @ (after_head ^^ w) gs) ?f))"
    unfolding x(3)
  proof (rule paints_head[OF cw])
    show "on_col (length ?pre) ?f" using f(2) x by (simp add: on_col_def)
  qed (use h f(1,3-) row w x style_get_in[of t] S in \<open>auto simp: head_ok_def zero_width_def list_all_iff\<close>)
  ultimately show ?thesis
    using x(2) paints_append[OF a b] by (simp split del: if_split)
qed

abbreviation painted_row :: "style_table_t \<Rightarrow> row \<Rightarrow> nat \<Rightarrow> nat \<Rightarrow> glyph list \<Rightarrow> glyph list" where
  "painted_row t r x e gs \<equiv> take e (picture t r) @ (after_head ^^ (e - x)) gs"

lemma funpow_after_head:
  "length ((after_head ^^ n) gs) = length gs - n" "paired gs \<Longrightarrow> paired ((after_head ^^ n) gs)"
  by (induction n) (auto simp: after_head_paired)

lemma set_row_again: "set_row a (at_col e (set_row b f\<lparr>f_style := sty\<rparr>)) = at_col e (set_row a (f\<lparr>f_style := sty\<rparr>))"
  by (simp add: set_row_def at_col_def)

lemma at_col_again [simp]: "at_col e (at_col d f) = at_col e f"
  by (simp add: at_col_def)

lemma face_row_simps [simp]:
  "f_cols (at_col e f) = f_cols f" "f_rows (at_col e f) = f_rows f" "f_y (at_col e f) = f_y f"
  "f_modes (at_col e f) = f_modes f" "f_style (at_col e f) = f_style f"
  "f_cols (set_row gs f) = f_cols f" "f_y (set_row gs f) = f_y f" "length (f_rows (set_row gs f)) = length (f_rows f)"
  "f_modes (set_row gs f) = f_modes f" "f_style (set_row gs f) = f_style f"
  "f_rows (set_row gs f) = (f_rows f)[f_y f := gs]"
  by (simp_all add: at_col_def set_row_def)

text \<open>What holds of a terminal in the middle of painting row \<open>r\<close>, at column \<open>x\<close>.\<close>

definition painting :: "style_table_t \<Rightarrow> row \<Rightarrow> nat \<Rightarrow> nat \<Rightarrow> glyph list \<Rightarrow> face \<Rightarrow> bool" where
  "painting t r x sid gs f \<longleftrightarrow>
     plain (f_modes f) \<and> on_col x f \<and> f_style f = style_get t sid \<and> f_y f < length (f_rows f)
     \<and> row_len r = f_cols f \<and> row_len r \<le> u16_max \<and> f_rows f ! f_y f = take x (picture t r) @ gs
     \<and> length gs = row_len r - x \<and> paired gs"

definition painted :: "style_table_t \<Rightarrow> row \<Rightarrow> nat \<Rightarrow> nat \<Rightarrow> nat \<Rightarrow> glyph list \<Rightarrow> face \<Rightarrow> face" where
  "painted t r x e sid gs f = at_col e (set_row (painted_row t r x e gs) (f\<lparr>f_style := style_get t sid\<rparr>))"

lemma painting_step:
  assumes "painting t r x sid gs f" "x + w \<le> row_len r"
  shows "painting t r (x + w) sid' ((after_head ^^ w) gs) (painted t r x (x + w) sid' gs f)"
  using assms by (auto simp: painting_def painted_def funpow_after_head)

lemma painted_step:
  assumes "x + w \<le> e"
  shows "painted t r (x + w) e sid ((after_head ^^ w) gs) (painted t r x (x + w) sid' gs f) = painted t r x e sid gs f"
proof -
  have "(after_head ^^ (e - (x + w))) ((after_head ^^ w) gs) = (after_head ^^ (e - x)) gs"
    using assms by (simp add: funpow_add[symmetric, THEN fun_cong, simplified comp_apply])
  then show ?thesis by (simp add: painted_def set_row_def at_col_def)
qed

lemma painted_none: "painting t r x sid gs f \<Longrightarrow> painted t r x x sid gs f = f"
  by (rule face.equality) (auto simp: painting_def painted_def set_row_def at_col_def on_col_def list_update_same_conv split: if_splits)

lemma paints_cell_step:
  assumes cw: "width_ok cw" and S: "set (styles t) \<subseteq> S" and h: "head_ok cw r x cl w" "0 < w" "cl = row_cells r ! x" "x + w \<le> row_len r"
    and w: "w \<le> 2"
    and d: "w = 2 \<Longrightarrow> cell_c (row_cells r ! Suc x) = 0 \<and> cell_width (row_cells r ! Suc x) = 0
      \<and> style_id (row_cells r ! Suc x) = style_id cl \<and> combining_at (Suc x) r = []"
    and p: "painting t r x sid gs f"
  shows "paints cw S ((if style_id cl \<noteq> sid then [sgr_act (style_get t (style_id cl))] else [])
      @ (Print (cell_c cl) # map Print (combining_at (as_u16 x) r))) f (painted t r x (x + w) (style_id cl) gs f)"
  unfolding painted_def diff_add_inverse
  by (rule paints_styled_head[OF cw S h w d]) (use p in \<open>simp_all add: painting_def\<close>)

text \<open>The rest of the row follows a painted head.\<close>

lemma paints_head_and_rest:
  assumes cw: "width_ok cw" and S: "set (styles t) \<subseteq> S" and h: "head_ok cw r x cl w" "0 < w" "cl = row_cells r ! x" "x + w \<le> row_len r"
    and w: "w \<le> 2"
    and d: "w = 2 \<Longrightarrow> cell_c (row_cells r ! Suc x) = 0 \<and> cell_width (row_cells r ! Suc x) = 0
      \<and> style_id (row_cells r ! Suc x) = style_id cl \<and> combining_at (Suc x) r = []"
    and p: "painting t r x sid gs f"
    and rest: "x + w \<le> e" "\<And>gs f. painting t r (x + w) (style_id cl) gs f \<Longrightarrow>
      paints cw S as f (painted t r (x + w) e sid' gs f)"
  shows "paints cw S ((if style_id cl \<noteq> sid then [sgr_act (style_get t (style_id cl))] else [])
      @ (Print (cell_c cl) # map Print (combining_at (as_u16 x) r)) @ as) f (painted t r x e sid' gs f)"
  using paints_append[OF paints_cell_step[OF cw S h w d p] rest(2)[OF painting_step[OF p h(4)]]]
  unfolding painted_step[OF rest(1)] by simp

lemma cells_end: "x \<le> end_col lim x cs"
  using end_col_bounds by blast

lemma paints_cells:
  assumes "width_ok cw" "set (styles t) \<subseteq> S"
  shows "cells_paintable cw r x cs \<Longrightarrow> cs = drop x (row_cells r) \<Longrightarrow> x \<le> row_len r \<Longrightarrow> painting t r x sid gs f \<Longrightarrow>
    paints cw S (cell_actions t r lim x sid cs) f
      (painted t r x (end_col lim x cs) (snd (draw_cells t r lim x sid cs)) gs f)"
  using assms
proof (induction cw r x cs arbitrary: sid gs f rule: cells_paintable.induct)
  case (1 cw r x)
  then show ?case by (simp add: painted_none)
next
  case (2 cw r x cl)
  have len: "row_len r = Suc x" "row_cells r ! x = cl"
    using drop_ConsD[OF 2(2)] by (simp_all add: row_len_def)
  have h: "head_ok cw r x cl 1" "cell_width cl = 1" using 2(1) by (simp_all add: head_ok_def)
  show ?case
  proof (cases "lim \<le> x")
    case True
    then show ?thesis using 2(4) h(2) by (simp add: painted_none)
  next
    case False
    have "paints cw S ((if style_id cl \<noteq> sid then [sgr_act (style_get t (style_id cl))] else [])
      @ (Print (cell_c cl) # map Print (combining_at (as_u16 x) r)) @ []) f (painted t r x (Suc x) (style_id cl) gs f)"
      by (rule paints_head_and_rest[OF 2(5,6) h(1) _ _ _ _ _ 2(4)]) (simp_all add: len painted_none)
    then show ?thesis using False h(2) by (simp add: Let_def split del: if_split)
  qed
next
  case (3 cw r x cl d cs)
  note dr = drop_ConsD[OF 3(4)] and dr2 = drop_ConsD[OF drop_ConsD(3)[OF 3(4), symmetric]]
  have len: "row_cells r ! x = cl" "row_cells r ! Suc x = d" "drop (Suc x) (row_cells r) = d # cs"
    "drop (Suc (Suc x)) (row_cells r) = cs" and x: "Suc (Suc x) \<le> row_len r"
    using dr dr2 by (simp_all add: row_len_def)
  have w: "cell_width cl \<noteq> 0" using 3(3) by (auto simp: head_ok_def split: if_splits)
  show ?case
  proof (cases "lim \<le> x")
    case True
    then show ?thesis using 3(6) w by (simp add: painted_none)
  next
    case False
    show ?thesis
    proof (cases "cell_width cl = 2")
      case True
      have d: "cell_c d = 0" "cell_width d = 0" "style_id d = style_id cl" "combining_at (Suc x) r = []"
        and h: "head_ok cw r x cl 2" and r: "cells_paintable cw r (Suc (Suc x)) cs"
        using 3(3) True by simp_all
      let ?as = "cell_actions t r lim (Suc (Suc x)) (style_id cl) cs"
        and ?id = "snd (draw_cells t r lim (Suc (Suc x)) (style_id cl) cs)"
      have skip: "cell_actions t r lim (Suc x) (style_id cl) (d # cs) = ?as"
        "snd (draw_cells t r lim (Suc x) (style_id cl) (d # cs)) = ?id"
        using d(2) by (cases cs; auto)+
      have "paints cw S ((if style_id cl \<noteq> sid then [sgr_act (style_get t (style_id cl))] else [])
        @ (Print (cell_c cl) # map Print (combining_at (as_u16 x) r)) @ ?as) f
          (painted t r x (end_col lim (Suc (Suc x)) cs) ?id gs f)"
        by (rule paints_head_and_rest[OF 3(7,8) h _ _ _ _ _ 3(6)])
          (use x d len cells_end[of "Suc (Suc x)" lim cs] 3(1)[OF True r _ _ _ 3(7,8)] in simp_all)
      then show ?thesis
        using False w d(2) skip by (simp add: Let_def case_prod_beta split del: if_split)
    next
      case w1: False
      have h: "head_ok cw r x cl 1" and r: "cells_paintable cw r (Suc x) (d # cs)"
        using 3(3) w1 by simp_all
      have "paints cw S ((if style_id cl \<noteq> sid then [sgr_act (style_get t (style_id cl))] else [])
        @ (Print (cell_c cl) # map Print (combining_at (as_u16 x) r)) @ cell_actions t r lim (Suc x) (style_id cl) (d # cs)) f
          (painted t r x (end_col lim (Suc x) (d # cs)) (snd (draw_cells t r lim (Suc x) (style_id cl) (d # cs))) gs f)"
        by (rule paints_head_and_rest[OF 3(7,8) h _ _ _ _ _ 3(6)])
          (use x len cells_end[of "Suc x" lim "d # cs"] 3(2)[OF w1 r _ _ _ 3(7,8)] in \<open>simp_all del: cell_actions.simps end_col.simps draw_cells.simps\<close>)
      then show ?thesis
        using False w by (simp add: Let_def case_prod_beta del: cell_actions.simps(2) end_col.simps(2) draw_cells.simps(2)
            add: cell_actions.simps(2)[of t r lim x] end_col.simps(2)[of lim x] draw_cells.simps(2)[of t r lim x] split del: if_split)
    qed
  qed
qed

subsection \<open>Drawing a row\<close>

definition row_actions :: "style_table_t \<Rightarrow> bool \<Rightarrow> nat \<Rightarrow> row \<Rightarrow> action list" where
  "row_actions t full y r =
     csi [[y + 1], [1]] CHR ''H'' # cell_actions t r (write_len r) 0 0 (row_cells r)
     @ sgr_act style_default # (if full then [] else [csi [] CHR ''K''])"

lemma row_actions_text: "text_of (row_actions t full y r) = row_bytes (paint_row t) full y r"
proof -
  have "write_u16 1 = ''1''" by code_simp
  then show ?thesis
    by (simp add: row_actions_def row_bytes_def paint_row_def cell_actions_text sgr_act_text to_sgr_with_reset_def
        write_sgr_with_reset_to_def style_is_default_def)
qed

text \<open>The column behind the last one painted, and whether the last column of the line is.\<close>

definition row_end :: "row \<Rightarrow> nat" where
  "row_end r = end_col (write_len r) 0 (row_cells r)"

definition line_full :: "row \<Rightarrow> bool" where
  "line_full r \<longleftrightarrow> row_end r = row_len r"

text \<open>
  What a terminal shows of a row: its picture, except that an incremental frame erases to the end of
  the line after painting, and after a full line the cursor is still on the last column.
\<close>

definition row_shown :: "style_table_t \<Rightarrow> bool \<Rightarrow> row \<Rightarrow> glyph list" where
  "row_shown t full r =
     (if \<not> full \<and> line_full r then erase_right (row_len r - 1) (picture t r) else picture t r)"

lemma unpainted_blank:
  assumes t: "wf_style_table t" and cw: "cw 32 = Some 1"
    and tail: "\<And>i. lim \<le> i \<Longrightarrow> i < row_len r \<Longrightarrow> \<not> has_content (row_cells r ! i) \<and> combining_at i r = []"
  shows "cells_paintable cw r x cs \<Longrightarrow> cs = drop x (row_cells r) \<Longrightarrow> end_col lim x cs \<le> i \<Longrightarrow> i < row_len r \<Longrightarrow>
    glyph_of t r i = blank_glyph"
  using cw tail
proof (induction cw r x cs rule: cells_paintable.induct)
  case (1 cw r x)
  then show ?case by (simp add: row_len_def)
next
  case (2 cw r x cl)
  have len: "row_len r = Suc x" "row_cells r ! x = cl"
    using drop_ConsD[OF 2(2)] by (simp_all add: row_len_def)
  have h: "head_ok cw r x cl 1" "cell_width cl = 1" using 2(1) by (simp_all add: head_ok_def)
  have "i = x" "lim \<le> x" using 2(3,4) len h(2) by (auto split: if_splits)
  then show ?case
    using 2(6)[of x] h len t
    by (auto simp: glyph_of_def Let_def blank_glyph_def head_ok_def has_content_def printable_def style_get_zero)
next
  case (3 cw r x cl d cs)
  note dr = drop_ConsD[OF 3(4)] and dr2 = drop_ConsD[OF drop_ConsD(3)[OF 3(4), symmetric]]
  have len: "row_cells r ! x = cl" "drop (Suc x) (row_cells r) = d # cs" "drop (Suc (Suc x)) (row_cells r) = cs"
    and "x < row_len r"
    using dr dr2 by (simp_all add: row_len_def)
  note len = len this
  show ?case
  proof (cases "cell_width cl = 2")
    case True
    have d: "cell_width d = 0" and h: "head_ok cw r x cl 2" and r: "cells_paintable cw r (Suc (Suc x)) cs"
      using 3(3) True by simp_all
    have "has_content cl" using h 3(7) by (auto simp: head_ok_def has_content_def printable_def)
    then have "\<not> lim \<le> x" using 3(8)[of x] len by auto
    then have "end_col lim (Suc (Suc x)) cs \<le> i" using 3(5) d by simp
    then show ?thesis by (rule 3(1)[OF True r len(3)[symmetric] _ 3(6,7,8)])
  next
    case w1: False
    have h: "head_ok cw r x cl 1" and r: "cells_paintable cw r (Suc x) (d # cs)"
      using 3(3) w1 by simp_all
    have d: "cell_width d \<noteq> 0" using r by (cases cs) (auto simp: head_ok_def split: if_splits)
    have e: "end_col lim (Suc x) (d # cs) \<le> i" if "i \<noteq> x"
      using 3(5) that d h by (auto simp: head_ok_def split: if_splits)
    show ?thesis
    proof (cases "i = x")
      case True
      then have "lim \<le> x" using 3(5) cells_end[of "Suc x" lim "d # cs"] by (auto split: if_splits)
      then show ?thesis
        using True 3(8)[of x] h len t
        by (auto simp: glyph_of_def Let_def blank_glyph_def head_ok_def has_content_def printable_def style_get_zero)
    next
      case False
      then show ?thesis by (rule 3(2)[OF w1 r len(2)[symmetric] e 3(6,7,8)])
    qed
  qed
qed

text \<open>What \<open>unicode-width\<close> documents of the blank.\<close>

definition width_std :: "(rchar \<Rightarrow> nat option) \<Rightarrow> bool" where
  "width_std cw \<longleftrightarrow> width_ok cw \<and> cw 32 = Some 1"

lemma row_end_bounds: "write_len r \<le> row_end r" "row_end r \<le> row_len r"
proof -
  have "write_len r \<le> length (row_cells r)"
    by (auto simp: write_len_def last_content_position_def find_Some_iff rev_nth split: option.split)
  then show "write_len r \<le> row_end r" "row_end r \<le> row_len r"
    using end_col_bounds[of 0 "write_len r" "row_cells r"] by (simp_all add: row_end_def row_len_def)
qed

lemma picture_end:
  assumes "wf_style_table t" "cw 32 = Some 1" "paintable cw r"
  shows "picture t r = take (row_end r) (picture t r) @ replicate (row_len r - row_end r) blank_glyph"
proof (rule nth_equalityI)
  fix i assume i: "i < length (picture t r)"
  have "glyph_of t r i = blank_glyph" if "row_end r \<le> i"
  proof (rule unpainted_blank[where cw = cw, OF assms(1,2)])
    show "\<not> has_content (row_cells r ! j) \<and> combining_at j r = []" if "write_len r \<le> j" "j < row_len r" for j
      using beyond_write_len[OF that] that assms(3) by (auto simp: paintable_def list_all_iff)
  qed (use that i assms(3) in \<open>simp_all add: row_end_def paintable_def\<close>)
  then show "picture t r ! i = (take (row_end r) (picture t r) @ replicate (row_len r - row_end r) blank_glyph) ! i"
    using i row_end_bounds(2)[of r] by (auto simp: nth_append)
qed (use row_end_bounds(2)[of r] in simp)

lemma after_head_blank: "(after_head ^^ n) (replicate m blank_glyph) = replicate (m - n) blank_glyph"
proof (induction n)
  case (Suc n)
  have "after_head (replicate k blank_glyph) = replicate (k - 1) blank_glyph" for k
    by (cases k; cases "k - 1") (auto simp: blank_glyph_def)
  then show ?case using Suc by simp
qed simp

lemma paired_blank: "paired (replicate n blank_glyph)"
proof (induction n)
  case (Suc n)
  then show ?case by (cases n) (auto simp: blank_glyph_def)
qed simp

lemma erase_right_at:
  assumes "paired gs" "gs \<noteq> []"
  shows "erase_right (length pre) (pre @ gs) = pre @ replicate (length gs) blank_glyph"
  using assms
  by (cases gs rule: paired.cases) (auto simp: erase_right_def fix_glyphs_def list_update_append nth_append split: if_splits)

definition row_drawn :: "style_table_t \<Rightarrow> bool \<Rightarrow> nat \<Rightarrow> row \<Rightarrow> face \<Rightarrow> face" where
  "row_drawn t full y r f = at_col (row_end r) (f\<lparr>f_rows := (f_rows f)[y := row_shown t full r], f_y := y\<rparr>)"

text \<open>A well-formed table whose styles are all in \<open>S\<close>.\<close>

definition covers :: "style set \<Rightarrow> style_table_t \<Rightarrow> bool" where
  "covers S t \<longleftrightarrow> wf_style_table t \<and> set (styles t) \<subseteq> S"

lemma coversD: "covers S t \<Longrightarrow> wf_style_table t" "covers S t \<Longrightarrow> set (styles t) \<subseteq> S"
  by (simp_all add: covers_def)

text \<open>
  The painting of a line from column 0, followed by a reset of the style and, in an incremental
  frame, the erasure of what is left of the line.
\<close>

lemma paints_line:
  assumes cw: "width_std cw" and t: "covers S t" and r: "paintable cw r" "row_len r = f_cols f" "row_len r \<le> u16_max"
      "0 < row_len r"
    and f: "plain (f_modes f)" "f_style f = style_default" "f_x f = 0" "\<not> f_pending f" "f_y f < length (f_rows f)"
    and row: "paired (f_rows f ! f_y f)" "length (f_rows f ! f_y f) = f_cols f"
      "full \<Longrightarrow> f_rows f ! f_y f = replicate (f_cols f) blank_glyph"
    and reset: "\<And>F. f_style F = style_get t (snd (draw_cells t r (write_len r) 0 0 (row_cells r))) \<Longrightarrow>
      paints cw S reset F (F\<lparr>f_style := style_default\<rparr>)"
  shows "paints cw S (cell_actions t r (write_len r) 0 0 (row_cells r) @ reset
      @ (if full then [] else [csi [] CHR ''K''])) f (row_drawn t full (f_y f) r f)"
proof -
  let ?e = "row_end r" and ?n = "row_len r" and ?gs = "f_rows f ! f_y f"
  have w: "width_ok cw" using cw by (simp add: width_std_def)
  have d: "style_get t 0 = style_default" using coversD(1)[OF t] by (rule style_get_zero)
  have pic: "picture t r = take ?e (picture t r) @ replicate (?n - ?e) blank_glyph"
    using picture_end[OF coversD(1)[OF t] _ r(1)] cw by (simp add: width_std_def)
  have p: "painting t r 0 0 ?gs f"
    using f r row d by (simp add: painting_def on_col_def)
  define sid where "sid = snd (draw_cells t r (write_len r) 0 0 (row_cells r))"
  let ?f2 = "painted t r 0 ?e sid ?gs f"
  have 2: "paints cw S (cell_actions t r (write_len r) 0 0 (row_cells r)) f ?f2"
    using paints_cells[OF w coversD(2)[OF t] _ _ _ p, of "row_cells r" "write_len r"] r(1) by (simp add: row_end_def sid_def paintable_def)
  let ?f3 = "?f2\<lparr>f_style := style_default\<rparr>"
  have 3: "paints cw S reset ?f2 ?f3" by (rule reset) (simp add: painted_def sid_def)
  let ?rest = "(after_head ^^ ?e) ?gs"
  have rest: "paired ?rest" "length ?rest = ?n - ?e" using row r(2) by (simp_all add: funpow_after_head)
  have row3: "f_rows ?f3 ! f_y f = take ?e (picture t r) @ ?rest" "f_y ?f3 = f_y f"
    using f(5) by (simp_all add: painted_def)
  have 4: "paints cw S (if full then [] else [csi [] CHR ''K'']) ?f3 (row_drawn t full (f_y f) r f)"
  proof (cases full)
    case True
    then have "take ?e (picture t r) @ ?rest = picture t r"
      using row(3) r(2) pic by (simp add: after_head_blank)
    then have "?f3 = row_drawn t full (f_y f) r f"
      using True f(2) by (auto simp: row_drawn_def painted_def row_shown_def set_row_def at_col_def intro!: face.equality)
    then show ?thesis using True by simp
  next
    case False
    have bg: "bg (f_style ?f3) = None" by (simp add: style_default_def)
    have len: "length (take ?e (picture t r)) = ?e" using row_end_bounds(2)[of r] by simp
    have "erase_right (f_x ?f3) (take ?e (picture t r) @ ?rest) = row_shown t False r"
    proof (cases "line_full r")
      case True
      then have "?rest = []" "f_x ?f3 = ?n - 1" "take ?e (picture t r) = picture t r"
        using rest(2) r(2) by (simp_all add: line_full_def painted_def at_col_def set_row_def)
      then show ?thesis using True by (simp add: row_shown_def)
    next
      case part: False
      then have "?e < ?n" using row_end_bounds(2)[of r] by (simp add: line_full_def)
      then have "?rest \<noteq> []" "f_x ?f3 = ?e"
        using rest(2) r(2) by (auto simp: painted_def at_col_def set_row_def)
      then show ?thesis
        using part erase_right_at[OF rest(1), of "take ?e (picture t r)"] len rest(2) pic by (simp add: row_shown_def)
    qed
    then have "edit_face (erase_right (f_x ?f3)) ?f3 = row_drawn t False (f_y f) r f"
      using row3 f(2,5) unfolding edit_face_def
      by (auto simp: row_drawn_def painted_def set_row_def at_col_def intro!: face.equality)
    then show ?thesis using paints_erase_right[OF w bg, of S] False by simp
  qed
  show ?thesis using paints_append[OF 2 paints_append[OF 3 4]] by simp
qed

lemma move_simps [simp]:
  "f_cols (move x y f) = f_cols f" "f_rows (move x y f) = f_rows f" "f_modes (move x y f) = f_modes f"
  "f_region (move x y f) = f_region f" "f_hist (move x y f) = f_hist f" "f_limit (move x y f) = f_limit f"
  "f_shown (move x y f) = f_shown f" "f_style (move x y f) = f_style f" "f_x (move x y f) = x" "f_y (move x y f) = y"
  by (simp_all add: move_def)

lemma row_drawn_move: "row_drawn t full y r (move x z f) = row_drawn t full y r f"
  by (simp add: row_drawn_def move_def at_col_def)

lemma paints_to_line:
  assumes "width_ok cw" "plain (f_modes f)" "0 < f_cols f" "y < length (f_rows f)"
  shows "paints cw S [csi [[y + 1], [1]] CHR ''H''] f (move 0 y f)"
  using paints_position[OF assms(1,3,4), of S] assms(2) by (simp add: line_of_def plain_def)

lemma paints_row:
  assumes cw: "width_std cw" and t: "covers S t" and r: "paintable cw r" "row_len r = f_cols f" "row_len r \<le> u16_max"
      "0 < row_len r"
    and f: "plain (f_modes f)" "f_style f = style_default" "y < length (f_rows f)"
    and row: "paired (f_rows f ! y)" "length (f_rows f ! y) = f_cols f" "full \<Longrightarrow> f_rows f ! y = replicate (f_cols f) blank_glyph"
  shows "paints cw S (row_actions t full y r) f (row_drawn t full y r f)"
proof -
  have w: "width_ok cw" using cw by (simp add: width_std_def)
  have "paints cw S (cell_actions t r (write_len r) 0 0 (row_cells r) @ [sgr_act style_default]
      @ (if full then [] else [csi [] CHR ''K''])) (move 0 y f) (row_drawn t full (f_y (move 0 y f)) r (move 0 y f))"
    by (rule paints_line[OF cw t r(1)]) (use r f row paints_sgr[OF w] in \<open>simp_all add: move_def\<close>)
  then have "paints cw S (cell_actions t r (write_len r) 0 0 (row_cells r) @ [sgr_act style_default]
      @ (if full then [] else [csi [] CHR ''K''])) (move 0 y f) (row_drawn t full y r f)"
    by (simp only: row_drawn_move move_simps)
  from paints_Cons[OF paints_to_line[OF w f(1) _ f(3)] this] show ?thesis
    using r(2,4) by (simp add: row_actions_def)
qed

subsection \<open>Drawing rows\<close>

definition rows_drawn :: "style_table_t \<Rightarrow> bool \<Rightarrow> row list \<Rightarrow> nat list \<Rightarrow> face \<Rightarrow> face" where
  "rows_drawn t full rs ys f = fold (\<lambda>y. row_drawn t full y (rs ! y)) ys f"

lemma row_drawn_frame [simp]:
  "f_cols (row_drawn t full y r f) = f_cols f" "f_modes (row_drawn t full y r f) = f_modes f"
  "f_region (row_drawn t full y r f) = f_region f" "f_style (row_drawn t full y r f) = f_style f"
  "f_hist (row_drawn t full y r f) = f_hist f" "f_limit (row_drawn t full y r f) = f_limit f"
  "f_shown (row_drawn t full y r f) = f_shown f" "f_y (row_drawn t full y r f) = y"
  "f_rows (row_drawn t full y r f) = (f_rows f)[y := row_shown t full r]"
  by (simp_all add: row_drawn_def at_col_def)

lemma rows_drawn_frame [simp]:
  "f_cols (rows_drawn t full rs ys f) = f_cols f" "f_modes (rows_drawn t full rs ys f) = f_modes f"
  "f_region (rows_drawn t full rs ys f) = f_region f" "f_style (rows_drawn t full rs ys f) = f_style f"
  "f_hist (rows_drawn t full rs ys f) = f_hist f" "f_limit (rows_drawn t full rs ys f) = f_limit f"
  "f_shown (rows_drawn t full rs ys f) = f_shown f" "length (f_rows (rows_drawn t full rs ys f)) = length (f_rows f)"
  by (induction ys arbitrary: f) (simp_all add: rows_drawn_def)

lemma rows_drawn_y: "f_y (rows_drawn t full rs ys f) = (if ys = [] then f_y f else last ys)"
  by (induction ys arbitrary: f) (simp_all add: rows_drawn_def)

lemma rows_drawn_nth:
  assumes "i < length (f_rows f)"
  shows "f_rows (rows_drawn t full rs ys f) ! i = (if i \<in> set ys then row_shown t full (rs ! i) else f_rows f ! i)"
  using assms by (induction ys arbitrary: f) (auto simp: rows_drawn_def nth_list_update)

text \<open>The rows of a session that a terminal of the same size can show.\<close>

definition rows_paintable :: "(rchar \<Rightarrow> nat option) \<Rightarrow> nat \<Rightarrow> row list \<Rightarrow> bool" where
  "rows_paintable cw n rs \<longleftrightarrow> list_all (\<lambda>r. paintable cw r \<and> row_len r = n) rs"

lemma paints_rows:
  assumes cw: "width_std cw" and t: "covers S t" and r: "rows_paintable cw (f_cols f) rs"
      "0 < f_cols f" "f_cols f \<le> u16_max" "length rs = length (f_rows f)"
    and f: "plain (f_modes f)" "f_style f = style_default" and ys: "distinct ys" "list_all (\<lambda>y. y < length rs) ys"
    and row: "list_all (\<lambda>y. paired (f_rows f ! y) \<and> length (f_rows f ! y) = f_cols f
       \<and> (full \<longrightarrow> f_rows f ! y = replicate (f_cols f) blank_glyph)) ys"
  shows "paints cw S (concat (map (\<lambda>y. row_actions t full y (rs ! y)) ys)) f (rows_drawn t full rs ys f)"
  using r(1,2,3,4) f ys row
proof (induction ys arbitrary: f)
  case Nil
  then show ?case by (simp add: rows_drawn_def)
next
  case (Cons y ys)
  let ?f = "row_drawn t full y (rs ! y) f"
  have y: "paintable cw (rs ! y)" "row_len (rs ! y) = f_cols f" "y < length (f_rows f)"
    using Cons.prems by (auto simp: rows_paintable_def list_all_length)
  have "paints cw S (row_actions t full y (rs ! y)) f ?f"
    by (rule paints_row[OF cw t y(1,2)]) (use Cons.prems y in simp_all)
  moreover have "paints cw S (concat (map (\<lambda>y. row_actions t full y (rs ! y)) ys)) ?f (rows_drawn t full rs ys ?f)"
    by (rule Cons.IH) (use Cons.prems in \<open>auto simp: list_all_iff nth_list_update\<close>)
  ultimately show ?case by (simp add: rows_drawn_def paints_append)
qed

subsection \<open>The actions of a frame\<close>

definition clear_actions :: "action list" where
  "clear_actions = [sgr_act style_default, csi [[2]] CHR ''J'', csi [] CHR ''H'']"

definition end_actions :: "grid_t \<Rightarrow> bytes \<Rightarrow> bool \<Rightarrow> render_cache \<Rightarrow> action list" where
  "end_actions g ttl full c =
     (if full \<or> last_scroll_region c \<noteq> Some (scroll_region g)
      then [csi [[scroll_top g + 1], [scroll_bottom g + 1]] CHR ''r''] else [])
     @ (case last_modes c of
          Some prev \<Rightarrow> if \<not> full then delta_actions if_changed (modes g) prev else delta_actions always (modes g) (modes g)
        | None \<Rightarrow> delta_actions always (modes g) (modes g))
     @ (if full \<or> last_cursor c \<noteq> Some (cursor_pos g) then [csi [[cursor_y g + 1], [cursor_x g + 1]] CHR ''H''] else [])
     @ (if full \<or> ttl \<noteq> last_title c then [title_act ttl] else [])"

definition payload_actions :: "(row \<Rightarrow> 64 word) \<Rightarrow> grid_t \<Rightarrow> bytes \<Rightarrow> bool \<Rightarrow> render_cache \<Rightarrow> action list" where
  "payload_actions H g ttl full c =
     (if full then clear_actions else [])
     @ concat (map (\<lambda>y. row_actions (style_table g) full y (visible_rows g ! y))
         (changed_rows H full (row_hashes (fit_hashes (rows g) c)) (visible_rows g)))
     @ end_actions g ttl full c"

definition frame_actions :: "(row \<Rightarrow> 64 word) \<Rightarrow> grid_t \<Rightarrow> bytes \<Rightarrow> bool \<Rightarrow> render_cache \<Rightarrow> action list" where
  "frame_actions H g ttl full c0 =
     (let c = (if full then invalidate c0 else c0); payload = payload_actions H g ttl full c in
      if payload = [] \<and> last_cursor_visible c = Some (cursor_visible g) then []
      else dec_act 2026 True @ dec_act 25 False @ payload @ (if cursor_visible g then dec_act 25 True else [])
        @ dec_act 2026 False)"

lemma join_split: "join_params (split_on CHR '';'' xs) = xs"
proof (induction xs)
  case (Cons x xs)
  obtain y ys where s: "split_on CHR '';'' xs = y # ys"
    using split_on_hd[of "CHR '';''" xs] by (cases "split_on CHR '';'' xs") auto
  show ?case using Cons s by (cases ys) auto
qed simp

lemma title_act_text: "act_bytes (title_act ttl) = (ESC # '']2;'') @ sanitize_title ttl @ [byte_of 7]"
proof -
  obtain y ys where s: "split_on CHR '';'' (sanitize_title ttl) = y # ys"
    using split_on_hd[of "CHR '';''" "sanitize_title ttl"] by (cases "split_on CHR '';'' (sanitize_title ttl)") auto
  then have "join_params (''2'' # y # ys) = ''2;'' @ sanitize_title ttl"
    using join_split[of "sanitize_title ttl"] by simp
  then show ?thesis by (simp add: title_act_def osc_sequence_def s)
qed

lemma end_actions_text:
  assumes "grid_ok P g"
  shows "\<exists>c'. render_modes_title_cursor g ttl full c = Some (text_of (end_actions g ttl full c), c')"
proof -
  have b: "scroll_top g + 1 \<le> u16_max" "scroll_bottom g + 1 \<le> u16_max" "cursor_x g + 1 \<le> u16_max" "cursor_y g + 1 \<le> u16_max"
    using grid_okD[OF assms] by auto
  have m: "text_of (case last_modes c of
          Some prev \<Rightarrow> if \<not> full then delta_actions if_changed (modes g) prev else delta_actions always (modes g) (modes g)
        | None \<Rightarrow> delta_actions always (modes g) (modes g))
      = (case last_modes c of Some prev \<Rightarrow> if \<not> full then emit_mode_delta (modes g) prev else emit_mode (modes g)
        | None \<Rightarrow> emit_mode (modes g))"
    by (simp add: delta_text full_text split: option.split)
  show ?thesis
    using b unfolding end_actions_def map_append concat_append m
    by (auto simp: render_modes_title_cursor_def scroll_region_def cursor_pos_def Let_def add16_def title_act_text)
qed

abbreviation speaks :: "action list \<Rightarrow> bool" where
  "speaks as \<equiv> list_all (\<lambda>a. act_bytes a \<noteq> []) as"

lemma mode_actions_speak:
  "speaks (dec_act n b)" "speaks (shape_act sh)" "speaks (charset_act slot cs)" "speaks (keypad_act b)" "speaks (active_act a)"
  "speaks (encoding_act e)"
  by (simp_all add: dec_act_def shape_act_def charset_act_def keypad_act_def active_act_def)
    (cases e; simp add: dec_act_def)

lemma delta_speaks: "speaks (delta_actions if_changed m p)" "speaks (delta_actions always m p)"
proof -
  have "speaks (if_changed b as)" if "speaks as" for b as using that by simp
  then show "speaks (delta_actions if_changed m p)" "speaks (delta_actions always m p)"
    unfolding delta_actions_def list_all_append by (intro conjI mode_actions_speak; simp only: mode_actions_speak)+
qed

lemma text_empty: "speaks as \<Longrightarrow> text_of as = [] \<longleftrightarrow> as = []"
  by (cases as) auto

lemma payload_empty: "text_of (payload_actions H g ttl full c) = [] \<longleftrightarrow> payload_actions H g ttl full c = []"
proof -
  have row: "text_of (row_actions t f y r) \<noteq> []" "row_actions t f y r \<noteq> []" for t f y r
    by (simp_all add: row_actions_def)
  have rows: "text_of (concat (map (\<lambda>y. row_actions t f y (rs ! y)) ys)) = [] \<longleftrightarrow> concat (map (\<lambda>y. row_actions t f y (rs ! y)) ys) = []" for t f rs ys
    using row by (cases ys) auto
  have "speaks (end_actions g ttl full c)"
    using delta_speaks by (auto simp: end_actions_def title_act_text split: option.split)
  from text_empty[OF this] have e: "text_of (end_actions g ttl full c) = [] \<longleftrightarrow> end_actions g ttl full c = []" .
  have "text_of (if full then clear_actions else []) = [] \<longleftrightarrow> (if full then clear_actions else []) = []"
    by (auto simp: clear_actions_def)
  then show ?thesis
    unfolding payload_actions_def map_append concat_append append_is_Nil_conv rows e by blast
qed

lemma clear_actions_text: "text_of clear_actions = clear_screen"
proof -
  have "write_u16 2 = ''2''" by code_simp
  then show ?thesis
    by (simp add: clear_actions_def clear_screen_def sgr_act_text to_sgr_with_reset_def write_sgr_with_reset_to_def style_is_default_def)
qed

lemma text_of_rows: "text_of (concat (map h ys)) = concat (map (\<lambda>y. text_of (h y)) ys)"
  by (induction ys) simp_all

lemma write_u16_sync: "write_u16 2026 = ''2026''" "write_u16 25 = ''25''"
  by code_simp+

lemma frame_actions_text:
  assumes g: "grid_ok P g"
  shows "\<exists>c'. render_screen H g ttl full c0 = Some (text_of (frame_actions H g ttl full c0), c')"
proof -
  have len: "length (visible_rows g) = rows g" "rows g \<le> u16_max" "visible_row_count g = rows g"
    using g by (simp_all add: visible_rows_length grid_okD visible_row_count_ok)
  define c where "c = (if full then invalidate c0 else c0)"
  define hs where "hs = row_hashes (fit_hashes (rows g) c)"
  let ?ys = "changed_rows H full hs (visible_rows g)" and ?c4 = "(fit_hashes (rows g) c)\<lparr>row_hashes := map H (visible_rows g)\<rparr>"
  obtain c5 where e: "render_modes_title_cursor g ttl full ?c4 = Some (text_of (end_actions g ttl full ?c4), c5)"
    using end_actions_text[OF g] by blast
  have same: "end_actions g ttl full ?c4 = end_actions g ttl full c"
    by (simp add: end_actions_def fit_hashes_def)
  have vis: "last_cursor_visible c5 = last_cursor_visible c"
    using render_modes_title_cursor_synced[OF g, of ttl full ?c4] e by (simp add: fit_hashes_def)
  have r: "render_rows H (paint_row (style_table g)) full 0 (visible_rows g) hs
      = Some (concat (map (\<lambda>y. row_bytes (paint_row (style_table g)) full y (visible_rows g ! y)) ?ys), map H (visible_rows g))"
    using render_rows_changed[of hs "visible_rows g"] len by (simp add: hs_def)
  have t: "concat (map (\<lambda>y. row_bytes (paint_row (style_table g)) full y (visible_rows g ! y)) ?ys)
      = text_of (concat (map (\<lambda>y. row_actions (style_table g) full y (visible_rows g ! y)) ?ys))"
    by (simp add: text_of_rows row_actions_text)
  have payload: "text_of (payload_actions H g ttl full c) = (if full then clear_screen else [])
      @ concat (map (\<lambda>y. row_bytes (paint_row (style_table g)) full y (visible_rows g ! y)) ?ys)
      @ text_of (end_actions g ttl full c)"
    unfolding payload_actions_def map_append concat_append t by (simp add: clear_actions_text hs_def)
  have frame: "render_screen H g ttl full c0 = Some (finish_frame [] (text_of (payload_actions H g ttl full c)) (cursor_visible g) c5)"
    unfolding render_screen_def render_screen_impl_def payload
    using e r same len by (cases full) (simp_all add: Let_def c_def hs_def)
  have "fst (finish_frame [] (text_of (payload_actions H g ttl full c)) (cursor_visible g) c5) = text_of (frame_actions H g ttl full c0)"
    unfolding finish_frame_def frame_actions_def Let_def c_def[symmetric] payload_empty vis
    by (simp add: sync_begin_def act_text emit_dec_mode_def write_u16_sync)
  then show ?thesis unfolding frame by (metis prod.collapse)
qed

subsection \<open>What a frame shows\<close>

text \<open>The end of a frame, from a terminal in plain modes that agrees with the cache.\<close>

definition agrees :: "bool \<Rightarrow> render_cache \<Rightarrow> face \<Rightarrow> bool" where
  "agrees full c f \<longleftrightarrow> full \<or> last_modes c = Some (f_modes f) \<and> last_scroll_region c = Some (f_region f)"

definition end_face :: "grid_t \<Rightarrow> bool \<Rightarrow> render_cache \<Rightarrow> face \<Rightarrow> face" where
  "end_face g full c f =
     (let f1 = (if full \<or> f_region f \<noteq> scroll_region g then move 0 0 (f\<lparr>f_region := scroll_region g\<rparr>) else f);
          f2 = with_modes (modes g) (origin_mode (modes g)) f1
      in if full \<or> last_cursor c \<noteq> Some (cursor_pos g) then move (cursor_x g) (line_of f2 (cursor_y g)) f2 else f2)"

lemma with_modes_simps [simp]:
  "f_cols (with_modes m b f) = f_cols f" "f_rows (with_modes m b f) = f_rows f" "f_modes (with_modes m b f) = m"
  "f_region (with_modes m b f) = f_region f" "f_hist (with_modes m b f) = f_hist f" "f_limit (with_modes m b f) = f_limit f"
  "f_shown (with_modes m b f) = f_shown f" "f_style (with_modes m b f) = f_style f"
  by (simp_all add: with_modes_def move_def)

lemma paints_end:
  assumes cw: "width_ok cw" and g: "grid_ok P g" and ttl: "length ttl \<le> 4096"
    and f: "plain (f_modes f)" "agrees full c f" "f_cols f = cols g" "length (f_rows f) = rows g"
  shows "paints cw S (end_actions g ttl full c) f (end_face g full c f)"
proof -
  let ?f1 = "if full \<or> f_region f \<noteq> scroll_region g then move 0 0 (f\<lparr>f_region := scroll_region g\<rparr>) else f"
  let ?f2 = "with_modes (modes g) (origin_mode (modes g)) ?f1"
  have 1: "paints cw S (if full \<or> last_scroll_region c \<noteq> Some (scroll_region g)
      then [csi [[scroll_top g + 1], [scroll_bottom g + 1]] CHR ''r''] else []) f ?f1"
    using paints_margins[OF cw, of "scroll_top g" "scroll_bottom g" f S] grid_okD(9,10)[OF g] f
    by (auto simp: scroll_region_def plain_def agrees_def)
  have 2: "paints cw S (case last_modes c of
          Some prev \<Rightarrow> if \<not> full then delta_actions if_changed (modes g) prev else delta_actions always (modes g) (modes g)
        | None \<Rightarrow> delta_actions always (modes g) (modes g)) ?f1 ?f2"
  proof (cases full)
    case True
    then show ?thesis
      using paints_all_modes[OF cw, of S "modes g" "modes g" ?f1] by (simp split: option.split)
  next
    case False
    then have "paints cw S (delta_actions if_changed (modes g) (f_modes f)) ?f1 ?f2"
      using paints_changed_modes[OF cw, of ?f1 "f_modes f" S "modes g"] f(1) by (simp add: plain_def)
    then show ?thesis using False f(2) by (simp add: agrees_def)
  qed
  have "f_cols ?f2 = cols g" "length (f_rows ?f2) = rows g" using f(3,4) by simp_all
  then have 3: "paints cw S (if full \<or> last_cursor c \<noteq> Some (cursor_pos g) then [csi [[cursor_y g + 1], [cursor_x g + 1]] CHR ''H''] else [])
      ?f2 (end_face g full c f)"
    using paints_position[OF cw, of "cursor_x g" ?f2 "cursor_y g" S] grid_okD(7,8)[OF g]
    by (simp add: end_face_def Let_def)
  have 4: "paints cw S (if full \<or> ttl \<noteq> last_title c then [title_act ttl] else []) (end_face g full c f) (end_face g full c f)"
    using paints_title[OF cw ttl] by simp
  show ?thesis
    unfolding end_actions_def by (rule paints_append[OF 1 paints_append[OF 2 paints_append[OF 3 4]]])
qed

definition payload_face :: "(row \<Rightarrow> 64 word) \<Rightarrow> grid_t \<Rightarrow> bool \<Rightarrow> render_cache \<Rightarrow> face \<Rightarrow> face" where
  "payload_face H g full c f =
     end_face g full c (rows_drawn (style_table g) full (visible_rows g)
       (changed_rows H full (row_hashes (fit_hashes (rows g) c)) (visible_rows g))
       (if full then move 0 0 (cleared (f\<lparr>f_style := style_default\<rparr>)) else f))"

lemma picture_paired:
  "cells_paintable cw r x cs \<Longrightarrow> cs = drop x (row_cells r) \<Longrightarrow> paired (drop x (picture t r))"
proof (induction cw r x cs rule: cells_paintable.induct)
  case (1 cw r x)
  then show ?case by (simp add: row_len_def)
next
  case (2 cw r x cl)
  note dr = drop_ConsD[OF 2(2)]
  have "drop x (picture t r) = [glyph_of t r x]"
    using dr by (simp add: Cons_nth_drop_Suc[symmetric] row_len_def)
  then show ?case using 2(1) dr by (simp add: glyph_of_def Let_def head_ok_def)
next
  case (3 cw r x cl d cs)
  note dr = drop_ConsD[OF 3(4)] and dr2 = drop_ConsD[OF drop_ConsD(3)[OF 3(4), symmetric]]
  have pic: "drop x (picture t r) = glyph_of t r x # glyph_of t r (Suc x) # drop (Suc (Suc x)) (picture t r)"
    "drop (Suc x) (picture t r) = glyph_of t r (Suc x) # drop (Suc (Suc x)) (picture t r)"
    using dr(1) dr2(1) by (simp_all add: Cons_nth_drop_Suc[symmetric] row_len_def)
  have w: "gl_width (glyph_of t r x) = cell_width cl" "gl_width (glyph_of t r (Suc x)) = cell_width d"
    using dr(2) dr2(2) by (simp_all add: glyph_of_def Let_def)
  show ?case
  proof (cases "cell_width cl = 2")
    case True
    then show ?thesis using 3(1)[OF True _ dr2(3)[symmetric]] 3(3) w by (simp add: pic)
  next
    case False
    then show ?thesis using 3(2)[OF False _ dr(3)[symmetric]] 3(3) w by (simp add: pic head_ok_def)
  qed
qed

definition row_ready :: "nat \<Rightarrow> glyph list \<Rightarrow> bool" where
  "row_ready n gs \<longleftrightarrow> paired gs \<and> length gs = n"

lemma changed_rows_simps:
  "distinct (changed_rows H full hs rs)" "list_all (\<lambda>y. y < length rs) (changed_rows H full hs rs)"
  "y \<in> set (changed_rows H full hs rs) \<longleftrightarrow> y < length rs \<and> (full \<or> hs ! y \<noteq> H (rs ! y))"
  by (auto simp: changed_rows_def list_all_iff)

lemma paints_payload:
  assumes cw: "width_std cw" and g: "grid_ok P g" "covers S (style_table g)" "length ttl \<le> 4096"
      "rows_paintable cw (cols g) (visible_rows g)"
    and f: "plain (f_modes f)" "agrees full c f" "f_cols f = cols g" "length (f_rows f) = rows g"
      "\<not> full \<Longrightarrow> f_style f = style_default \<and> list_all (row_ready (cols g)) (f_rows f)"
  shows "paints cw S (payload_actions H g ttl full c) f (payload_face H g full c f)"
proof -
  let ?rs = "visible_rows g"
  let ?ys = "changed_rows H full (row_hashes (fit_hashes (rows g) c)) ?rs"
  have w: "width_ok cw" using cw by (simp add: width_std_def)
  have n: "0 < cols g" "cols g \<le> u16_max" "length ?rs = rows g" using grid_okD(1,2)[OF g(1)] visible_rows_length[OF g(1)] by simp_all
  define f0 where "f0 = (if full then move 0 0 (cleared (f\<lparr>f_style := style_default\<rparr>)) else f)"
  have 1: "paints cw S (if full then clear_actions else []) f f0"
  proof (cases full)
    case True
    let ?f1 = "f\<lparr>f_style := style_default\<rparr>"
    have "bg (f_style ?f1) = None" by (simp add: style_default_def)
    note c = paints_clear[OF w this, of S]
    have "line_of (cleared ?f1) 0 = 0" using f(1) by (simp add: line_of_def plain_def cleared_def)
    then show ?thesis
      using paints_Cons[OF paints_sgr[OF w] paints_Cons[OF c paints_home[OF w]]] True
      by (simp add: clear_actions_def f0_def)
  qed (simp add: f0_def)
  have f0: "plain (f_modes f0)" "f_style f0 = style_default" "f_cols f0 = cols g" "length (f_rows f0) = rows g"
    "agrees full c f0"
    using f by (auto simp: f0_def cleared_def agrees_def)
  have rdy: "paired (f_rows f0 ! y) \<and> length (f_rows f0 ! y) = cols g
      \<and> (full \<longrightarrow> f_rows f0 ! y = replicate (cols g) blank_glyph)" if "y < rows g" for y
    using that f(3,4,5) by (auto simp: f0_def cleared_def paired_blank row_ready_def list_all_length)
  have 2: "paints cw S (concat (map (\<lambda>y. row_actions (style_table g) full y (?rs ! y)) ?ys)) f0
      (rows_drawn (style_table g) full ?rs ?ys f0)"
    by (rule paints_rows[OF cw g(2)])
      (use f0 g(4) n rdy changed_rows_simps[where H = H and full = full and hs = "row_hashes (fit_hashes (rows g) c)" and rs = ?rs] in \<open>simp_all add: list_all_iff\<close>)
  have 3: "paints cw S (end_actions g ttl full c) (rows_drawn (style_table g) full ?rs ?ys f0)
      (payload_face H g full c f)"
    unfolding payload_face_def f0_def[symmetric]
    by (rule paints_end[OF w g(1,3)]) (use f0 in \<open>simp_all add: agrees_def\<close>)
  show ?thesis
    unfolding payload_actions_def by (rule paints_append[OF 1 paints_append[OF 2 3]])
qed

definition frame_face :: "(row \<Rightarrow> 64 word) \<Rightarrow> grid_t \<Rightarrow> bytes \<Rightarrow> bool \<Rightarrow> render_cache \<Rightarrow> face \<Rightarrow> face" where
  "frame_face H g ttl full c0 f =
     (if frame_actions H g ttl full c0 = [] then f
      else (payload_face H g full (if full then invalidate c0 else c0) (f\<lparr>f_shown := False\<rparr>))\<lparr>f_shown := cursor_visible g\<rparr>)"

lemma end_face_shown: "f_shown (end_face g full c f) = f_shown f"
  by (simp add: end_face_def Let_def)

lemma payload_face_shown: "f_shown (payload_face H g full c f) = f_shown f"
  by (simp add: payload_face_def end_face_shown cleared_def)

lemma shown_same: "f_shown f = b \<Longrightarrow> f\<lparr>f_shown := b\<rparr> = f"
  by (cases f) simp

lemma paints_frame:
  assumes cw: "width_std cw" and g: "grid_ok P g" "covers S (style_table g)" "length ttl \<le> 4096"
      "rows_paintable cw (cols g) (visible_rows g)"
    and f: "plain (f_modes f)" "agrees full c0 f" "f_cols f = cols g" "length (f_rows f) = rows g"
      "\<not> full \<Longrightarrow> f_style f = style_default \<and> list_all (row_ready (cols g)) (f_rows f)"
  shows "paints cw S (frame_actions H g ttl full c0) f (frame_face H g ttl full c0 f)"
proof (cases "frame_actions H g ttl full c0 = []")
  case True
  then show ?thesis by (simp add: frame_face_def)
next
  case False
  let ?c = "if full then invalidate c0 else c0"
  let ?f = "f\<lparr>f_shown := False\<rparr>"
  let ?p = "payload_face H g full ?c ?f"
  have w: "width_ok cw" using cw by (simp add: width_std_def)
  have p: "paints cw S (payload_actions H g ttl full ?c) ?f ?p"
    by (rule paints_payload[OF cw g]) (use f in \<open>auto simp: agrees_def\<close>)
  have v: "paints cw S (if cursor_visible g then dec_act 25 True else []) ?p (?p\<lparr>f_shown := cursor_visible g\<rparr>)"
  proof (cases "cursor_visible g")
    case False
    have "?p\<lparr>f_shown := False\<rparr> = ?p" by (rule shown_same) (simp add: payload_face_shown)
    then show ?thesis using False by (simp only: if_False paints_Nil)
  qed (simp add: paints_dec[OF w])
  have "frame_actions H g ttl full c0 = dec_act 2026 True @ dec_act 25 False @ payload_actions H g ttl full ?c
      @ (if cursor_visible g then dec_act 25 True else []) @ dec_act 2026 False"
    using False by (auto simp: frame_actions_def Let_def split: if_splits)
  then show ?thesis
    using paints_append[OF paints_dec(12)[OF w] paints_append[OF paints_dec(4)[OF w] paints_append[OF p paints_append[OF v paints_dec(12)[OF w]]]]] False
    by (simp add: frame_face_def)
qed

lemma screen_picture_length [simp]: "length (screen_picture g) = length (visible_rows g)"
  by (simp add: screen_picture_def)

lemma payload_face_state:
  "f_cols (payload_face H g full c f) = f_cols f" "f_modes (payload_face H g full c f) = modes g"
  "f_region (payload_face H g full c f) = scroll_region g" "f_hist (payload_face H g full c f) = f_hist f"
  "f_limit (payload_face H g full c f) = f_limit f"
  "f_style (payload_face H g full c f) = (if full then style_default else f_style f)"
  "length (f_rows (payload_face H g full c f)) = length (f_rows f)"
  by (auto simp: payload_face_def end_face_def Let_def cleared_def)

lemma payload_face_rows:
  assumes "i < length (f_rows f)" "length (visible_rows g) = length (f_rows f)"
  shows "f_rows (payload_face H g full c f) ! i =
    (if full \<or> row_hashes (fit_hashes (rows g) c) ! i \<noteq> H (visible_rows g ! i)
     then row_shown (style_table g) full (visible_rows g ! i) else f_rows f ! i)"
proof -
  have e: "f_rows (end_face g full c F) = f_rows F" for F by (simp add: end_face_def Let_def)
  show ?thesis
    unfolding payload_face_def e using assms
    by (subst rows_drawn_nth) (auto simp: cleared_def changed_rows_simps(3))
qed

text \<open>Line numbers of the session's cursor mean the same in origin mode when there are no margins.\<close>

definition cursor_addressable :: "grid_t \<Rightarrow> bool" where
  "cursor_addressable g \<longleftrightarrow> \<not> origin_mode (modes g) \<or> scroll_region g = (0, rows g - 1)"

lemma payload_face_cursor:
  assumes "grid_ok P g" "cursor_addressable g" "full \<or> last_cursor c \<noteq> Some (cursor_pos g)"
  shows "f_x (payload_face H g full c f) = cursor_x g \<and> f_y (payload_face H g full c f) = cursor_y g"
proof -
  have "cursor_y g \<le> rows g - 1" using grid_okD(8)[OF assms(1)] by simp
  then show ?thesis
    using assms(2,3) by (auto simp: payload_face_def end_face_def Let_def line_of_def cursor_addressable_def)
qed

text \<open>When the cursor of the session has not moved, the frame leaves the terminal's where the drawing ended.\<close>

lemma payload_face_no_cursor:
  assumes "last_cursor c = Some (cursor_pos g)" "f_region f = scroll_region g" "\<not> origin_mode (modes g)"
  shows "f_y (payload_face H g False c f) =
      (let ys = changed_rows H False (row_hashes (fit_hashes (rows g) c)) (visible_rows g) in if ys = [] then f_y f else last ys)"
    "changed_rows H False (row_hashes (fit_hashes (rows g) c)) (visible_rows g) = [] \<Longrightarrow>
      f_x (payload_face H g False c f) = f_x f \<and> f_y (payload_face H g False c f) = f_y f"
  using assms by (auto simp: payload_face_def end_face_def Let_def with_modes_def rows_drawn_y) (simp add: rows_drawn_def)

text \<open>\<open>tm\<close> shows \<open>g\<close>: the same picture, cursor, margins and modes, ready for the next frame.\<close>

definition displays :: "screen_t \<Rightarrow> grid_t \<Rightarrow> bool" where
  "displays tm g \<longleftrightarrow>
     cols (grid tm) = cols g \<and> rows (grid tm) = rows g \<and> screen_picture (grid tm) = screen_picture g
     \<and> cursor_pos (grid tm) = cursor_pos g \<and> cursor_visible (grid tm) = cursor_visible g
     \<and> scroll_region (grid tm) = scroll_region g \<and> modes (grid tm) = modes g
     \<and> current_style (state tm) = style_default"

lemma displays_face:
  assumes "wf_screen tm"
  shows "displays tm g \<longleftrightarrow> (let f = face_of tm in f_cols f = cols g \<and> length (f_rows f) = rows g \<and> f_rows f = screen_picture g
     \<and> f_x f = cursor_x g \<and> f_y f = cursor_y g \<and> f_shown f = cursor_visible g \<and> f_region f = scroll_region g
     \<and> f_modes f = modes g \<and> f_style f = style_default)"
  using face_of_ok(2)[OF assms] by (auto simp: displays_def Let_def cursor_pos_def)

text \<open>Empty frames.\<close>

lemma delta_empty: "delta_actions if_changed m p = [] \<Longrightarrow> m = p"
proof -
  assume d: "delta_actions if_changed m p = []"
  have "encoding_act e \<noteq> []" for e by (cases e) (simp_all add: dec_act_def)
  then show "m = p"
    using d by (auto simp: delta_actions_def dec_act_def shape_act_def charset_act_def keypad_act_def active_act_def
        intro!: terminal_modes.equality mouse_modes_t.equality split: if_splits)
qed

lemma delta_always: "delta_actions always m p \<noteq> []"
  by (simp add: delta_actions_def shape_act_def)

lemma frame_face_empty:
  assumes e: "frame_actions H g ttl full c0 = []" and a: "agrees full c0 f" and o: "plain (f_modes f)"
    and v: "last_cursor_visible c0 = Some (f_shown f)"
  shows "payload_face H g full (if full then invalidate c0 else c0) (f\<lparr>f_shown := False\<rparr>)\<lparr>f_shown := cursor_visible g\<rparr> = f"
proof -
  have p: "payload_actions H g ttl full (if full then invalidate c0 else c0) = []"
    and s: "last_cursor_visible (if full then invalidate c0 else c0) = Some (cursor_visible g)"
    using e by (auto simp: frame_actions_def Let_def dec_act_def split: if_splits)
  have nf: "\<not> full" using p by (auto simp: payload_actions_def clear_actions_def)
  have ys: "changed_rows H False (row_hashes (fit_hashes (rows g) c0)) (visible_rows g) = []"
    using p nf by (auto simp: payload_actions_def row_actions_def)
  have m: "delta_actions if_changed (modes g) (f_modes f) = []" "last_cursor c0 = Some (cursor_pos g)"
    "last_scroll_region c0 = Some (scroll_region g)"
    using p nf a by (auto simp: payload_actions_def end_actions_def agrees_def split: if_splits)
  then have "f_modes f = modes g" "f_region f = scroll_region g"
    using delta_empty[OF m(1)] a nf by (auto simp: agrees_def)
  then show ?thesis
    using nf ys m(2) o s v by (auto simp: plain_def payload_face_def rows_drawn_def end_face_def Let_def with_modes_def intro!: face.equality)
qed

lemma covers_screen: "wf_screen s \<Longrightarrow> set (styles (style_table (grid s))) \<subseteq> S \<Longrightarrow> covers S (style_table (grid s))"
  by (simp add: covers_def wf_screenD)

theorem full_frame_displayed:
  assumes cw: "width_std cw" and s: "wf_screen s" "rows_paintable cw (cols (grid s)) (visible_rows (grid s))"
      "cursor_addressable (grid s)"
    and S: "set (styles (style_table (grid s))) \<subseteq> S" and tm: "ready S tm" "plain (modes (grid tm))"
      "cols (grid tm) = cols (grid s)" "rows (grid tm) = rows (grid s)"
  shows "returns (foldm (perform cw) (frame_actions H (grid s) (title (state s)) True c) tm)
    (\<lambda>tm'. ready S tm' \<and> displays tm' (grid s) \<and> history_picture (grid tm') = history_picture (grid tm)
       \<and> scrollback_limit (grid tm') = scrollback_limit (grid tm))"
proof -
  let ?g = "grid s" and ?f = "face_of tm"
  note g = wf_screenD(2)[OF s(1)]
  let ?F = "payload_face H ?g True (invalidate c) (?f\<lparr>f_shown := False\<rparr>)\<lparr>f_shown := cursor_visible ?g\<rparr>"
  have len: "length (visible_rows ?g) = rows ?g" "length (screen_picture (grid tm)) = rows ?g" "length (screen_picture ?g) = rows ?g"
    using visible_rows_length[OF g] face_of_ok(2)[OF readyD(1)[OF tm(1)]] tm(4) by (simp_all add: screen_picture_def)
  have "frame_actions H ?g (title (state s)) True c \<noteq> []" for ttl
    by (simp add: frame_actions_def Let_def payload_actions_def clear_actions_def dec_act_def)
  then have F: "frame_face H ?g (title (state s)) True c ?f = ?F" by (simp add: frame_face_def)
  have rows: "f_rows ?F = screen_picture ?g"
    using len by (intro nth_equalityI) (simp_all add: payload_face_state payload_face_rows screen_picture_def row_shown_def)
  have "paints cw S (frame_actions H ?g (title (state s)) True c) ?f ?F"
    unfolding F[symmetric]
    by (rule paints_frame[OF cw g covers_screen[OF s(1) S] _ s(2)])
      (use tm len wf_screenD(4)[OF s(1)] in \<open>simp_all add: queues_ok_def agrees_def\<close>)
  then have "returns (foldm (perform cw) (frame_actions H ?g (title (state s)) True c) tm)
      (\<lambda>tm'. ready S tm' \<and> face_of tm' = ?F)"
    using tm(1) by (simp add: paints_def)
  then show ?thesis
  proof (rule returns_mono)
    fix tm' assume t: "ready S tm' \<and> face_of tm' = ?F"
    have "displays tm' ?g"
      unfolding displays_face[OF readyD(1)[OF conjunct1[OF t]]] Let_def conjunct2[OF t]
      using rows payload_face_cursor[OF g s(3)] len tm(3) by (simp add: payload_face_state)
    moreover have "history_picture (grid tm') = history_picture (grid tm) \<and> scrollback_limit (grid tm') = scrollback_limit (grid tm)"
      using arg_cong[OF conjunct2[OF t], of f_hist] arg_cong[OF conjunct2[OF t], of f_limit] by (simp add: payload_face_state)
    ultimately show "ready S tm' \<and> displays tm' ?g \<and> history_picture (grid tm') = history_picture (grid tm)
       \<and> scrollback_limit (grid tm') = scrollback_limit (grid tm)"
      using t by simp
  qed
qed

text \<open>
  An incremental frame on a terminal that shows \<open>g0\<close>, with the cache of the frame that showed it:
  every row whose hash changed becomes what \<open>row_shown\<close> says, every other row stays, and modes,
  margins and visibility of the cursor follow the session.
\<close>

lemma incremental_frame_face:
  assumes cw: "width_std cw" and s: "wf_screen s" "rows_paintable cw (cols (grid s)) (visible_rows (grid s))"
    and g0: "rows_paintable cw (cols g0) (visible_rows g0)" "plain (modes g0)" "cache_synced H g0 ttl c"
      "cols g0 = cols (grid s)" "rows g0 = rows (grid s)" "length (visible_rows g0) = rows g0"
    and S: "set (styles (style_table (grid s))) \<subseteq> S" and tm: "ready S tm" "displays tm g0"
  shows "returns (foldm (perform cw) (frame_actions H (grid s) (title (state s)) False c) tm)
    (\<lambda>tm'. ready S tm'
       \<and> face_of tm' = payload_face H (grid s) False c ((face_of tm)\<lparr>f_shown := False\<rparr>)\<lparr>f_shown := cursor_visible (grid s)\<rparr>)"
proof -
  let ?g = "grid s" and ?f = "face_of tm"
  note g = wf_screenD(2)[OF s(1)]
  have f: "f_modes ?f = modes g0" "f_region ?f = scroll_region g0" "f_cols ?f = cols ?g" "length (f_rows ?f) = rows ?g"
    "f_style ?f = style_default" "f_rows ?f = screen_picture g0" "f_shown ?f = cursor_visible g0"
    using tm(2)[unfolded displays_face[OF readyD(1)[OF tm(1)]] Let_def] g0(4-6) by simp_all
  have ready_rows: "list_all (row_ready (cols ?g)) (screen_picture g0)"
  proof -
    have "row_ready (cols ?g) (picture (style_table g0) r)" if "r \<in> set (visible_rows g0)" for r
      using that g0(1,4) picture_paired[of cw r 0 "row_cells r" "style_table g0"]
      by (auto simp: rows_paintable_def list_all_iff row_ready_def paintable_def)
    then show ?thesis by (simp add: screen_picture_def list_all_iff)
  qed
  have a: "agrees False c ?f" using g0(3) f(1,2) by (simp add: agrees_def cache_synced_def)
  have "paints cw S (frame_actions H ?g (title (state s)) False c) ?f (frame_face H ?g (title (state s)) False c ?f)"
    by (rule paints_frame[OF cw g covers_screen[OF s(1) S] _ s(2)])
      (use f a g0(2,5,6) ready_rows wf_screenD(4)[OF s(1)] in \<open>simp_all add: queues_ok_def\<close>)
  moreover have "frame_face H ?g (title (state s)) False c ?f
      = payload_face H ?g False c (?f\<lparr>f_shown := False\<rparr>)\<lparr>f_shown := cursor_visible ?g\<rparr>"
    using frame_face_empty[of H ?g "title (state s)" False c ?f] a g0(2,3) f
    by (auto simp: frame_face_def cache_synced_def)
  ultimately show ?thesis using tm(1) by (simp add: paints_def)
qed

lemma cache_hashes: "cache_synced H g0 ttl c \<Longrightarrow> length (visible_rows g0) = n \<Longrightarrow> row_hashes (fit_hashes n c) = map H (visible_rows g0)"
  by (simp add: cache_synced_def fit_hashes_def)

theorem incremental_frame_displayed:
  assumes cw: "width_std cw" and s: "wf_screen s" "rows_paintable cw (cols (grid s)) (visible_rows (grid s))"
      "cursor_addressable (grid s)"
    and g0: "rows_paintable cw (cols g0) (visible_rows g0)" "plain (modes g0)" "cache_synced H g0 ttl c"
      "cols g0 = cols (grid s)" "rows g0 = rows (grid s)" "length (visible_rows g0) = rows g0"
    and S: "set (styles (style_table (grid s))) \<subseteq> S" and tm: "ready S tm" "displays tm g0"
    and same: "\<And>y. y < rows g0 \<Longrightarrow> H (visible_rows g0 ! y) = H (visible_rows (grid s) ! y) \<Longrightarrow>
       picture (style_table g0) (visible_rows g0 ! y) = picture (style_table (grid s)) (visible_rows (grid s) ! y)"
    and part: "\<And>y. y < rows g0 \<Longrightarrow> H (visible_rows g0 ! y) \<noteq> H (visible_rows (grid s) ! y) \<Longrightarrow> \<not> line_full (visible_rows (grid s) ! y)"
    and moved: "cursor_pos (grid s) \<noteq> cursor_pos g0"
  shows "returns (foldm (perform cw) (frame_actions H (grid s) (title (state s)) False c) tm)
    (\<lambda>tm'. ready S tm' \<and> displays tm' (grid s) \<and> history_picture (grid tm') = history_picture (grid tm)
       \<and> scrollback_limit (grid tm') = scrollback_limit (grid tm))"
proof -
  let ?g = "grid s" and ?f = "face_of tm"
  let ?F = "payload_face H ?g False c (?f\<lparr>f_shown := False\<rparr>)\<lparr>f_shown := cursor_visible ?g\<rparr>"
  note g = wf_screenD(2)[OF s(1)]
  have f: "f_cols ?f = cols ?g" "length (f_rows ?f) = rows ?g" "f_rows ?f = screen_picture g0" "f_style ?f = style_default"
    using tm(2)[unfolded displays_face[OF readyD(1)[OF tm(1)]] Let_def] g0(4-6) by simp_all
  have len: "length (visible_rows ?g) = rows ?g" using visible_rows_length[OF g] .
  have hs: "row_hashes (fit_hashes (rows ?g) c) = map H (visible_rows g0)"
    by (rule cache_hashes[OF g0(3)]) (simp add: g0(5,6))
  have "f_rows ?F ! y = screen_picture ?g ! y" if "y < rows ?g" for y
    using that f(2,3) len g0(5,6) same[of y] part[of y] payload_face_rows[of y "?f\<lparr>f_shown := False\<rparr>" ?g H False c]
    by (auto simp: hs row_shown_def screen_picture_def)
  note nth = this
  have rows: "f_rows ?F = screen_picture ?g"
    by (rule nth_equalityI) (use len f(2) nth in \<open>simp_all add: payload_face_state\<close>)
  have cur: "f_x ?F = cursor_x ?g \<and> f_y ?F = cursor_y ?g"
    using payload_face_cursor[OF g s(3), of False c H] g0(3) moved by (simp add: cache_synced_def)
  show ?thesis
    using incremental_frame_face[OF cw s(1,2) g0 S tm]
  proof (rule returns_mono)
    fix tm' assume t: "ready S tm' \<and> face_of tm' = ?F"
    have "displays tm' ?g"
      unfolding displays_face[OF readyD(1)[OF conjunct1[OF t]]] Let_def conjunct2[OF t]
      using rows cur len f by (simp add: payload_face_state screen_picture_def)
    moreover have "history_picture (grid tm') = history_picture (grid tm) \<and> scrollback_limit (grid tm') = scrollback_limit (grid tm)"
      using arg_cong[OF conjunct2[OF t], of f_hist] arg_cong[OF conjunct2[OF t], of f_limit] by (simp add: payload_face_state)
    ultimately show "ready S tm' \<and> displays tm' ?g \<and> history_picture (grid tm') = history_picture (grid tm)
       \<and> scrollback_limit (grid tm') = scrollback_limit (grid tm)"
      using t by simp
  qed
qed

end
