(* ===== verification/Scrollback.thy ===== *)
theory Scrollback
  imports Terminal
begin

text \<open>
  The history on its way to the terminal: the lines that scrolled off the session's screen are drawn
  on the terminal's screen, chunk by chunk, and pushed into the terminal's own history by line feeds;
  then a full frame of the screen follows.
\<close>

subsection \<open>Lines\<close>

definition line_actions :: "style_table_t \<Rightarrow> row \<Rightarrow> action list" where
  "line_actions t r = cell_actions t r (write_len r) 0 0 (row_cells r)
     @ (if snd (draw_cells t r (write_len r) 0 0 (row_cells r)) \<noteq> 0 then [sgr_act style_default] else [])"

lemma reset_text: "act_bytes (sgr_act style_default) = ESC # ''[0m''"
  by (simp add: sgr_act_text to_sgr_with_reset_def write_sgr_with_reset_to_def style_is_default_def)

lemma line_actions_text: "text_of (line_actions t r) = render_line t r"
proof (cases "last_content_position (row_cells r)")
  case None
  then have "write_len r = 0" by (simp add: write_len_def)
  then have "cell_actions t r (write_len r) 0 0 (row_cells r) = []" "draw_cells t r (write_len r) 0 0 (row_cells r) = ([], 0)"
    by (cases "row_cells r"; simp)+
  then show ?thesis using None by (simp add: line_actions_def render_line_def)
next
  case (Some p)
  then have "write_len r = p + 1" by (simp add: write_len_def)
  then show ?thesis
    using Some by (simp add: line_actions_def render_line_def cell_actions_text case_prod_beta reset_text)
qed

definition hist_row_actions :: "style_table_t \<Rightarrow> nat \<Rightarrow> row \<Rightarrow> action list" where
  "hist_row_actions t i r =
     csi [[i + 1], [1]] CHR ''H'' # sgr_act style_default # line_actions t r @ [csi [] CHR ''K'']"

lemma paints_hist_row:
  assumes cw: "width_std cw" and t: "covers S t" and r: "paintable cw r" "row_len r = f_cols f" "row_len r \<le> u16_max"
      "0 < row_len r"
    and f: "plain (f_modes f)" "y < length (f_rows f)" and row: "row_ready (f_cols f) (f_rows f ! y)"
  shows "paints cw S (hist_row_actions t y r) f (row_drawn t False y r (f\<lparr>f_style := style_default\<rparr>))"
proof -
  have w: "width_ok cw" using cw by (simp add: width_std_def)
  let ?f = "(move 0 y f)\<lparr>f_style := style_default\<rparr>"
  let ?reset = "if snd (draw_cells t r (write_len r) 0 0 (row_cells r)) \<noteq> 0 then [sgr_act style_default] else []"
  have reset: "paints cw S ?reset F (F\<lparr>f_style := style_default\<rparr>)"
    if "f_style F = style_get t (snd (draw_cells t r (write_len r) 0 0 (row_cells r)))" for F
  proof (cases "snd (draw_cells t r (write_len r) 0 0 (row_cells r)) = 0")
    case True
    then have "F\<lparr>f_style := style_default\<rparr> = F" using that style_get_zero[OF coversD(1)[OF t]] by (intro style_same) simp
    then show ?thesis using True by simp
  qed (simp add: paints_sgr[OF w])
  have "paints cw S (cell_actions t r (write_len r) 0 0 (row_cells r) @ ?reset @ [csi [] CHR ''K'']) ?f
      (row_drawn t False y r ?f)"
    using paints_line[OF cw t r(1), where f = ?f and full = False and reset = ?reset] reset r f row
    by (simp add: row_ready_def move_def)
  moreover have "row_drawn t False y r ?f = row_drawn t False y r (f\<lparr>f_style := style_default\<rparr>)"
    by (simp add: row_drawn_def move_def at_col_def)
  ultimately have a: "paints cw S (line_actions t r @ [csi [] CHR ''K'']) ?f
      (row_drawn t False y r (f\<lparr>f_style := style_default\<rparr>))"
    by (simp only: line_actions_def append_assoc)
  show ?thesis
    unfolding hist_row_actions_def
    using paints_Cons[OF paints_to_line[OF w f(1) _ f(2)] paints_Cons[OF paints_sgr[OF w] a]] r(2,4) by simp
qed

lemma paints_hist_rows:
  assumes cw: "width_std cw" and t: "covers S t" and r: "rows_paintable cw (f_cols f) rs"
      "0 < f_cols f" "f_cols f \<le> u16_max"
    and f: "plain (f_modes f)" "length rs \<le> length (f_rows f)" and ys: "distinct ys" "list_all (\<lambda>y. y < length rs) ys"
    and row: "list_all (\<lambda>y. row_ready (f_cols f) (f_rows f ! y)) ys"
  shows "paints cw S (concat (map (\<lambda>y. hist_row_actions t y (rs ! y)) ys)) f
    (if ys = [] then f else rows_drawn t False rs ys (f\<lparr>f_style := style_default\<rparr>))"
  using r f ys row
proof (induction ys arbitrary: f)
  case Nil
  then show ?case by simp
next
  case (Cons y ys)
  let ?f = "row_drawn t False y (rs ! y) (f\<lparr>f_style := style_default\<rparr>)"
  have y: "paintable cw (rs ! y)" "row_len (rs ! y) = f_cols f" "y < length (f_rows f)"
    using Cons.prems by (auto simp: rows_paintable_def list_all_length)
  have "paints cw S (hist_row_actions t y (rs ! y)) f ?f"
    by (rule paints_hist_row[OF cw t y(1,2)]) (use Cons.prems y in simp_all)
  moreover have "paints cw S (concat (map (\<lambda>y. hist_row_actions t y (rs ! y)) ys)) ?f
      (if ys = [] then ?f else rows_drawn t False rs ys (?f\<lparr>f_style := style_default\<rparr>))"
    by (rule Cons.IH) (use Cons.prems in \<open>auto simp: list_all_iff nth_list_update\<close>)
  moreover have "?f\<lparr>f_style := style_default\<rparr> = ?f" by (rule style_same) simp
  ultimately show ?case
    by (cases "ys = []") (simp_all add: rows_drawn_def paints_append)
qed

text \<open>A line erased whole.\<close>

lemma paints_erase_line:
  assumes cw: "width_ok cw" and bg: "bg (f_style f) = None"
  shows "paints cw S [csi [[2]] CHR ''K''] f (edit_face (\<lambda>gs. replicate (length gs) blank_glyph) f)"
proof (rule paints_control)
  fix s assume s: "ready S s" "face_of s = f" "face_ok f" "length (f_rows f) = rows (grid s)"
  let ?g = "grid s"
  note g = readyD(4)[OF s(1)] and t = readyD(3)[OF s(1)]
  have P: "live_cell (style_table ?g) cell_default" using t by simp
  have blank: "blank_cell s = Some (cell_default, s)"
    by (rule blank_cell_ready[OF s(1)]) (use bg s(2) in auto)
  have e: "perform cw (csi [[2]] CHR ''K'') s
      = Some (s\<lparr>grid := edit_row (cursor_y ?g) (erase_span 0 (cols ?g) cell_default) ?g\<rparr>)"
    using grid_okD(1,8)[OF g] erase_cells_eq[OF g grid_okD(8)[OF g] P grid_okD(1)[OF g] order_refl, of cell_default]
    by (simp add: csi_dispatch_def csi_erase_line_def blank try_grid_def)
  have "picture (style_table ?g) (erase_span 0 (cols ?g) cell_default r)
      = replicate (length (picture (style_table ?g) r)) blank_glyph" if "row_len r = cols ?g" for r
    using picture_erase_right[OF t, of 0 r] grid_okD(1)[OF g] that by (simp add: erase_right_def)
  from face_edit[where k = "\<lambda>gs. replicate (length gs) blank_glyph", OF s(1) this]
  show "returns (perform cw (csi [[2]] CHR ''K'') s)
      (\<lambda>s'. style_table (grid s') = style_table (grid s) \<and> face_of s' = edit_face (\<lambda>gs. replicate (length gs) blank_glyph) f)"
    unfolding e using s(2) by simp
qed (use cw in simp_all)

definition blank_line_actions :: "nat \<Rightarrow> action list" where
  "blank_line_actions i = [csi [[i + 1], [1]] CHR ''H'', csi [[2]] CHR ''K'']"

definition line_blanked :: "nat \<Rightarrow> face \<Rightarrow> face" where
  "line_blanked i f = (move 0 i f)\<lparr>f_rows := (f_rows f)[i := replicate (length (f_rows f ! i)) blank_glyph]\<rparr>"

lemma paints_blank_line:
  assumes "width_ok cw" "plain (f_modes f)" "0 < f_cols f" "i < length (f_rows f)" "f_style f = style_default"
  shows "paints cw S (blank_line_actions i) f (line_blanked i f)"
proof -
  have bg: "bg (f_style (move 0 i f)) = None" using assms(5) by (simp add: style_default_def)
  show ?thesis
    using paints_Cons[OF paints_to_line[OF assms(1-4)] paints_erase_line[OF assms(1) bg]]
    by (simp add: blank_line_actions_def line_blanked_def edit_face_def)
qed

lemma fold_blanked:
  "f_cols (fold line_blanked ys f) = f_cols f" "f_modes (fold line_blanked ys f) = f_modes f"
  "f_region (fold line_blanked ys f) = f_region f" "f_style (fold line_blanked ys f) = f_style f"
  "f_hist (fold line_blanked ys f) = f_hist f" "f_limit (fold line_blanked ys f) = f_limit f"
  "f_shown (fold line_blanked ys f) = f_shown f" "length (f_rows (fold line_blanked ys f)) = length (f_rows f)"
  by (induction ys arbitrary: f) (simp_all add: line_blanked_def)

lemma fold_blanked_nth:
  assumes "i < length (f_rows f)"
  shows "f_rows (fold line_blanked ys f) ! i = (if i \<in> set ys then replicate (length (f_rows f ! i)) blank_glyph else f_rows f ! i)"
  using assms
proof (induction ys arbitrary: f)
  case (Cons a ys)
  have "f_rows (line_blanked a f) ! i = (if i = a then replicate (length (f_rows f ! i)) blank_glyph else f_rows f ! i)"
    using Cons.prems by (simp add: line_blanked_def nth_list_update)
  then show ?case using Cons.IH[of "line_blanked a f"] Cons.prems by (simp add: line_blanked_def)
qed simp

lemma paints_blank_lines:
  assumes "width_ok cw" "plain (f_modes f)" "0 < f_cols f" "list_all (\<lambda>i. i < length (f_rows f)) ys" "f_style f = style_default"
  shows "paints cw S (concat (map blank_line_actions ys)) f (fold line_blanked ys f)"
  using assms(2-)
proof (induction ys arbitrary: f)
  case (Cons y ys)
  have "paints cw S (blank_line_actions y) f (line_blanked y f)"
    using Cons.prems by (intro paints_blank_line[OF assms(1)]) simp_all
  moreover have "paints cw S (concat (map blank_line_actions ys)) (line_blanked y f) (fold line_blanked ys (line_blanked y f))"
    using Cons.prems by (intro Cons.IH) (simp_all add: line_blanked_def)
  ultimately show ?case by (simp add: paints_append)
qed simp

subsection \<open>Line feeds\<close>

text \<open>The history keeps the newest lines.\<close>

definition keep :: "nat \<Rightarrow> 'a list \<Rightarrow> 'a list" where
  "keep n xs = drop (length xs - n) xs"

lemma keep_keep: "keep n (keep n xs @ ys) = keep n (xs @ ys)"
proof (cases "length xs \<le> n")
  case False
  then obtain k where "length xs = n + k" by (metis nat_le_linear le_iff_add)
  then show ?thesis by (simp add: keep_def add.commute)
qed (simp add: keep_def)

lemma keep_id: "length xs \<le> n \<Longrightarrow> keep n xs = xs"
  by (simp add: keep_def)

lemma scrolled_keep: "scrolled f = f\<lparr>f_rows := tl (f_rows f) @ [replicate (f_cols f) blank_glyph],
     f_hist := keep (f_limit f) (f_hist f @ [hd (f_rows f)]), f_pending := False\<rparr>"
  by (simp add: scrolled_def keep_def)

lemma paints_line_feeds:
  assumes cw: "width_ok cw" and f: "f_region f = (0, length (f_rows f) - 1)" "f_y f = length (f_rows f) - 1"
    "0 < f_limit f" "bg (f_style f) = None" "m \<le> length (f_rows f)" "length (f_hist f) \<le> f_limit f" "\<not> f_pending f"
    "0 < length (f_rows f)"
  shows "paints cw S (replicate m (Execute (byte_of 0x0A))) f
    (f\<lparr>f_rows := drop m (f_rows f) @ replicate m (replicate (f_cols f) blank_glyph),
       f_hist := keep (f_limit f) (f_hist f @ take m (f_rows f))\<rparr>)"
  using f(5)
proof (induction m)
  case 0
  have "f\<lparr>f_rows := f_rows f, f_hist := keep (f_limit f) (f_hist f)\<rparr> = f" using f(6) by (simp add: keep_id)
  then show ?case by simp
next
  case (Suc m)
  let ?F = "\<lambda>m. f\<lparr>f_rows := drop m (f_rows f) @ replicate m (replicate (f_cols f) blank_glyph),
       f_hist := keep (f_limit f) (f_hist f @ take m (f_rows f))\<rparr>"
  have m: "m < length (f_rows f)" using Suc.prems by simp
  have "paints cw S [Execute (byte_of 0x0A)] (?F m) (scrolled (?F m))"
    by (rule paints_line_feed[OF cw]) (use f m in simp_all)
  moreover have "scrolled (?F m) = ?F (Suc m)"
  proof -
    have d: "drop m (f_rows f) = f_rows f ! m # drop (Suc m) (f_rows f)" using m by (simp add: Cons_nth_drop_Suc)
    have "keep (f_limit f) (keep (f_limit f) (f_hist f @ take m (f_rows f)) @ [f_rows f ! m])
        = keep (f_limit f) (f_hist f @ take (Suc m) (f_rows f))"
      unfolding keep_keep using m by (simp add: take_Suc_conv_app_nth)
    then show ?thesis
      using f(7) by (intro face.equality) (simp_all add: scrolled_keep d replicate_append_same)
  qed
  moreover have "replicate (Suc m) (Execute (byte_of 0x0A)) = replicate m (Execute (byte_of 0x0A)) @ [Execute (byte_of 0x0A)]"
    by (simp add: replicate_append_same)
  ultimately show ?case using paints_append[OF Suc.IH] Suc.prems by simp
qed

subsection \<open>Chunks\<close>

lemma write_small: "write_u16 (Suc 0) = ''1''" "write_u16 2 = ''2''" "byte_of 0x0A = CHR 0x0A"
  by code_simp+

definition chunk_actions :: "style_table_t \<Rightarrow> nat \<Rightarrow> row list \<Rightarrow> action list" where
  "chunk_actions t n rs =
     concat (map (\<lambda>y. hist_row_actions t y (rs ! y)) [0..<length rs])
     @ concat (map blank_line_actions [length rs..<n])
     @ csi [[n], [1]] CHR ''H'' # replicate (length rs) (Execute (byte_of 0x0A))"

lemma hist_row_text:
  "i < u16_max \<Longrightarrow> text_of (hist_row_actions t i r)
    = (ESC # ''['') @ write_u16 (as_u16 (i + 1)) @ '';1H'' @ (ESC # ''[0m'') @ render_line t r @ (ESC # ''[K'')"
  using line_actions_text[of t r] by (simp add: hist_row_actions_def reset_text as_u16_def write_small)

lemma blank_line_text:
  "i < u16_max \<Longrightarrow> text_of (blank_line_actions i) = (ESC # ''['') @ write_u16 (as_u16 (i + 1)) @ '';1H'' @ (ESC # ''[2K'')"
  by (simp add: blank_line_actions_def as_u16_def write_small)

lemma chunk_actions_text:
  assumes "n \<le> u16_max" "length rs \<le> n"
  shows "text_of (chunk_actions t n rs) = scrollback_chunk n (map (render_line t) rs)"
proof -
  have 1: "concat (map (\<lambda>y. text_of (hist_row_actions t y (rs ! y))) [0..<length rs])
      = concat (map (\<lambda>(i, line). (ESC # ''['') @ write_u16 (as_u16 (i + 1)) @ '';1H'' @ (ESC # ''[0m'') @ line @ (ESC # ''[K''))
          (zip [0..<length rs] (map (render_line t) rs)))"
    by (rule arg_cong[where f = concat], rule nth_equalityI) (use assms in \<open>simp_all add: hist_row_text\<close>)
  have 2: "concat (map (\<lambda>i. text_of (blank_line_actions i)) [length rs..<n])
      = concat (map (\<lambda>i. (ESC # ''['') @ write_u16 (as_u16 (i + 1)) @ '';1H'' @ (ESC # ''[2K'')) [length rs..<n])"
    by (rule arg_cong[where f = concat], rule map_cong[OF refl]) (use assms in \<open>simp add: blank_line_text\<close>)
  show ?thesis
    unfolding chunk_actions_def map_append concat_append text_of_rows 1 2 by (simp add: scrollback_chunk_def write_small)
qed

text \<open>The screen is blank after a chunk, and its lines are the newest of the history.\<close>

definition chunk_face :: "style_table_t \<Rightarrow> row list \<Rightarrow> face \<Rightarrow> face" where
  "chunk_face t rs f = (move 0 (length (f_rows f) - 1) (f\<lparr>f_style := style_default\<rparr>))
     \<lparr>f_rows := replicate (length (f_rows f)) (replicate (f_cols f) blank_glyph),
      f_hist := keep (f_limit f) (f_hist f @ map (row_shown t False) rs)\<rparr>"

text \<open>What a chunk needs of the terminal: plain modes, no margins, a history, and rows that can be overwritten.\<close>

definition chunk_ready :: "face \<Rightarrow> bool" where
  "chunk_ready f \<longleftrightarrow>
     plain (f_modes f) \<and> f_region f = (0, length (f_rows f) - 1) \<and> 0 < length (f_rows f)
     \<and> 0 < f_cols f \<and> f_cols f \<le> u16_max \<and> 0 < f_limit f \<and> length (f_hist f) \<le> f_limit f
     \<and> list_all (row_ready (f_cols f)) (f_rows f)"

lemma chunk_face_ready: "chunk_ready f \<Longrightarrow> chunk_ready (chunk_face t rs f)"
  by (auto simp: chunk_ready_def chunk_face_def move_def keep_def row_ready_def list_all_length paired_blank)

lemma chunk_face_frame [simp]:
  "f_cols (chunk_face t rs f) = f_cols f" "length (f_rows (chunk_face t rs f)) = length (f_rows f)"
  "f_limit (chunk_face t rs f) = f_limit f" "f_hist (chunk_face t rs f) = keep (f_limit f) (f_hist f @ map (row_shown t False) rs)"
  "f_modes (chunk_face t rs f) = f_modes f" "f_region (chunk_face t rs f) = f_region f"
  "f_shown (chunk_face t rs f) = f_shown f" "f_style (chunk_face t rs f) = style_default"
  by (simp_all add: chunk_face_def)

lemma paints_chunk:
  assumes cw: "width_std cw" and t: "covers S t" and f: "chunk_ready f"
    and rs: "rows_paintable cw (f_cols f) rs" "rs \<noteq> []" "length rs \<le> length (f_rows f)"
  shows "paints cw S (chunk_actions t (length (f_rows f)) rs) f (chunk_face t rs f)"
proof -
  let ?n = "length (f_rows f)" and ?k = "length rs"
  have w: "width_ok cw" using cw by (simp add: width_std_def)
  note F = f[unfolded chunk_ready_def]
  define f1 where "f1 = rows_drawn t False rs [0..<?k] (f\<lparr>f_style := style_default\<rparr>)"
  define f2 where "f2 = fold line_blanked [?k..<?n] f1"
  define f3 where "f3 = move 0 (?n - 1) f2"
  have 1: "paints cw S (concat (map (\<lambda>y. hist_row_actions t y (rs ! y)) [0..<?k])) f f1"
    using paints_hist_rows[OF cw t rs(1), of "[0..<?k]"] F rs(2,3) by (simp add: f1_def list_all_length)
  have f1: "f_modes f1 = f_modes f" "f_cols f1 = f_cols f" "length (f_rows f1) = ?n" "f_style f1 = style_default"
    "f_region f1 = f_region f" "f_hist f1 = f_hist f" "f_limit f1 = f_limit f" "f_shown f1 = f_shown f"
    by (simp_all add: f1_def)
  have 2: "paints cw S (concat (map blank_line_actions [?k..<?n])) f1 f2"
    unfolding f2_def by (rule paints_blank_lines[OF w]) (use F f1 in \<open>simp_all add: list_all_iff\<close>)
  have f2: "f_modes f2 = f_modes f" "f_cols f2 = f_cols f" "length (f_rows f2) = ?n" "f_style f2 = style_default"
    "f_region f2 = f_region f" "f_hist f2 = f_hist f" "f_limit f2 = f_limit f" "f_shown f2 = f_shown f"
    by (simp_all add: f2_def fold_blanked f1)
  have rows: "f_rows f2 = map (row_shown t False) rs @ replicate (?n - ?k) (replicate (f_cols f) blank_glyph)"
  proof (rule nth_equalityI)
    fix i assume i: "i < length (f_rows f2)"
    then have n: "length (f_rows f ! i) = f_cols f" "i < ?n"
      using F f2(3) by (auto simp: list_all_length row_ready_def)
    show "f_rows f2 ! i = (map (row_shown t False) rs @ replicate (?n - ?k) (replicate (f_cols f) blank_glyph)) ! i"
      using n rs(3) f1(3) by (auto simp: f2_def fold_blanked_nth f1_def rows_drawn_nth nth_append)
  qed (use f2(3) rs(3) in simp)
  have "?n - 1 < length (f_rows f2)" using F f2(3) by linarith
  then have 3: "paints cw S [csi [[?n], [1]] CHR ''H''] f2 f3"
    using paints_to_line[OF w, of f2 "?n - 1" S] F f2 by (simp add: f3_def)
  have f3: "f_rows f3 = f_rows f2" "f_hist f3 = f_hist f" "f_cols f3 = f_cols f" "f_limit f3 = f_limit f"
    using f2 by (simp_all add: f3_def move_def)
  have 4: "paints cw S (replicate ?k (Execute (byte_of 0x0A))) f3
    (f3\<lparr>f_rows := drop ?k (f_rows f3) @ replicate ?k (replicate (f_cols f3) blank_glyph),
       f_hist := keep (f_limit f3) (f_hist f3 @ take ?k (f_rows f3))\<rparr>)"
    by (rule paints_line_feeds[OF w]) (use F f2 f3 rs(3) in \<open>simp_all add: f3_def move_def style_default_def\<close>)
  have "f3\<lparr>f_rows := drop ?k (f_rows f3) @ replicate ?k (replicate (f_cols f3) blank_glyph),
       f_hist := keep (f_limit f3) (f_hist f3 @ take ?k (f_rows f3))\<rparr> = chunk_face t rs f"
    using rs(3) f2 rows f3 by (intro face.equality) (simp_all add: chunk_face_def f3_def move_def replicate_add[symmetric])
  with 4 have 4: "paints cw S (replicate ?k (Execute (byte_of 0x0A))) f3 (chunk_face t rs f)" by simp
  show ?thesis
    unfolding chunk_actions_def by (rule paints_append[OF 1 paints_append[OF 2 paints_Cons[OF 3 4]]])
qed

lemma chunks_Nil [simp]: "chunks n [] = []"
  by (simp add: chunks.simps)

lemma chunks_step: "rs \<noteq> [] \<Longrightarrow> 0 < n \<Longrightarrow> chunks n rs = take n rs # chunks n (drop n rs)"
  by (subst chunks.simps) simp

lemma chunks_map: "chunks n (map f xs) = map (map f) (chunks n xs)"
proof (induction n xs rule: chunks.induct)
  case (1 n xs)
  show ?case
  proof (cases "xs = [] \<or> n = 0")
    case True
    then show ?thesis by (auto simp: chunks.simps)
  next
    case False
    then show ?thesis using 1 by (simp add: chunks_step take_map drop_map)
  qed
qed

lemma chunks_short: "r \<in> set (chunks n xs) \<Longrightarrow> length r \<le> n"
proof (induction n xs rule: chunks.induct)
  case (1 n xs)
  show ?case
  proof (cases "xs = [] \<or> n = 0")
    case True
    then show ?thesis using 1(2) by (auto simp: chunks.simps)
  next
    case False
    then show ?thesis using 1 by (auto simp: chunks_step)
  qed
qed

lemma chunk_face_append: "chunk_face t ss (chunk_face t rs f) = chunk_face t (rs @ ss) f"
  by (intro face.equality) (simp_all add: chunk_face_def move_def keep_keep)

lemma paints_chunks:
  assumes cw: "width_std cw" and t: "covers S t"
  shows "chunk_ready f \<Longrightarrow> rows_paintable cw (f_cols f) rs \<Longrightarrow> rs \<noteq> [] \<Longrightarrow> n = length (f_rows f) \<Longrightarrow>
    paints cw S (concat (map (chunk_actions t n) (chunks n rs))) f (chunk_face t rs f)"
proof (induction n rs arbitrary: f rule: chunks.induct)
  case (1 n rs)
  have n: "0 < n" using 1(2,5) by (simp add: chunk_ready_def)
  let ?f = "chunk_face t (take n rs) f"
  have one: "paints cw S (chunk_actions t n (take n rs)) f ?f"
    unfolding 1(5) by (rule paints_chunk[OF cw t 1(2)])
      (use 1(3,4,5) n in \<open>auto simp: rows_paintable_def list_all_iff dest: in_set_takeD\<close>)
  show ?case
  proof (cases "drop n rs = []")
    case True
    then show ?thesis using one n 1(4) by (simp add: chunks_step)
  next
    case False
    have "paints cw S (concat (map (chunk_actions t n) (chunks n (drop n rs)))) ?f (chunk_face t (drop n rs) ?f)"
      by (rule "1.IH"[OF _ chunk_face_ready[OF 1(2)] _ False])
        (use 1(3,4,5) n in \<open>auto simp: rows_paintable_def list_all_iff dest: in_set_dropD\<close>)
    then show ?thesis using paints_append[OF one] n 1(4) by (simp add: chunks_step chunk_face_append)
  qed
qed

subsection \<open>History, then the screen\<close>

definition scrollback_actions :: "style_table_t \<Rightarrow> nat \<Rightarrow> row list \<Rightarrow> action list" where
  "scrollback_actions t n rs = dec_act 25 False @ [csi [] CHR ''r''] @ concat (map (chunk_actions t n) (chunks n rs))"

lemma scrollback_actions_text:
  assumes "grid_ok P g"
  shows "render_scrollback g (map (render_line t) rs) = Some (text_of (scrollback_actions t (rows g) rs))"
proof -
  have c: "map (text_of \<circ> chunk_actions t (rows g)) (chunks (rows g) rs) = map (scrollback_chunk (rows g) \<circ> map (render_line t)) (chunks (rows g) rs)"
    using grid_okD(4)[OF assms] chunks_short[of _ "rows g" rs] by (simp add: chunk_actions_text)
  have t: "text_of (concat (map (chunk_actions t (rows g)) (chunks (rows g) rs)))
      = concat (map (scrollback_chunk (rows g)) (chunks (rows g) (map (render_line t) rs)))"
    unfolding text_of_rows chunks_map map_map c[unfolded comp_def] comp_def ..
  show ?thesis
    using grid_okD(3)[OF assms] unfolding scrollback_actions_def map_append concat_append t
    by (simp add: render_scrollback_def act_text emit_dec_mode_def write_u16_sync)
qed

lemma finish_frame_pre: "finish_frame pre payload v c = (pre @ fst (finish_frame [] payload v c), snd (finish_frame [] payload v c))"
  by (simp add: finish_frame_def)

lemma render_with_history:
  assumes "render_scrollback g sb = Some pre" "sb \<noteq> []"
  shows "render_screen_impl H g ttl sb full c = map_option (\<lambda>(out, c'). (pre @ out, c')) (render_screen H g ttl True c)"
proof -
  have i: "invalidate (invalidate c) = invalidate c" by (simp add: invalidate_def)
  let ?c3 = "fit_hashes (visible_row_count g) (invalidate c)"
  show ?thesis
    unfolding render_screen_def render_screen_impl_def assms(1)
    using assms(2) finish_frame_pre[of pre]
    by (cases "render_rows H (paint_row (style_table g)) True 0 (visible_rows g) (row_hashes ?c3)")
      (simp_all add: i Let_def split: Option.bind_split prod.split)
qed

lemma history_frame_text:
  assumes g: "grid_ok P g" and rs: "rs \<noteq> []"
  shows "\<exists>c'. render_screen_impl H g ttl (map (render_line (style_table g)) rs) full c
    = Some (text_of (scrollback_actions (style_table g) (rows g) rs @ frame_actions H g ttl True c), c')"
proof -
  obtain c' where f: "render_screen H g ttl True c = Some (text_of (frame_actions H g ttl True c), c')"
    using frame_actions_text[OF g] by blast
  have "map (render_line (style_table g)) rs \<noteq> []" using rs by simp
  from render_with_history[OF scrollback_actions_text[OF g] this, of H ttl full c] show ?thesis
    unfolding f by simp
qed

lemma displayed_rows_ready:
  assumes "rows_paintable cw n (visible_rows g)"
  shows "list_all (row_ready n) (screen_picture g)"
  using assms picture_paired[of cw _ 0 _ "style_table g"]
  by (auto simp: rows_paintable_def screen_picture_def list_all_iff row_ready_def paintable_def)

lemma history_limited: "wf_screen s \<Longrightarrow> 0 < scrollback_limit (grid s) \<Longrightarrow> length (history_picture (grid s)) \<le> scrollback_limit (grid s)"
  using wf_screenD(3)[of s] grid_okD(5)[OF wf_screenD(2)[of s]]
  by (auto simp: alt_ok_def history_picture_def scrollback_rows_def split: option.splits)

lemma paints_scrollback:
  assumes cw: "width_std cw" and t: "covers S t" and rs: "rows_paintable cw (f_cols f) rs" "rs \<noteq> []"
    and f: "chunk_ready (f\<lparr>f_region := (0, length (f_rows f) - 1)\<rparr>)"
  shows "paints cw S (scrollback_actions t (length (f_rows f)) rs) f
    (chunk_face t rs (f\<lparr>f_region := (0, length (f_rows f) - 1), f_shown := False\<rparr>))"
proof -
  have w: "width_ok cw" using cw by (simp add: width_std_def)
  let ?f = "f\<lparr>f_shown := False\<rparr>"
  let ?f1 = "move 0 0 (?f\<lparr>f_region := (0, length (f_rows f) - 1)\<rparr>)"
  have 1: "paints cw S (dec_act 25 False) f ?f" by (rule paints_dec(4)[OF w])
  have 2: "paints cw S [csi [] CHR ''r''] ?f ?f1" using paints_no_margins[OF w, of _ ?f] by simp
  have "chunk_ready ?f1" using f by (simp add: chunk_ready_def)
  from paints_chunks[OF cw t this _ rs(2)] rs(1)
  have 3: "paints cw S (concat (map (chunk_actions t (length (f_rows f))) (chunks (length (f_rows f)) rs))) ?f1
      (chunk_face t rs ?f1)" by simp
  have "chunk_face t rs ?f1 = chunk_face t rs (f\<lparr>f_region := (0, length (f_rows f) - 1), f_shown := False\<rparr>)"
    by (intro face.equality) (simp_all add: chunk_face_def move_def)
  then show ?thesis
    unfolding scrollback_actions_def using paints_append[OF 1 paints_append[OF 2 3]] by simp
qed

text \<open>
  A terminal that shows \<open>g0\<close> receives history \<open>rs\<close> and the frame of \<open>s\<close>: it shows \<open>s\<close>, and its own
  history ends with the lines of \<open>rs\<close>.
\<close>

theorem history_displayed:
  assumes cw: "width_std cw" and s: "wf_screen s" "rows_paintable cw (cols (grid s)) (visible_rows (grid s))"
      "cursor_addressable (grid s)"
    and rs: "rows_paintable cw (cols (grid s)) rs" "rs \<noteq> []"
    and g0: "rows_paintable cw (cols (grid s)) (visible_rows g0)" "plain (modes g0)" "cols g0 = cols (grid s)" "rows g0 = rows (grid s)"
    and S: "set (styles (style_table (grid s))) \<subseteq> S" and tm: "ready S tm" "displays tm g0" "0 < scrollback_limit (grid tm)"
  shows "returns (foldm (perform cw)
      (scrollback_actions (style_table (grid s)) (rows (grid s)) rs @ frame_actions H (grid s) (title (state s)) True c) tm)
    (\<lambda>tm'. ready S tm' \<and> displays tm' (grid s)
       \<and> history_picture (grid tm') = keep (scrollback_limit (grid tm))
           (history_picture (grid tm) @ map (row_shown (style_table (grid s)) False) rs)
       \<and> scrollback_limit (grid tm') = scrollback_limit (grid tm))"
proof -
  let ?g = "grid s" and ?f = "face_of tm" and ?t = "style_table (grid s)"
  note g = wf_screenD(2)[OF s(1)]
  have f: "f_modes ?f = modes g0" "f_cols ?f = cols ?g" "f_rows ?f = screen_picture g0"
    using tm(2) g0 by (simp_all add: displays_def)
  have n: "length (f_rows ?f) = rows ?g"
    unfolding face_of_ok(2)[OF readyD(1)[OF tm(1)]] using tm(2) g0 by (simp add: displays_def)
  let ?f1 = "?f\<lparr>f_region := (0, length (f_rows ?f) - 1), f_shown := False\<rparr>"
  have "chunk_ready (?f\<lparr>f_region := (0, length (f_rows ?f) - 1)\<rparr>)"
    using f n g0 grid_okD(1-3)[OF g] tm(3) history_limited[OF readyD(1)[OF tm(1)] tm(3)] displayed_rows_ready[OF g0(1)]
    by (simp add: chunk_ready_def)
  from paints_scrollback[OF cw covers_screen[OF s(1) S] _ rs(2) this] rs(1) f(2) n
  have 1: "returns (foldm (perform cw) (scrollback_actions ?t (rows ?g) rs) tm)
      (\<lambda>tm1. ready S tm1 \<and> face_of tm1 = chunk_face ?t rs ?f1)"
    using tm(1) by (simp add: paints_def)
  show ?thesis
    unfolding foldm_append
  proof (rule returns_bindI[OF 1])
    fix tm1 assume t1: "ready S tm1 \<and> face_of tm1 = chunk_face ?t rs ?f1"
    note e = conjunct2[OF t1]
    have h: "modes (grid tm1) = modes g0" "cols (grid tm1) = cols ?g" "scrollback_limit (grid tm1) = scrollback_limit (grid tm)"
      "history_picture (grid tm1) = keep (scrollback_limit (grid tm)) (history_picture (grid tm) @ map (row_shown ?t False) rs)"
      using arg_cong[OF e, of f_modes] arg_cong[OF e, of f_cols] arg_cong[OF e, of f_limit] arg_cong[OF e, of f_hist] f
      by simp_all
    have r: "rows (grid tm1) = rows ?g"
      using arg_cong[OF e, of "\<lambda>f. length (f_rows f)"] face_of_ok(2)[OF readyD(1)[OF conjunct1[OF t1]]] n by simp
    have "plain (modes (grid tm1))" using h(1) g0(2) by simp
    from full_frame_displayed[OF cw s S conjunct1[OF t1] this h(2) r, of H c]
    show "returns (foldm (perform cw) (frame_actions H ?g (title (state s)) True c) tm1)
      (\<lambda>tm'. ready S tm' \<and> displays tm' ?g
       \<and> history_picture (grid tm') = keep (scrollback_limit (grid tm)) (history_picture (grid tm) @ map (row_shown ?t False) rs)
       \<and> scrollback_limit (grid tm') = scrollback_limit (grid tm))"
      by (rule returns_mono) (use h in simp)
  qed
qed

subsection \<open>What the client's terminal shows\<close>

text \<open>
  A screen that a terminal of its size can show, and a terminal that shows \<open>g0\<close>, the screen at the
  last frame, with the same size and with room for the styles \<open>S\<close>, those of the screen to come among them.
\<close>

definition drawable :: "(rchar \<Rightarrow> nat option) \<Rightarrow> screen_t \<Rightarrow> bool" where
  "drawable cw s \<longleftrightarrow> wf_screen s \<and> rows_paintable cw (cols (grid s)) (visible_rows (grid s)) \<and> cursor_addressable (grid s)"

definition same_frame :: "(rchar \<Rightarrow> nat option) \<Rightarrow> grid_t \<Rightarrow> screen_t \<Rightarrow> bool" where
  "same_frame cw g0 s \<longleftrightarrow>
     cols g0 = cols (grid s) \<and> rows g0 = rows (grid s) \<and> length (visible_rows g0) = rows (grid s)
     \<and> rows_paintable cw (cols (grid s)) (visible_rows g0) \<and> plain (modes g0)"

definition mirrors :: "(rchar \<Rightarrow> nat option) \<Rightarrow> style set \<Rightarrow> screen_t \<Rightarrow> grid_t \<Rightarrow> screen_t \<Rightarrow> bool" where
  "mirrors cw S tm g0 s \<longleftrightarrow>
     set (styles (style_table (grid s))) \<subseteq> S \<and> ready S tm \<and> displays tm g0 \<and> same_frame cw g0 s"

lemmas mirrors_defs = mirrors_def same_frame_def

text \<open>Rows with the same hash look the same, and no row that has to be drawn again fills its line.\<close>

definition hashes_tell :: "(row \<Rightarrow> 64 word) \<Rightarrow> grid_t \<Rightarrow> grid_t \<Rightarrow> bool" where
  "hashes_tell H g0 g \<longleftrightarrow> list_all (\<lambda>y. H (visible_rows g0 ! y) = H (visible_rows g ! y) \<longrightarrow>
     picture (style_table g0) (visible_rows g0 ! y) = picture (style_table g) (visible_rows g ! y)) [0..<rows g0]"

definition changes_short :: "(row \<Rightarrow> 64 word) \<Rightarrow> grid_t \<Rightarrow> grid_t \<Rightarrow> bool" where
  "changes_short H g0 g \<longleftrightarrow> list_all (\<lambda>y. H (visible_rows g0 ! y) \<noteq> H (visible_rows g ! y) \<longrightarrow>
     \<not> line_full (visible_rows g ! y)) [0..<rows g0]"

lemma screen_render_actions:
  assumes "wf_screen s"
  shows "returns (screen_render H full c s) (\<lambda>(out, c'). out = text_of (frame_actions H (grid s) (title (state s)) full c)
    \<and> cache_synced H (grid s) (title (state s)) c')"
proof -
  note g = wf_screenD(2)[OF assms]
  obtain c' where f: "render_screen H (grid s) (title (state s)) full c
      = Some (text_of (frame_actions H (grid s) (title (state s)) full c), c')"
    using frame_actions_text[OF g] by blast
  then show ?thesis
    using render_screen_impl_returns[OF g, of H "title (state s)" "[]" full c]
    by (simp add: screen_render_def render_screen_def)
qed

text \<open>What the terminal has become: it shows \<open>g\<close>, and \<open>rs\<close> is what its history has gained.\<close>

definition updated :: "style set \<Rightarrow> screen_t \<Rightarrow> glyph list list \<Rightarrow> grid_t \<Rightarrow> screen_t \<Rightarrow> bool" where
  "updated S tm rs g tm' \<longleftrightarrow>
     ready S tm' \<and> displays tm' g \<and> scrollback_limit (grid tm') = scrollback_limit (grid tm)
     \<and> history_picture (grid tm') = (if rs = [] then history_picture (grid tm)
         else keep (scrollback_limit (grid tm)) (history_picture (grid tm) @ rs))"

lemma full_frame_shown:
  assumes "width_std cw" "drawable cw s" "set (styles (style_table (grid s))) \<subseteq> S" "ready S tm" "plain (modes (grid tm))"
    "cols (grid tm) = cols (grid s)" "rows (grid tm) = rows (grid s)"
  shows "returns (foldm (perform cw) (frame_actions H (grid s) (title (state s)) True c) tm) (updated S tm [] (grid s))"
  by (rule returns_mono[OF full_frame_displayed[where S = S]]) (use assms in \<open>simp_all add: drawable_def updated_def\<close>)

lemma incremental_frame_shown:
  assumes "width_std cw" "drawable cw s" "mirrors cw S tm g0 s" "cache_synced H g0 ttl c"
    "hashes_tell H g0 (grid s)" "changes_short H g0 (grid s)" "cursor_pos (grid s) \<noteq> cursor_pos g0"
  shows "returns (foldm (perform cw) (frame_actions H (grid s) (title (state s)) False c) tm) (updated S tm [] (grid s))"
  by (rule returns_mono[OF incremental_frame_displayed[where ?g0.0 = g0 and ttl = ttl and S = S]])
    (use assms in \<open>simp_all add: drawable_def mirrors_defs hashes_tell_def changes_short_def list_all_iff updated_def\<close>)

text \<open>What an incremental frame makes of a row that has changed, and of the cursor when it has not moved.\<close>

lemma incremental_frame_row:
  assumes cw: "width_std cw" and s: "drawable cw s" and tm: "mirrors cw S tm g0 s" and c: "cache_synced H g0 ttl c"
    and y: "y < rows (grid s)" "H (visible_rows g0 ! y) \<noteq> H (visible_rows (grid s) ! y)"
  shows "returns (foldm (perform cw) (frame_actions H (grid s) (title (state s)) False c) tm)
    (\<lambda>tm'. screen_picture (grid tm') ! y = row_shown (style_table (grid s)) False (visible_rows (grid s) ! y))"
proof -
  let ?f = "(face_of tm)\<lparr>f_shown := False\<rparr>"
  note s = s[unfolded drawable_def] and m = tm[unfolded mirrors_defs]
  have n: "length (visible_rows (grid s)) = rows (grid s)" using visible_rows_length wf_screenD(2) s by blast
  have f: "length (f_rows ?f) = rows (grid s)"
    using m face_of_ok(2)[of tm] by (simp add: ready_def displays_def)
  have "row_hashes (fit_hashes (rows (grid s)) c) = map H (visible_rows g0)"
    using cache_hashes[OF c] m by simp
  then have "f_rows (payload_face H (grid s) False c ?f) ! y = row_shown (style_table (grid s)) False (visible_rows (grid s) ! y)"
    using payload_face_rows[of y ?f "grid s" H False c] y f n m by simp
  moreover have "returns (foldm (perform cw) (frame_actions H (grid s) (title (state s)) False c) tm)
    (\<lambda>tm'. ready S tm' \<and> face_of tm' = payload_face H (grid s) False c ?f\<lparr>f_shown := cursor_visible (grid s)\<rparr>)"
    by (rule incremental_frame_face[where ?g0.0 = g0 and ttl = ttl]) (use cw s m c in simp_all)
  ultimately show ?thesis
  proof (elim returns_mono)
    fix tm' assume a: "f_rows (payload_face H (grid s) False c ?f) ! y = row_shown (style_table (grid s)) False (visible_rows (grid s) ! y)"
      "ready S tm' \<and> face_of tm' = payload_face H (grid s) False c ?f\<lparr>f_shown := cursor_visible (grid s)\<rparr>"
    show "screen_picture (grid tm') ! y = row_shown (style_table (grid s)) False (visible_rows (grid s) ! y)"
      using arg_cong[OF conjunct2[OF a(2)], of f_rows] a(1) by simp
  qed
qed

lemma incremental_frame_cursor:
  assumes cw: "width_std cw" and s: "drawable cw s" and tm: "mirrors cw S tm g0 s" and c: "cache_synced H g0 ttl c"
    and same: "cursor_pos (grid s) = cursor_pos g0" "scroll_region (grid s) = scroll_region g0" "\<not> origin_mode (modes (grid s))"
    and ys: "changed_rows H False (map H (visible_rows g0)) (visible_rows (grid s)) = ys" "ys \<noteq> []"
  shows "returns (foldm (perform cw) (frame_actions H (grid s) (title (state s)) False c) tm) (\<lambda>tm'. cursor_y (grid tm') = last ys)"
proof -
  let ?f = "(face_of tm)\<lparr>f_shown := False\<rparr>"
  note s = s[unfolded drawable_def] and m = tm[unfolded mirrors_defs]
  have h: "row_hashes (fit_hashes (rows (grid s)) c) = map H (visible_rows g0)"
    using cache_hashes[OF c] m by simp
  have "last_cursor c = Some (cursor_pos (grid s))" "f_region ?f = scroll_region (grid s)"
    using c same m by (simp_all add: cache_synced_def displays_def)
  from payload_face_no_cursor(1)[OF this same(3), of H]
  have y: "f_y (payload_face H (grid s) False c ?f) = last ys" using ys h by (simp add: Let_def)
  have "returns (foldm (perform cw) (frame_actions H (grid s) (title (state s)) False c) tm)
    (\<lambda>tm'. ready S tm' \<and> face_of tm' = payload_face H (grid s) False c ?f\<lparr>f_shown := cursor_visible (grid s)\<rparr>)"
    by (rule incremental_frame_face[where ?g0.0 = g0 and ttl = ttl]) (use cw s m c in simp_all)
  then show ?thesis
  proof (rule returns_mono)
    fix tm' assume a: "ready S tm' \<and> face_of tm' = payload_face H (grid s) False c ?f\<lparr>f_shown := cursor_visible (grid s)\<rparr>"
    show "cursor_y (grid tm') = last ys" using arg_cong[OF conjunct2[OF a], of f_y] y by simp
  qed
qed

text \<open>
  A whole update: the rows that scrolled off and a full frame when there are any, otherwise an
  incremental frame. These are the actions whose text \<open>take_and_render\<close> gives.
\<close>

definition update_actions :: "(row \<Rightarrow> 64 word) \<Rightarrow> screen_t \<Rightarrow> render_cache \<Rightarrow> action list" where
  "update_actions H s c =
     (if pending_rows (grid s) = [] then frame_actions H (grid (taken s)) (title (state s)) False c
      else scrollback_actions (style_table (grid s)) (rows (grid s)) (pending_rows (grid s))
        @ frame_actions H (grid (taken s)) (title (state s)) True c)"

lemma taken_same:
  "style_table (grid (taken s)) = style_table (grid s)" "cols (grid (taken s)) = cols (grid s)"
  "rows (grid (taken s)) = rows (grid s)" "visible_rows (grid (taken s)) = visible_rows (grid s)"
  "modes (grid (taken s)) = modes (grid s)" "title (state (taken s)) = title (state s)"
  "scroll_region (grid (taken s)) = scroll_region (grid s)" "cursor_pos (grid (taken s)) = cursor_pos (grid s)"
  by (simp_all add: taken_def visible_rows_def scroll_region_def cursor_pos_def)

lemma displays_taken: "displays tm (grid (taken s)) \<longleftrightarrow> displays tm (grid s)"
  by (simp add: displays_def screen_picture_def taken_same) (simp add: taken_def)

lemma drawable_taken: "drawable cw s \<Longrightarrow> drawable cw (taken s)"
  by (simp add: drawable_def taken_safe taken_same cursor_addressable_def)

lemma update_actions_text:
  assumes s: "wf_screen s"
  shows "returns (take_and_render H c s) (\<lambda>((out, pass), c', s'). s' = taken s \<and> out = text_of (update_actions H s c)
    \<and> cache_synced H (grid (taken s)) (title (state s)) c')"
proof -
  note g = wf_screenD(2)[OF taken_safe[OF s]]
  have "\<exists>c'. render_screen_impl H (grid (taken s)) (title (state s))
        (map (render_line (style_table (grid s))) (pending_rows (grid s))) (pending_rows (grid s) \<noteq> []) c
      = Some (text_of (update_actions H s c), c')"
  proof (cases "pending_rows (grid s) = []")
    case True
    then show ?thesis
      using frame_actions_text[OF g, of H "title (state s)" False c] by (simp add: update_actions_def render_screen_def)
  next
    case False
    then show ?thesis
      using history_frame_text[OF g False, of H "title (state s)" True c] by (simp add: update_actions_def taken_same)
  qed
  then show ?thesis using take_and_render_eq[OF s, of H c] by (auto elim!: returns_mono)
qed

text \<open>What an update needs to be shown as it is meant; a full frame, which history brings, needs less.\<close>

definition update_ok :: "(rchar \<Rightarrow> nat option) \<Rightarrow> (row \<Rightarrow> 64 word) \<Rightarrow> style set \<Rightarrow> grid_t \<Rightarrow> screen_t \<Rightarrow> bool" where
  "update_ok cw H S g0 s \<longleftrightarrow>
     drawable cw s \<and> set (styles (style_table (grid s))) \<subseteq> S \<and> same_frame cw g0 s
     \<and> (if pending_rows (grid s) = []
        then hashes_tell H g0 (grid s) \<and> changes_short H g0 (grid s) \<and> cursor_pos (grid s) \<noteq> cursor_pos g0
        else rows_paintable cw (cols (grid s)) (pending_rows (grid s)))"

abbreviation rows_leaving :: "screen_t \<Rightarrow> glyph list list" where
  "rows_leaving s \<equiv> map (row_shown (style_table (grid s)) False) (pending_rows (grid s))"

lemma history_shown_with_frame:
  assumes cw: "width_std cw" and s: "update_ok cw H S g0 s" and tm: "ready S tm" "displays tm g0" "0 < scrollback_limit (grid tm)"
    and p: "pending_rows (grid s) \<noteq> []"
  shows "returns (foldm (perform cw) (update_actions H s c) tm) (updated S tm (rows_leaving s) (grid (taken s)))"
proof -
  note u = s[unfolded update_ok_def drawable_def same_frame_def]
  have "returns (foldm (perform cw)
      (scrollback_actions (style_table (grid (taken s))) (rows (grid (taken s))) (pending_rows (grid s))
        @ frame_actions H (grid (taken s)) (title (state (taken s))) True c) tm)
    (\<lambda>tm'. ready S tm' \<and> displays tm' (grid (taken s))
       \<and> history_picture (grid tm') = keep (scrollback_limit (grid tm))
           (history_picture (grid tm) @ map (row_shown (style_table (grid (taken s))) False) (pending_rows (grid s)))
       \<and> scrollback_limit (grid tm') = scrollback_limit (grid tm))"
    by (rule history_displayed[OF cw taken_safe, where ?g0.0 = g0])
      (use u p tm in \<open>simp_all add: taken_same cursor_addressable_def\<close>)
  then show ?thesis
    using p by (auto simp: update_actions_def taken_same updated_def elim!: returns_mono)
qed

lemma update_shown:
  assumes cw: "width_std cw" and s: "update_ok cw H S g0 s" and tm: "ready S tm" "displays tm g0" "0 < scrollback_limit (grid tm)"
    and c: "cache_synced H g0 ttl c"
  shows "returns (foldm (perform cw) (update_actions H s c) tm) (updated S tm (rows_leaving s) (grid (taken s)))"
proof (cases "pending_rows (grid s) = []")
  case True
  note u = s[unfolded update_ok_def]
  have m: "mirrors cw S tm g0 (taken s)" using u tm by (simp add: mirrors_defs same_frame_def taken_same)
  have "returns (foldm (perform cw) (frame_actions H (grid (taken s)) (title (state (taken s))) False c) tm)
      (updated S tm [] (grid (taken s)))"
    by (rule incremental_frame_shown[OF cw drawable_taken m c])
      (use u True in \<open>simp_all add: taken_same hashes_tell_def changes_short_def\<close>)
  then show ?thesis using True by (simp add: update_actions_def taken_same)
qed (rule history_shown_with_frame[OF cw s tm])

subsection \<open>Through any number of updates\<close>

text \<open>
  The updates of a client, each from the screen as it is then, with what is written and the actions of
  which it is the text. The cache goes from one to the next.
\<close>

fun updates :: "(row \<Rightarrow> 64 word) \<Rightarrow> render_cache \<Rightarrow> screen_t list \<Rightarrow> (bytes \<times> action list) list option" where
  "updates H c [] = Some []"
| "updates H c (s # ss) =
     do { ((out, pass), c', s') \<leftarrow> take_and_render H c s;
          us \<leftarrow> updates H c' ss;
          Some ((out, update_actions H s c) # us) }"

fun updates_ok :: "(rchar \<Rightarrow> nat option) \<Rightarrow> (row \<Rightarrow> 64 word) \<Rightarrow> style set \<Rightarrow> grid_t \<Rightarrow> screen_t list \<Rightarrow> bool" where
  "updates_ok cw H S g0 [] = True"
| "updates_ok cw H S g0 (s # ss) = (update_ok cw H S g0 s \<and> updates_ok cw H S (grid (taken s)) ss)"

definition shown_grid :: "grid_t \<Rightarrow> screen_t list \<Rightarrow> grid_t" where
  "shown_grid g0 ss = (if ss = [] then g0 else grid (taken (last ss)))"

lemma updates_shown:
  assumes cw: "width_std cw"
  shows "updates_ok cw H S g0 ss \<Longrightarrow> ready S tm \<Longrightarrow> displays tm g0 \<Longrightarrow> 0 < scrollback_limit (grid tm) \<Longrightarrow>
    cache_synced H g0 ttl c \<Longrightarrow>
    returns (updates H c ss) (\<lambda>us. list_all (\<lambda>(out, as). out = text_of as) us
      \<and> returns (foldm (perform cw) (concat (map snd us)) tm)
          (\<lambda>tm'. displays tm' (shown_grid g0 ss)
             \<and> history_picture (grid tm') = keep (scrollback_limit (grid tm))
                 (history_picture (grid tm) @ concat (map rows_leaving ss))))"
proof (induction ss arbitrary: g0 tm ttl c)
  case Nil
  have "length (history_picture (grid tm)) \<le> scrollback_limit (grid tm)"
    by (rule history_limited[OF readyD(1)[OF Nil(2)] Nil(4)])
  then show ?case using Nil by (simp add: shown_grid_def keep_id)
next
  case (Cons s ss)
  have s: "update_ok cw H S g0 s" "wf_screen s" and ok: "updates_ok cw H S (grid (taken s)) ss"
    using Cons.prems(1) by (simp_all add: update_ok_def drawable_def)
  obtain out pass c' where r: "take_and_render H c s = Some ((out, pass), c', taken s)" "out = text_of (update_actions H s c)"
    and c': "cache_synced H (grid (taken s)) (title (state s)) c'"
    using update_actions_text[OF s(2), of H c] by (auto elim!: returnsE)
  obtain tm1 where t: "foldm (perform cw) (update_actions H s c) tm = Some tm1" "updated S tm (rows_leaving s) (grid (taken s)) tm1"
    using update_shown[OF cw s(1) Cons.prems(2-5)] by (auto elim!: returnsE)
  note t1 = t(2)[unfolded updated_def]
  have h: "history_picture (grid tm1) = keep (scrollback_limit (grid tm)) (history_picture (grid tm) @ rows_leaving s)"
    using t1 history_limited[OF readyD(1)[OF Cons.prems(2)] Cons.prems(4)] by (auto simp: keep_id)
  have "0 < scrollback_limit (grid tm1)" using t1 Cons.prems(4) by simp
  from Cons.IH[OF ok _ _ this c'] obtain us where us: "updates H c' ss = Some us" "list_all (\<lambda>(out, as). out = text_of as) us"
    "returns (foldm (perform cw) (concat (map snd us)) tm1)
      (\<lambda>tm'. displays tm' (shown_grid (grid (taken s)) ss)
         \<and> history_picture (grid tm') = keep (scrollback_limit (grid tm1)) (history_picture (grid tm1) @ concat (map rows_leaving ss)))"
    using t1 by (auto elim!: returnsE)
  have k: "keep (scrollback_limit (grid tm1)) (history_picture (grid tm1) @ concat (map rows_leaving ss))
      = keep (scrollback_limit (grid tm)) (history_picture (grid tm) @ concat (map rows_leaving (s # ss)))"
    using t1 unfolding h by (simp add: keep_keep)
  have e: "shown_grid (grid (taken s)) ss = shown_grid g0 (s # ss)" by (simp add: shown_grid_def)
  show ?case using us r t(1) unfolding k e by (simp add: foldm_append)
qed

end
