(* ===== verification/Spec2Isabelle.thy ===== *)
theory Spec2Isabelle
  imports Bridge Lifecycle Frontend Scrollback
begin

text \<open>
  A verification library for \<open>retach\<close>, a terminal multiplexer that keeps sessions in a server and
  passes scrolled lines on to the client's own terminal.

  \<^bold>\<open>The program.\<close> A server process owns sessions. A session is a child process on a pseudo-terminal, an
  emulated screen, and a reader thread that feeds the child's output to the emulator and writes the
  emulator's answers back. A client connects over a Unix socket, receives the history and a frame of
  the screen, and then two relays run: one renders what changed, the other carries what is typed. All
  parts meet in the screen (behind a mutex), the flag \<open>has_client\<close> and the eviction channel.

  \<^bold>\<open>The theories\<close>, in the order of their imports, and the files under \<open>src/src/\<close> that they model:
  \<^item> \<open>Prelude\<close>: fixed-width arithmetic, vectors, the \<open>returns\<close> calculus for operations that may panic,
    loops, and the interfaces \<open>total_step\<close>, \<open>total_steps\<close> and \<open>bounded_push\<close>. \<open>Utf8\<close>: the part of Rust's
    string library in use.
  \<^item> \<open>Style\<close> (\<open>screen/style.rs\<close>): SGR attributes, their writer and interpreter, the style table. The
    interface \<open>style_store\<close> says what an interning table with reclaim promises its users.
  \<^item> \<open>Cell\<close> (\<open>screen/cell.rs\<close>), \<open>Grid\<close> (\<open>screen/grid.rs\<close>): rows of cells, and the buffer whose first
    \<open>scrollback_len\<close> rows are history. Erasing, scrolling and resizing have a reference definition each (names ending in
    \<open>_spec\<close>) that the operation is proved equal to.
  \<^item> \<open>Performer\<close> (\<open>screen/performer.rs\<close>, the state of \<open>screen/mod.rs\<close>): one definition per control
    function and their dispatch \<open>perform\<close>. \<open>Performer_Safe\<close>: the invariant \<open>wf_screen\<close>, and that every
    operation keeps it without a panic.
  \<^item> \<open>Render\<close> (\<open>screen/render.rs\<close>): frames and their cache. \<open>Render_Facts\<close>: what a terminal that reads
    a frame shows.
  \<^item> \<open>Screen\<close> (\<open>screen/mod.rs\<close>, \<open>screen/traits.rs\<close>): the emulator with its byte interface and queues.
  \<^item> \<open>Picture\<close>, \<open>Terminal\<close>, \<open>Scrollback\<close>: no code of their own, but the specification of the renderer. A
    terminal is the emulator itself; its face is what a user sees of it. The bytes of a frame are the
    text of a list of parser actions (\<open>text_of\<close>, the inverse of \<open>vte\<close>), and \<open>paints\<close> says what the
    actions do to the face: character by character (\<open>Picture\<close>), for rows and whole frames
    (\<open>Terminal\<close>), and for history that is scrolled into the terminal before a frame, and any number of
    updates (\<open>Scrollback\<close>).
  \<^item> \<open>Protocol\<close> (\<open>protocol/messages.rs\<close>, \<open>protocol/codec.rs\<close>): messages, frames, the buffered reader.
  \<^item> \<open>Client\<close> (\<open>client/mod.rs\<close>): the input filter, the client's relays, handshake, clean-up, requests.
  \<^item> \<open>Attach\<close> (\<open>session.rs\<close>): connecting to and leaving a session, as functions and as interleaved steps.
    \<open>Session\<close> (\<open>session.rs\<close>, \<open>pty.rs\<close>): sessions, the reader loop, the registry.
  \<^item> \<open>Server\<close> (\<open>server/session_setup.rs\<close>, \<open>server/session_bridge.rs\<close>, \<open>server/session_relay.rs\<close>,
    \<open>server/client_handler.rs\<close>, \<open>server/mod.rs\<close>): what the server does for a connection. \<open>Server_Facts\<close>:
    its lemmas, with those on client and server together. \<open>Bridge\<close>: the reader and the relays of a
    session, interleaved. \<open>Lifecycle\<close>: \<open>run_server\<close> from its start to its end, over the events on the
    registry.
  \<^item> \<open>Startup\<close> (\<open>server/socket.rs\<close>, \<open>client/server_launcher.rs\<close>, \<open>server/mod.rs\<close>): the socket directory,
    and any number of clients and servers that launch and claim the socket step by step. \<open>Frontend\<close>
    (\<open>cli.rs\<close>, \<open>main.rs\<close>, \<open>client/raw_mode.rs\<close>, \<open>client/mod.rs\<close>): commands, raw mode, \<open>connect\<close> as a whole.

  \<^bold>\<open>How state is modelled.\<close> A struct is a record with the source's fields, an enum a datatype; names are
  the source's, with a prefix where they clash (\<open>p_scroll_up\<close> is \<open>ScreenPerformer::scroll_up\<close>,
  \<open>scroll_up\<close> is \<open>Grid::scroll_up\<close>). A method takes the state and returns it updated; \<open>None\<close> is a panic
  and \<open>Inl\<close> an error of the source. Bytes are characters of HOL, a Rust \<open>char\<close> is its code point,
  numbers of 16 bits and more are \<open>nat\<close> with the width written out, \<open>u8\<close> parameters are words.

  \<^bold>\<open>Parameters\<close> stand for code that is not in the repository, and nothing is assumed about them beyond
  the hypotheses named here. The \<open>vte\<close> parser is \<open>advance\<close> (no assumption; C3 assumes that it reports
  no title cut inside a character, \<open>title_safe\<close>). The width of a character is \<open>cwidth\<close> (\<open>width_ok\<close>: at
  most two columns; \<open>width_std\<close> for frames: and a blank has one). The hash of a row is \<open>H\<close>. \<open>bincode\<close> is \<open>ser\<close> and \<open>de\<close> (\<open>codec_ok\<close>: what was
  written is read back, within the size limit). The watch channel of \<open>tokio\<close> is \<open>borrow\<close> and \<open>changed\<close>
  (\<open>watch_ok\<close>). The pseudo-terminal is \<open>spawn\<close>, \<open>rz\<close> and \<open>wr\<close>, which only say what fails. The file
  system is \<open>mkdir\<close>, \<open>lstat\<close> and \<open>chmod\<close> (\<open>fs_ok\<close>), \<open>cfmakeraw\<close> is \<open>makeraw\<close>. Time, scheduling and
  the outcomes of other system calls are left to the environment: lists of reads, turns and events.

  \<^bold>\<open>What is shown.\<close>
  \<^item> Safety (C1 to C3, C28): no input and no interleaving panics or breaks an invariant, with the one
    exception of an over-long title, which does panic (C29).
  \<^item> The wire (C4, C5) and what travels on it: the history and first frame (C6, C7), keys from the
    terminal to the child (C14, C15), for every cut of the streams into reads.
  \<^item> The terminal shows the session: after a full frame (C8), after an incremental one (C9), with the
    rows that scrolled off in its own history (C10), and so through any number of updates (C11). C9 names
    what it needs, and two of the conditions are defects of the code when they fail: a changed row that
    fills its line loses its last column (C12), and a cursor that has not moved is left on the row drawn
    last (C13).
  \<^item> Styles (C16, C17), the alternate screen (C18), frames and what waits for them (C19, C21), scrolling
    and resizing (C20, C22).
  \<^item> Clients of a session: one at a time, with the flag that says so, and the race in which it is wrong
    (C23 to C25). The reader's answers to the child (C26 to C28).
  \<^item> Names, the registry and the handling of a connection (C30 to C33), the server from start to end (C34), the client's clean-up (C35), and
    the lines that are lost while a client attaches (C36).
  \<^item> Starting up: the socket directory, a single server, and the run that leaves two (C37 to C39); the
    terminal is always given back (C40).

  \<^bold>\<open>Bounds and fuel.\<close> A loop over a finite list or range is structural recursion and needs no fuel. The
  loops \<open>while let Some(msg) = decode_next()\<close> have the fuel "bytes in the buffer plus one" (\<open>drain\<close>,
  \<open>dispatch_drain\<close>, \<open>serve_drain\<close>): each message consumes at least the four bytes of its header, so the
  fuel is never used up; C5, C6 and C14 show that the loops return. A reader that waits for more input is
  the list of the inputs to come. \<open>buffer_bound\<close> is one maximal frame, its header and one read.

  \<^bold>\<open>Not modelled.\<close> What the calls of \<open>portable_pty\<close> do: opening a pseudo-terminal is the record of the
  errors of its calls (\<open>pty_calls\<close>), reading and writing are lists. Timeouts and the render throttle (their
  firing is an event), and the thread on which sessions are dropped. What the spawned server does before \<open>main\<close>, the
  parsing of arguments (\<open>clap\<close>) and logging. Writes to sockets and to the terminal are taken to succeed.
  Tests.
\<close>

section \<open>Instances for the witnesses\<close>

text \<open>
  The parameters of the model with concrete values: every character one column wide, a parser that
  prints every byte, a small screen, and a serializer that numbers the messages of a given list.
\<close>

definition narrow :: "rchar \<Rightarrow> nat option" where
  "narrow c = Some 1"

lemma narrow_ok: "width_ok narrow"
  by (simp add: width_ok_def narrow_def)

definition print_parser :: "unit \<Rightarrow> byte \<Rightarrow> unit \<times> action list" where
  "print_parser p b = ((), [Print (of_char b)])"

lemma print_parser_titles: "\<not> list_ex bad_title (actions_of print_parser bs p)"
  by (induction bs) (simp_all add: print_parser_def)

lemma narrow_fits: "\<not> list_ex bad_title as \<Longrightarrow> \<not> may_panic narrow as wd"
  by (simp add: may_panic_def too_wide_def narrow_def)

abbreviation small_screen :: screen_t where
  "small_screen \<equiv> screen_new 4 2 3"

lemma small_screen_wf: "wf_screen small_screen"
  by (rule screen_new_wf) simp_all

lemma small_screen_grid: "grid_ok (live_cell (style_table (grid small_screen))) (grid small_screen)"
  by (rule wf_screenD(2)[OF small_screen_wf])

lemmas small_simps = screen_new_def grid_new_def sanitize_dimensions_def screen_state_default_def

definition table_ser :: "'m list \<Rightarrow> 'm serializer" where
  "table_ser ms m = (if m \<in> set ms then Inr (replicate (length (takeWhile (\<lambda>x. x \<noteq> m) ms)) (CHR ''x'')) else Inl ''no'')"

definition table_de :: "'m list \<Rightarrow> 'm deserializer" where
  "table_de ms d = (if length d < length ms then Inr (ms ! length d) else Inl ''no'')"

lemma table_codec: "length ms \<le> MAX_FRAME_SIZE \<Longrightarrow> codec_ok (table_ser ms) (table_de ms)"
proof -
  assume len: "length ms \<le> MAX_FRAME_SIZE"
  have "length (takeWhile (\<lambda>x. x \<noteq> m) ms) < length ms \<and> ms ! length (takeWhile (\<lambda>x. x \<noteq> m) ms) = m" if "m \<in> set ms" for m
  proof -
    have "length (takeWhile (\<lambda>x. x \<noteq> m) ms) < length ms"
      using that by (induction ms) auto
    then show ?thesis using nth_length_takeWhile[of "\<lambda>x. x \<noteq> m" ms] by simp
  qed
  then show ?thesis
    using len by (fastforce simp: codec_ok_def table_ser_def table_de_def split: if_splits)
qed

lemma table_encodable: "list_all (encodable (table_ser ms)) ms"
  by (simp add: list_all_iff encodable_def table_ser_def)

section \<open>The emulator never panics\<close>





section \<open>The session at work\<close>


abbreviation idle_pty :: pty_t where
  "idle_pty \<equiv> \<lparr>child_lock = LockOk, try_wait = Inr None, process_id = Some 7, master_size = \<lparr>ts_cols = 4, ts_rows = 2\<rparr>\<rparr>"

abbreviation small_session :: "unit session_t" where
  "small_session \<equiv> \<lparr>session_name = ''work'', pty = idle_pty, screen = emulator_new () 4 2 3, screen_poisoned = False,
     dims = \<lparr>ts_cols = 4, ts_rows = 2\<rparr>, dims_poisoned = False, attach = attach_new, reader_alive = True\<rparr>"


lemma small_session_ok: "session_ok small_session"
  by (simp add: session_ok_def emulator_new_def small_screen_wf)


section \<open>The wire\<close>

text \<open>C4: However the bytes of a connection are cut into reads of at most 64 KiB, the frame reader
  gives exactly the messages that were encoded, in order, without an error and with nothing left over.\<close>

theorem frames_round_trip:
  assumes "codec_ok ser de" "list_all (encodable ser) ms" "concat parts = wire ser ms"
    "list_all (\<lambda>d. d \<noteq> [] \<and> length d \<le> READ_BUF_SIZE) parts"
  shows "returns (pump de (map Inr parts) frame_reader_new) (\<lambda>(r, ms', fr'). r = Inr () \<and> ms' = ms \<and> unread fr' = [])"
proof -
  have "idle frame_reader_new" "unread frame_reader_new = []"
    by (simp_all add: idle_def fr_ok_def unread_def frame_reader_new_def decode_frame_def)
  then show ?thesis
    using pump_wire[OF assms(1,2), of frame_reader_new parts] assms(3,4) by (auto elim!: returns_mono)
qed

abbreviation two_msgs :: "client_msg list" where
  "two_msgs \<equiv> [RefreshScreen, Detach]"

lemma two_msgs_wire: "wire (table_ser two_msgs) two_msgs = to_be_bytes 0 @ to_be_bytes 1 @ ''x''"
  by (simp add: wire_def frame_of_def encode_def table_ser_def)

theorem frames_round_trip_witness:
  "returns (pump (table_de two_msgs) (map Inr [to_be_bytes 0 @ take 2 (to_be_bytes 1), drop 2 (to_be_bytes 1) @ ''x'']) frame_reader_new)
     (\<lambda>(r, ms', fr'). r = Inr () \<and> ms' = two_msgs \<and> unread fr' = [])"
  by (rule frames_round_trip[OF table_codec table_encodable])
    (simp_all add: two_msgs_wire to_be_bytes_def)

text \<open>C5: On any input whatever, reading a connection ends without a panic after its reads, and the
  read buffer never holds more than one frame of the maximal size, its header and one read.\<close>

theorem reader_total:
  assumes "list_all (\<lambda>rd. case rd of Inl e \<Rightarrow> True | Inr d \<Rightarrow> length d \<le> READ_BUF_SIZE) rds"
  shows "returns (pump de rds frame_reader_new) (\<lambda>(r, ms, fr'). fr_ok fr' \<and> length (read_buf fr') \<le> buffer_bound)"
proof -
  have "idle frame_reader_new" "length (read_buf frame_reader_new) \<le> buffer_bound"
    by (simp_all add: idle_def fr_ok_def unread_def frame_reader_new_def decode_frame_def)
  then show ?thesis by (rule pump_total[OF _ _ assms])
qed

theorem reader_total_witness:
  "returns (pump (table_de two_msgs) [Inr ''garbage'', Inl ''reset'', Inr []] frame_reader_new)
     (\<lambda>(r, ms, fr'). fr_ok fr' \<and> length (read_buf fr') \<le> buffer_bound)"
  by (rule reader_total) simp

section \<open>Attaching\<close>

text \<open>C6: What a user sees on attaching. The server's initial bytes, cut into reads in any way,
  complete the client's handshake with the name of the session, and what the client then writes to the
  terminal is the whole history, one line each, followed by the queued notifications, the bytes that
  push the history off the screen, and a full frame of the screen. In the alternate screen there is no
  history.\<close>

theorem attach_shows_history:
  assumes s: "wf_screen s" and c: "codec_ok ser de" and f: "initial_frame H s = Some ((hist, data), cache, s1)"
    and enc: "list_all (encodable ser) (Connected nm is_new # history_messages hist @ [ScreenUpdate data])"
    and b: "between s1 = Some s2"
    and out: "send_initial_state ser H between False is_new nm s = Some ((out, r), s3)"
    and parts: "concat parts = out" "list_all (\<lambda>d. d \<noteq> [] \<and> length d \<le> READ_BUF_SIZE) parts"
  shows "r = Inr cache \<and> hist = attach_lines s \<and>
    (\<exists>k l frame. await_connected de (map Inr (take k parts)) frame_reader_new = Some (HsConnected nm is_new l)
       \<and> Some (frame, cache) = screen_render H True cache_new s1
       \<and> run_socket_to_stdout de l (map Inr (drop k parts)) =
           Some (concat (map (\<lambda>l. l @ [CHR 0x0D, CHR 0x0A]) hist) @ concat (queued_notifications (state s))
             @ (if hist \<noteq> [] then flush_history (rows (grid s)) else []) @ frame))"
proof -
  let ?ms = "history_messages hist @ [ScreenUpdate data]"
  have wire: "out = frame_of ser (Connected nm is_new) @ wire ser ?ms" "r = Inr cache"
    using send_initial_state_wire[OF s c f, of nm is_new between s2] enc b out by (simp_all add: wire_def)
  have idle: "idle frame_reader_new" "unread frame_reader_new = []"
    by (simp_all add: idle_def fr_ok_def unread_def frame_reader_new_def decode_frame_def)
  obtain k l where hs: "await_connected de (map Inr (take k parts)) frame_reader_new = Some (HsConnected nm is_new l)"
    "l @ concat (drop k parts) = wire ser ?ms"
    using await_connected_wire[OF c _ idle(1), of nm is_new parts] enc wire parts idle(2) by auto
  have "run_socket_to_stdout de l (map Inr (drop k parts)) = Some (fst (client_shows ?ms))"
    using run_socket_to_stdout_wire[OF c _ hs(2)] enc parts(2) by simp
  then have shown: "run_socket_to_stdout de l (map Inr (drop k parts)) =
      Some (concat (map (\<lambda>l. l @ [CHR 0x0D, CHR 0x0A]) hist) @ data)"
    by (simp add: history_shown dispatch_server_msg_def)
  obtain frame where fr: "hist = attach_lines s" "Some (frame, cache) = screen_render H True cache_new s1"
    "data = concat (queued_notifications (state s)) @ (if hist \<noteq> [] then flush_history (rows (grid s)) else []) @ frame"
    using initial_frame_eq[OF s, of H] f by auto
  show ?thesis
    by (rule conjI[OF wire(2) conjI[OF fr(1)]], rule exI[of _ k], rule exI[of _ l], rule exI[of _ frame])
      (use hs(1) shown fr(2,3) in simp)
qed

theorem attach_shows_history_witness:
  "\<exists>de parts k l shown. await_connected de (map Inr (take k parts)) frame_reader_new = Some (HsConnected ''work'' False l)
     \<and> run_socket_to_stdout de l (map Inr (drop k parts)) = Some shown"
proof -
  obtain data cache s1 where f: "initial_frame (\<lambda>_. 0) small_screen = Some ((attach_lines small_screen, data), cache, s1)"
    using initial_frame_eq[OF small_screen_wf, of "\<lambda>_. 0"] by (auto elim!: returnsE)
  let ?ms = "Connected ''work'' False # history_messages (attach_lines small_screen) @ [ScreenUpdate data]"
  have "attach_lines small_screen = []" by (simp add: attach_lines_def scrollback_rows_def small_simps Let_def)
  then have c: "codec_ok (table_ser ?ms) (table_de ?ms)"
    by (intro table_codec) (simp add: history_messages_def)
  have enc: "list_all (encodable (table_ser ?ms)) ?ms" by (rule table_encodable)
  have out: "send_initial_state (table_ser ?ms) (\<lambda>_. 0) Some False False ''work'' small_screen =
      Some ((wire (table_ser ?ms) ?ms, Inr cache), discard_pending s1)"
    by (rule send_initial_state_wire[OF small_screen_wf c f]) (use enc in simp_all)
  let ?parts = "map (\<lambda>b. [b]) (wire (table_ser ?ms) ?ms)"
  have "concat ?parts = wire (table_ser ?ms) ?ms" "list_all (\<lambda>d. d \<noteq> [] \<and> length d \<le> READ_BUF_SIZE) ?parts"
    by (simp_all add: list_all_iff)
  from attach_shows_history[OF small_screen_wf c f enc refl out this] show ?thesis by blast
qed

text \<open>C7: The history is sent as History messages whose lines together are exactly the history in
  order; no message is empty, and one whose estimated size exceeds half the maximal frame holds a
  single line.\<close>

theorem history_in_messages:
  "concat (chunk_history limit lines [] 0) = lines
   \<and> (\<forall>ch\<in>set (chunk_history limit lines [] 0). ch \<noteq> [] \<and> (chunk_weight ch \<le> limit \<or> length ch = 1))
   \<and> history_messages lines = map History (chunk_history (MAX_FRAME_SIZE div 2) lines [] 0)"
  using chunk_history_bounded[of 0 "[]" limit lines]
  by (simp add: chunk_history_concat history_messages_def chunk_weight_def)

theorem history_in_messages_witness:
  "chunk_history 20 [''ab'', ''cd'', ''e''] [] 0 = [[''ab''], [''cd''], [''e'']]
   \<and> concat (chunk_history 20 [''ab'', ''cd'', ''e''] [] 0) = [''ab'', ''cd'', ''e'']"
  using history_in_messages[of 20 "[''ab'', ''cd'', ''e'']"] by simp

section \<open>What the terminal shows\<close>

































section \<open>Typing\<close>


abbreviation idle_input :: "unit input_state" where
  "idle_input \<equiv> \<lparr>i_session = small_session, i_written = [], i_refresh = 0\<rparr>"





text \<open>C15: The detach key. What was typed before it reaches the child, nothing that follows it does,
  and the server's relay ends as detached.\<close>

theorem detach_ends_relay:
  assumes c: "codec_ok ser de" and ds: "DETACH_KEY \<notin> set (concat ds @ pre)" "list_all (\<lambda>d. d \<noteq> []) ds"
    and ms: "ms = run_stdin_to_socket (map Inr ds @ Inr (pre @ DETACH_KEY # post) # rest) filter_new" "list_all (encodable ser) ms"
    and w: "leftover @ concat (d # parts) = wire ser ms" "length leftover \<le> buffer_bound"
      "list_all (\<lambda>d. d \<noteq> [] \<and> length d \<le> READ_BUF_SIZE) (d # parts)"
  shows "client_to_pty de rz (\<lambda>_. None) leftover (map Inr (d # parts)) st =
    Some (Detached, st\<lparr>i_written := i_written st @ keys (fst (scan (concat ds))) @ snd (scan (concat ds)) @ pre,
      i_refresh := i_refresh st + focus_count (fst (scan (concat ds)))\<rparr>)"
  using client_to_pty_wire[OF c ms(2) w, of rz "\<lambda>_. None" st] typed_detach[OF ds, of rz post rest st] ms(1) by simp

abbreviation detach_msgs :: "client_msg list" where
  "detach_msgs \<equiv> [Input ''l'', Detach]"

lemma detach_msgs_wire: "wire (table_ser detach_msgs) detach_msgs = to_be_bytes 0 @ to_be_bytes 1 @ ''x''"
  by (simp add: wire_def frame_of_def encode_def table_ser_def)

theorem detach_ends_relay_witness:
  "\<exists>st. client_to_pty (table_de detach_msgs) (\<lambda>_. None) (\<lambda>_. None) [] (map Inr [to_be_bytes 0 @ to_be_bytes 1 @ ''x'']) idle_input
     = Some (Detached, st) \<and> i_written st = ''l''"
proof -
  have ms: "detach_msgs = run_stdin_to_socket (map Inr [] @ Inr (''l'' @ DETACH_KEY # ''s'') # []) filter_new"
    by (simp add: filter_process_def filter_new_def flush_filtered_def)
  have "client_to_pty (table_de detach_msgs) (\<lambda>_. None) (\<lambda>_. None) [] (map Inr [to_be_bytes 0 @ to_be_bytes 1 @ ''x'']) idle_input
     = Some (Detached, idle_input\<lparr>i_written := i_written idle_input @ keys (fst (scan (concat []))) @ snd (scan (concat [])) @ ''l'',
         i_refresh := i_refresh idle_input + focus_count (fst (scan (concat [])))\<rparr>)"
    by (rule detach_ends_relay[OF table_codec _ _ ms table_encodable]) (simp_all add: detach_msgs_wire[simplified])
  then show ?thesis by simp
qed

section \<open>Styles\<close>

text \<open>C16: Interning a style, with a garbage collection when the table is full, never changes the style
  of a cell of the screen, of the history or of the saved main screen, and gives an identifier of the
  style that was asked for unless every slot is in use.\<close>

theorem gc_keeps_styles:
  assumes "wf_screen s"
  shows "returns (intern_with_gc sty s) (\<lambda>(i, s'). wf_screen s' \<and> used_rows s' = used_rows s
    \<and> (\<forall>j\<in>used_ids s. style_get (style_table (grid s')) j = style_get (style_table (grid s)) j)
    \<and> (style_get (style_table (grid s')) i = sty \<or> i = 0 \<and> style_is_full (style_table (grid s'))))"
proof (rule returns_mono[OF returns_conj[OF intern_with_gc_step[OF wf_at_self[OF assms]] intern_with_gc_denotes[OF wf_at_self[OF assms]]]])
  fix x :: "nat \<times> screen_t"
  assume x: "(case x of (i, s') \<Rightarrow> table_step s s' \<and> i \<in> live_ids (style_table (grid s'))) \<and>
    (case x of (i, s') \<Rightarrow> style_get (style_table (grid s')) i = sty \<or> i = 0 \<and> style_is_full (style_table (grid s')))"
  obtain i s' where x': "x = (i, s')" by fastforce
  have t: "table_step s s'" using x x' by simp
  then have "\<forall>j\<in>used_ids s. style_get (style_table (grid s')) j = style_get (style_table (grid s)) j"
    by (auto simp: table_step_def)
  then show "case x of (i, s') \<Rightarrow> wf_screen s' \<and> used_rows s' = used_rows s
    \<and> (\<forall>j\<in>used_ids s. style_get (style_table (grid s')) j = style_get (style_table (grid s)) j)
    \<and> (style_get (style_table (grid s')) i = sty \<or> i = 0 \<and> style_is_full (style_table (grid s')))"
    using x x' table_step_wf[OF wf_at_self[OF assms] t] table_step_rows[OF t] by (simp add: wf_at_def)
qed

theorem gc_keeps_styles_witness:
  "returns (intern_with_gc (style_default\<lparr>bold := True\<rparr>) small_screen) (\<lambda>(i, s'). wf_screen s' \<and> used_rows s' = used_rows small_screen)"
  using gc_keeps_styles[OF small_screen_wf, of "style_default\<lparr>bold := True\<rparr>"] by (auto elim!: returns_mono)

text \<open>C17: Reading back the SGR sequence of a style gives the style, whatever style was in force.\<close>

theorem sgr_round_trip: "read_sgr (to_sgr_with_reset s) t = s"
  by (rule read_sgr_to_sgr)

section \<open>The alternate screen\<close>

text \<open>C18: Leaving the alternate screen restores the main screen: its visible rows, cursor, pending wrap,
  scrolling region, modes, history limit and current style are as they were when it was left, whatever
  was drawn on the alternate screen in between (with the same size and no other save of the cursor).\<close>

theorem alt_screen_restored:
  assumes s: "wf_screen s" "\<not> in_alt_screen (state s)" and e: "enter_alt_screen True s = Some e"
    and a: "wf_screen a" "in_alt_screen (state a)"
    and saved: "saved_grid (state a) = saved_grid (state e)" "saved_modes (state a) = saved_modes (state e)"
      "saved_scroll_region (state a) = saved_scroll_region (state e)"
      "saved_cursor_state (state a) = saved_cursor_state (state e)"
    and size: "cols (grid a) = cols (grid s)" "rows (grid a) = rows (grid s)"
  shows "returns (exit_alt_screen True a) (\<lambda>s'. wf_screen s' \<and> \<not> in_alt_screen (state s')
    \<and> visible_rows (grid s') = visible_rows (grid s) \<and> scrollback_rows (grid s') = scrollback_rows (grid a)
    \<and> cursor_pos (grid s') = cursor_pos (grid s) \<and> wrap_pending (grid s') = wrap_pending (grid s)
    \<and> scroll_region (grid s') = scroll_region (grid s) \<and> modes (grid s') = modes (grid s)
    \<and> scrollback_limit (grid s') = scrollback_limit (grid s) \<and> current_style (state s') = current_style (state s))"
proof -
  have "e = \<lparr>grid = alt_grid (grid s), state = alt_state (grid s) (state (save_cursor s))\<rparr>"
    using enter_alt_screen_eq[OF wf_screenD(2)[OF s(1)] s(2), of True] e by simp
  then show ?thesis
    using leave_alt_screen[OF s a] saved size by (simp add: alt_state_def)
qed

theorem alt_screen_restored_witness:
  "\<exists>e. enter_alt_screen True small_screen = Some e
     \<and> returns (exit_alt_screen True e) (\<lambda>s'. visible_rows (grid s') = visible_rows (grid small_screen))"
proof -
  have "\<not> in_alt_screen (state small_screen)" by (simp add: small_simps)
  note e = enter_alt_screen_eq[OF small_screen_grid this, of True]
  let ?e = "\<lparr>grid = alt_grid (grid small_screen), state = alt_state (grid small_screen) (state (save_cursor small_screen))\<rparr>"
  have "wf_screen ?e" using enter_alt_screen_safe[OF wf_at_self[OF small_screen_wf], of True] e by (simp add: wf_at_def)
  then have "returns (exit_alt_screen True ?e) (\<lambda>s'. visible_rows (grid s') = visible_rows (grid small_screen))"
    using alt_screen_restored[OF small_screen_wf _ e[simplified] , of ?e]
    by (auto simp: alt_state_def alt_grid_def small_simps Let_def elim!: returns_mono)
  then show ?thesis using e by auto
qed

section \<open>Rendering\<close>

text \<open>C19: A frame never panics and leaves the cache in agreement with the screen, so that a second
  frame of the unchanged screen writes nothing at all.\<close>

theorem second_frame_empty:
  assumes "grid_ok P g"
  shows "returns (render_screen H g ttl full c) (\<lambda>(out, c'). cache_synced H g ttl c'
    \<and> render_screen H g ttl False c' = Some ([], c'))"
  using render_screen_impl_returns[OF assms, of H ttl "[]" full c] render_screen_same[OF assms, of H ttl]
  by (auto simp: render_screen_def elim!: returns_mono)

theorem second_frame_empty_witness:
  "returns (render_screen (\<lambda>_. 0) (grid small_screen) [] True cache_new)
     (\<lambda>(out, c'). render_screen (\<lambda>_. 0) (grid small_screen) [] False c' = Some ([], c'))"
  using second_frame_empty[OF small_screen_grid, of "\<lambda>_. 0" "[]" True cache_new] by (auto elim!: returns_mono)

section \<open>History\<close>

text \<open>C20: Scrolling the main screen by a line never panics, moves the top row to the end of the history,
  keeps the newest rows within the limit and scrolls the region; the row joins the rows waiting for the
  client, behind those that already wait, and only when the history is full and all of it waits is the
  oldest one given up. On the alternate screen, below a top margin and without a history, no history
  changes.\<close>

theorem scroll_into_history:
  assumes "grid_ok P g" "scrollback_len g \<le> scrollback_limit g"
  shows "returns (scroll_up in_alt fill g) (\<lambda>g'.
    (if \<not> in_alt \<and> scroll_top g = 0 \<and> 0 < scrollback_limit g
     then scrollback_rows g' = drop (Suc (scrollback_len g) - scrollback_limit g) (scrollback_rows g @ [hd (visible_rows g)])
       \<and> visible_rows g' = region_up 0 (scroll_bottom g) (new_blank_row fill g) (visible_rows g)
       \<and> scrollback_len g' \<le> scrollback_limit g'
       \<and> pending_rows g' =
          (if scrollback_len g = scrollback_limit g \<and> pending_start g = 0 then tl (pending_rows g @ [hd (visible_rows g)])
           else pending_rows g @ [hd (visible_rows g)])
     else scrollback_rows g' = scrollback_rows g \<and> pending_rows g' = pending_rows g))"
proof -
  let ?g = "scroll_up_spec in_alt fill g"
  have "scrollback_limit (scroll_up_spec b fill g) = scrollback_limit g" for b by (simp add: scroll_up_spec_def Let_def)
  moreover have "scrollback_rows ?g = scrollback_rows g \<and> pending_rows ?g = pending_rows g"
    if "\<not> (\<not> in_alt \<and> scroll_top g = 0 \<and> 0 < scrollback_limit g)"
    using that assms(1) by (auto simp: scroll_up_spec_def Let_def scrollback_rows_def pending_rows_def grid_ok_def)
  ultimately show ?thesis
    using scroll_up_eq[OF assms(1), of in_alt fill] scroll_up_history[OF assms(1) _ _ _ assms(2), of in_alt fill]
      scroll_up_pending[OF assms(1) _ _ _ assms(2), of in_alt fill] by simp
qed

theorem scroll_into_history_witness:
  "returns (scroll_up False cell_default (grid small_screen)) (\<lambda>g'. scrollback_rows g' = [row_new 4] \<and> pending_rows g' = [row_new 4])"
proof -
  have "visible_rows (grid small_screen) = [row_new 4, row_new 4]" "scrollback_rows (grid small_screen) = []"
    "pending_rows (grid small_screen) = []"
    by (simp_all add: visible_rows_def scrollback_rows_def pending_rows_def small_simps Let_def numeral_2_eq_2)
  then show ?thesis
    using scroll_into_history[OF small_screen_grid, of False cell_default]
    by (auto simp: small_simps Let_def elim!: returns_mono)
qed

text \<open>C21: A frame for the client hands over exactly the rows that waited, in order and before the
  screen, and the passthrough sequences and notifications; afterwards nothing waits, so that nothing is
  handed over twice.\<close>

theorem frame_delivers_pending:
  assumes "wf_screen s"
  shows "returns (take_and_render H c s) (\<lambda>((out, pass), c', s').
    pass = pending_passthrough (state s) @ queued_notifications (state s)
    \<and> Some (out, c') = render_screen_impl H (grid s') (title (state s))
        (map (render_line (style_table (grid s))) (pending_rows (grid s))) (pending_rows (grid s) \<noteq> []) c
    \<and> wf_screen s' \<and> pending_rows (grid s') = [] \<and> pending_passthrough (state s') = [] \<and> queued_notifications (state s') = []
    \<and> scrollback_rows (grid s') = scrollback_rows (grid s) \<and> visible_rows (grid s') = visible_rows (grid s))"
proof -
  have "pending_rows (grid (taken s)) = []" "scrollback_rows (grid (taken s)) = scrollback_rows (grid s)"
    "visible_rows (grid (taken s)) = visible_rows (grid s)" "pending_passthrough (state (taken s)) = []"
    "queued_notifications (state (taken s)) = []"
    by (auto simp: taken_def pending_rows_def scrollback_rows_def visible_rows_def)
  then show ?thesis
    using take_and_render_eq[OF assms, of H c] taken_safe[OF assms] by (auto elim!: returns_mono)
qed

theorem frame_delivers_pending_witness:
  "returns (take_and_render (\<lambda>_. 0) cache_new small_screen) (\<lambda>((out, pass), c', s'). pass = [] \<and> pending_rows (grid s') = [])"
  using frame_delivers_pending[OF small_screen_wf, of "\<lambda>_. 0" cache_new]
  by (auto simp: small_simps elim!: returns_mono)

text \<open>C22: Resizing never panics and loses no history: growing brings the newest rows of the history
  back above the visible ones, as many as fit, and the rows are then cut or filled to the new size.\<close>

theorem resize_keeps_history:
  assumes "wf_screen s" "c \<le> u16_max" "r \<le> u16_max"
  shows "returns (screen_resize c r s) (\<lambda>s'. wf_screen s'
    \<and> scrollback_rows (grid s') = take (scrollback_len (grid s) - restore_rows r s) (scrollback_rows (grid s))
    \<and> visible_rows (grid s') = fit_rows (max c 1) (max r 1)
        (drop (scrollback_len (grid s) - restore_rows r s) (scrollback_rows (grid s)) @ visible_rows (grid s)))"
  using returns_conj[OF screen_resize_safe[OF assms] screen_resize_rows[OF assms]] .

theorem resize_keeps_history_witness:
  "returns (screen_resize 0 9 small_screen) (\<lambda>s'. wf_screen s' \<and> scrollback_rows (grid s') = [])"
  using resize_keeps_history[OF small_screen_wf, of 0 9]
  by (auto simp: scrollback_rows_def small_simps Let_def elim!: returns_mono)

section \<open>Clients of a session\<close>

text \<open>C23: In every reachable state of the attach protocol, whatever the interleaving of connects, drops
  of guards, a kill and the drop of the session, at most one client is not evicted, and it is the one
  that connected last.\<close>

theorem one_client:
  assumes "watch_ok borrow changed" "conn_reach borrow s"
    and "i < length (channels (att s))" "borrow (channels (att s) ! i)"
  shows "Suc i = length (channels (att s))"
  using one_sender_unique[OF conn_one_sender[OF assms(2)] assms(3)] assms(4) watch_okD(1)[OF assms(1)] by simp

text \<open>A channel with the documented behaviour, for the witnesses.\<close>

definition watch_changed :: "watch \<Rightarrow> bool option" where
  "watch_changed w = (if SendFalse \<in> set w then Some True else if DropSender \<in> set w then Some False else None)"

lemma watch_instance: "watch_ok unsent watch_changed"
  by (simp add: watch_ok_def watch_changed_def)

theorem one_client_witness: "Suc 0 = length (channels (att first_attached))"
  by (rule one_client[OF watch_instance first_attached_reach])
    (simp_all add: first_attached_def conn_new_def attach_new_def conn_defs)

text \<open>C24: While the newest client of a session is attached and no connect is under way, \<open>has_client\<close>
  is set, in every run in which no drop of a guard met a connect; and the flag is never left set once the
  newest guard is gone.\<close>

theorem flag_while_attached:
  assumes "watch_ok borrow changed" "conn_reach borrow s" "connecting s = NotConnecting" "\<not> removed s" "guards s \<noteq> []"
  shows "(last (guards s) = Attached \<and> \<not> overlap s \<longrightarrow> has_client (att s))
    \<and> (last (guards s) = Dropped \<longrightarrow> \<not> has_client (att s))"
  using conn_flag[of s] assms(2-) watch_okD(1)[OF assms(1)] by (auto simp: flag_ok_def no_stale_flag_def)

theorem flag_while_attached_witness: "has_client (att first_attached)"
  using flag_while_attached[OF watch_instance first_attached_reach]
  by (simp add: first_attached_def conn_new_def attach_new_def conn_defs)

text \<open>C25: The race. A guard that has found its client not evicted and stores the flag only after the
  next client has connected leaves a session with a client attached and \<open>has_client\<close> clear, so that the
  reader throws that client's lines away.\<close>

theorem flag_race:
  assumes "watch_ok borrow changed"
  shows "\<exists>s. conn_reach borrow s \<and> connecting s = NotConnecting \<and> \<not> removed s \<and> evict_tx (att s) = Some 1
     \<and> guards s = [Dropped, Attached] \<and> \<not> has_client (att s)"
  using race_reach race_state watch_okD(1)[OF assms] by blast

theorem flag_race_witness:
  "\<exists>s. conn_reach unsent s \<and> guards s = [Dropped, Attached] \<and> \<not> has_client (att s)"
  using flag_race[OF watch_instance] by blast

section \<open>The persistent reader\<close>

text \<open>C26: The responses written to the child, followed by the deferred ones, are a subsequence of those
  that waited and those the emulator produced: none is invented, repeated or overtaken, under any
  contention for the writer and any failure of a write.\<close>

theorem responses_in_order:
  assumes "persistent_reader_loop advance cwidth ts r = (out, r')"
  shows "subseq (r_written r' @ deferred_responses r')
    (r_written r @ deferred_responses r @ produced advance cwidth ts (r_screen r))"
  by (rule reader_order[OF assms])

abbreviation small_reader :: "unit reader" where
  "small_reader \<equiv> \<lparr>r_screen = emulator_new () 4 2 3, r_poisoned = False, r_written = [], deferred_responses = [''a''],
     r_alive = True, r_notified = 0\<rparr>"

theorem responses_in_order_witness:
  "\<exists>out r'. persistent_reader_loop print_parser narrow [\<lparr>t_read = Inr ''x'', t_client = True, t_lock = False, t_writable = 0\<rparr>] small_reader = (out, r')
     \<and> subseq (r_written r' @ deferred_responses r') ([] @ [''a''] @ produced print_parser narrow
         [\<lparr>t_read = Inr ''x'', t_client = True, t_lock = False, t_writable = 0\<rparr>] (emulator_new () 4 2 3))"
proof -
  let ?ts = "[\<lparr>t_read = Inr ''x'', t_client = True, t_lock = False, t_writable = 0\<rparr>]"
  obtain out r' where l: "persistent_reader_loop print_parser narrow ?ts small_reader = (out, r')" by fastforce
  from responses_in_order[OF l] l show ?thesis by auto
qed

text \<open>C27: One turn of the reader. When the writer is free, everything that waits is written in order
  (up to the first failed write) and nothing waits any more; when it is not, the newest 64 responses wait.\<close>

theorem turn_answers:
  assumes "reader_turn advance cwidth t r = (GoOn, r')"
  shows "\<exists>data new e. t_read t = Inr data \<and> read_screen advance cwidth (t_client t) data (r_screen r) = Some (new, e)
    \<and> r_screen r' = e \<and> r_notified r' = r_notified r + 1
    \<and> (if t_lock t
       then r_written r' = r_written r @ take (t_writable t) (deferred_responses r @ new) \<and> deferred_responses r' = []
       else r_written r' = r_written r
         \<and> deferred_responses r' = drop (length (deferred_responses r @ new) - MAX_DEFERRED) (deferred_responses r @ new))"
  using reader_turn_end[OF assms] by (auto simp: answer_eq)

text \<open>C28: The reader leaves the screen well formed or, when it panics, its mutex poisoned; it never lets
  more than 64 responses wait, and clears \<open>reader_alive\<close> exactly when it leaves its loop; a panic leaves
  \<open>reader_alive\<close> set. Nothing is asked of the parser or the output, and characters may have up to three
  columns.\<close>

theorem reader_invariant:
  assumes "reader_ok r" "width_ok cwidth" "r_alive r" "persistent_reader_loop advance cwidth ts r = (out, r')"
  shows "reader_ok r' \<and> r_alive r' = (out \<noteq> Break) \<and> (out = Panic \<longrightarrow> r_poisoned r')"
  using reader_loop_safe[OF assms(1-3), of advance ts] assms(4) by simp

lemma small_reader_ok: "reader_ok small_reader"
  by (simp add: reader_ok_def emulator_new_def small_screen_wf)

theorem reader_invariant_witness:
  "\<exists>r'. persistent_reader_loop print_parser narrow [\<lparr>t_read = Inr [], t_client = True, t_lock = True, t_writable = 0\<rparr>] small_reader = (Break, r')
     \<and> reader_ok r' \<and> \<not> r_alive r'"
proof -
  let ?ts = "[\<lparr>t_read = Inr [], t_client = True, t_lock = True, t_writable = 0\<rparr>]"
  have l: "persistent_reader_loop print_parser narrow ?ts small_reader = (Break, small_reader\<lparr>r_alive := False, r_notified := 1\<rparr>)"
    by (simp add: reader_turn_def)
  from reader_invariant[OF small_reader_ok narrow_ok _ l] l show ?thesis by simp
qed

lemma small_turn:
  "\<exists>r'. reader_turn print_parser narrow \<lparr>t_read = Inr ''x'', t_client = b, t_lock = True, t_writable = 9\<rparr> small_reader = (GoOn, r')"
proof -
  obtain new e where "read_screen print_parser narrow b ''x'' (emulator_new () 4 2 3) = Some (new, e)"
    using returns_or_returns[OF read_screen_safe[OF _ narrow_ok] narrow_fits[OF print_parser_titles], of "emulator_new () 4 2 3" b "''x''"]
    by (auto simp: emulator_new_def small_screen_wf elim!: returnsE)
  then show ?thesis by (simp add: reader_turn_def Let_def)
qed

theorem turn_answers_witness:
  "\<exists>r'. reader_turn print_parser narrow \<lparr>t_read = Inr ''x'', t_client = True, t_lock = True, t_writable = 9\<rparr> small_reader = (GoOn, r')
     \<and> deferred_responses r' = []"
proof -
  obtain r' where l: "reader_turn print_parser narrow \<lparr>t_read = Inr ''x'', t_client = True, t_lock = True, t_writable = 9\<rparr> small_reader = (GoOn, r')"
    using small_turn by blast
  from turn_answers[OF l] l show ?thesis by auto
qed

text \<open>C29: A title of more than 4096 bytes whose cut falls inside a character ends the reader with a
  panic: the screen's mutex is poisoned, and \<open>reader_alive\<close> stays set, so that the session still counts
  as alive as long as its child runs.\<close>

theorem title_panic_kills_reader:
  assumes "\<not> r_poisoned r" "t_read t = Inr data" "data \<noteq> []"
    "list_ex bad_title (actions_of advance data (parser (r_screen r)))"
  shows "persistent_reader_loop advance cwidth (t # ts) r = (Panic, r\<lparr>r_poisoned := True\<rparr>)
    \<and> r_alive (r\<lparr>r_poisoned := True\<rparr>) = r_alive r"
  using read_screen_bad[OF assms(4)] assms(1-3) by (simp add: reader_turn_def)

definition long_title :: bytes where
  "long_title = replicate 4095 (CHR ''a'') @ encode_utf8 233"

definition title_parser :: "unit \<Rightarrow> byte \<Rightarrow> unit \<times> action list" where
  "title_parser p b = ((), [OscDispatch [''0'', long_title] True])"

lemma long_title_bad: "bad_title (OscDispatch [''0'', long_title] True)"
proof -
  have valid: "utf8_valid (replicate n (CHR ''a''))" for n
    by (induction n) (simp_all add: utf8_valid.simps(2) char_len_def)
  have "utf8_valid long_title"
    unfolding long_title_def using valid by (subst utf8_valid_append) (simp_all add: scalar_def)
  moreover have "length (encode_utf8 233) = 2" "is_cont (encode_utf8 233 ! 1)" by (simp_all add: encode_utf8_def is_cont_def)
  then have "length long_title = 4097" "is_cont (long_title ! 4096)"
    by (simp_all add: long_title_def nth_append)
  moreover have "osc_number ''0'' = Some 0"
    by (simp add: osc_number_def parse_uint_def parse_digits_def utf8_valid.simps(2) char_len_def)
  ultimately show ?thesis by (simp add: is_char_boundary_def)
qed

theorem title_panic_kills_reader_witness:
  "persistent_reader_loop title_parser narrow [\<lparr>t_read = Inr ''x'', t_client = True, t_lock = True, t_writable = 0\<rparr>] small_reader
     = (Panic, small_reader\<lparr>r_poisoned := True\<rparr>)"
  using title_panic_kills_reader[where r = small_reader and data = "''x''" and advance = title_parser and cwidth = narrow and ts = "[]"
      and t = "\<lparr>t_read = Inr ''x'', t_client = True, t_lock = True, t_writable = 0\<rparr>"] long_title_bad
  by (simp add: title_parser_def)

section \<open>The registry\<close>

text \<open>The characters that the documentation and the error message allow, one by one.\<close>

abbreviation name_alphabet :: bytes where
  "name_alphabet \<equiv> ''abcdefghijklmnopqrstuvwxyzABCDEFGHIJKLMNOPQRSTUVWXYZ0123456789_-.''"

lemma alphabet_ranges: "map char_of ([97..<123] @ [65..<91] @ [48..<58 :: nat]) @ ''_-.'' = name_alphabet"
  by code_simp

lemma char_range: "hi \<le> 256 \<Longrightarrow> c \<in> set (map char_of [lo..<hi]) \<longleftrightarrow> lo \<le> bval c \<and> bval c < hi"
  by (auto simp: image_iff Bex_def)

lemma name_char_alphabet: "name_char c \<longleftrightarrow> c \<in> set name_alphabet"
proof -
  have "name_char c \<longleftrightarrow> (97 \<le> bval c \<and> bval c < 123 \<or> 65 \<le> bval c \<and> bval c < 91 \<or> 48 \<le> bval c \<and> bval c < 58) \<or> c \<in> set ''_-.''"
    unfolding name_char_def by auto
  also have "\<dots> \<longleftrightarrow> c \<in> set (map char_of ([97..<123] @ [65..<91] @ [48..<58 :: nat]) @ ''_-.'')"
    using char_range[of 123 c 97] char_range[of 91 c 65] char_range[of 58 c 48]
    by (simp only: map_append set_append Un_iff)
  finally show ?thesis unfolding alphabet_ranges .
qed
text \<open>C30: A name is accepted exactly when it has between 1 and 128 bytes and each is one of the lower and
  upper case letters of ASCII, the digits, the underscore, the hyphen and the dot, which are listed in
  full; the name that \<open>retach new\<close> generates is accepted.\<close>

theorem valid_names:
  "(validate_session_name nm = Inr u \<longleftrightarrow> 1 \<le> length nm \<and> length nm \<le> 128
      \<and> set nm \<subseteq> set ''abcdefghijklmnopqrstuvwxyzABCDEFGHIJKLMNOPQRSTUVWXYZ0123456789_-.'')
   \<and> validate_session_name (generate_name h) = Inr ()"
proof -
  have "list_all name_char nm \<longleftrightarrow> set nm \<subseteq> set name_alphabet"
    unfolding list_all_iff name_char_alphabet by blast
  moreover have "nm \<noteq> [] \<longleftrightarrow> 1 \<le> length nm" by (cases nm) simp_all
  ultimately show ?thesis using validate_ok[of nm u] generated_name_valid[of h] by simp
qed

text \<open>C31: Creating, attaching to, removing, collecting and draining sessions keep the registry's
  invariant: names are unique and valid, every session is filed under its name, its size is positive and
  its screen well formed.\<close>

theorem registry_invariant:
  assumes "manager_ok m" "c \<le> u16_max" "r \<le> u16_max"
  shows "manager_ok (snd (create spawn p0 nm c r history m)) \<and> manager_ok (snd (get_or_create spawn p0 nm c r history m))
    \<and> manager_ok (snd (remove_session nm m)) \<and> manager_ok (snd (take_dead_sessions m)) \<and> manager_ok (snd (drain_all m))"
  using create_ok[OF assms] get_or_create_ok[OF assms] remove_ok[OF assms(1)] take_dead_ok[OF assms(1)] drain_all_ok
  by blast

lemma small_manager_ok: "manager_ok [(''work'', small_session)]"
proof -
  have "list_all name_char ''work''" by code_simp
  then show ?thesis by (simp add: manager_ok_def small_session_ok validate_ok)
qed

theorem registry_invariant_witness:
  "manager_ok (snd (take_dead_sessions [(''work'', small_session)]))"
  using registry_invariant[OF small_manager_ok, of 0 0] by simp

section \<open>The server\<close>

text \<open>C32: Setting up a connection never panics, keeps the registry's invariant and touches no other
  session. It is refused without a trace, or leaves the client attached to the session of that name (a
  new one exactly when there was none; never an old one for \<open>CreateOnly\<close>, never a new one for
  \<open>AttachOnly\<close>) with its eviction channel quiet; when the resize fails, the flag is cleared again.\<close>

theorem setup_attaches:
  assumes "watch_ok borrow changed" "manager_ok m" "c \<le> u16_max" "r \<le> u16_max"
  shows "returns (setup_session borrow spawn p0 rz nm history c r mode m) (\<lambda>(res, m'). manager_ok m'
    \<and> (\<forall>k. k \<noteq> nm \<longrightarrow> map_of m' k = map_of m k)
    \<and> (case res of
         Refused e \<Rightarrow> m' = m
       | SetupFailed e \<Rightarrow> map_of m nm \<noteq> None \<and> (\<exists>s. map_of m' nm = Some s \<and> \<not> has_client (attach s))
       | Ready ch is_new \<Rightarrow> is_new = (map_of m nm = None) \<and> (mode = CreateOnly \<longrightarrow> is_new) \<and> (mode = AttachOnly \<longrightarrow> \<not> is_new)
           \<and> (\<exists>s. map_of m' nm = Some s \<and> has_client (attach s) \<and> evict_tx (attach s) = Some ch
                \<and> evict_event changed ch (attach s) = None)))"
  by (rule setup_session_ok[OF assms])

theorem setup_attaches_witness:
  "returns (setup_session unsent (\<lambda>_ _. Inl ''no pty'') () (\<lambda>_. None) ''work'' 100 80 24 AttachOnly [(''work'', small_session)])
     (\<lambda>(res, m'). manager_ok m')"
  using setup_attaches[OF watch_instance small_manager_ok, of 80 24 "\<lambda>_ _. Inl ''no pty''" "()" "\<lambda>_. None" "''work''" 100 AttachOnly]
  by (auto elim!: returns_mono)

text \<open>C33: Killing a session removes it and nothing else, and its client is told that the session ended,
  not that it was evicted.\<close>

theorem kill_ends_session:
  assumes "watch_ok borrow changed" "manager_ok m" "map_of m nm = Some s" "evict_tx (attach s) = Some ch"
    "ch < length (channels (attach s))" "evict_event changed ch (attach s) = None"
  shows "\<exists>s' m'. first_message ser (KillSession nm) leftover m = (answer_client ser (SessionKilled nm), Some s', m')
    \<and> manager_ok m' \<and> map_of m' = (map_of m)(nm := None) \<and> evict_event changed ch (attach s') = Some False"
  by (rule kill_session[OF assms])

abbreviation attached_session :: "unit session_t" where
  "attached_session \<equiv> small_session\<lparr>attach := \<lparr>has_client = True, evict_tx = Some 0, channels = [watch_new]\<rparr>\<rparr>"

theorem kill_ends_session_witness:
  "\<exists>s' m'. first_message (table_ser []) (KillSession ''work'') [] [(''work'', attached_session)] =
     (answer_client (table_ser []) (SessionKilled ''work''), Some s', m') \<and> map_of m' ''work'' = None"
proof -
  have "manager_ok [(''work'', attached_session)]"
    using small_manager_ok by (simp add: manager_ok_def session_ok_def emulator_new_def small_screen_wf)
  from kill_ends_session[OF watch_instance this, of "''work''" attached_session 0 "table_ser []" "[]"]
  show ?thesis by (auto simp: watch_new_def evict_event_def watch_changed_def)
qed


text \<open>A server that starts, creates a session, and is told to stop. When a client creates another session
  after the drain, that one is left.\<close>

abbreviation quiet_env :: server_env where
  "quiet_env \<equiv> \<lparr>sighup_error = None, socket_at = Inr ''/run/retach'', path_exists = False, answered = False,
     bind_error = (\<lambda>_. None), sigterm_error = None, sigint_error = None\<rparr>"

abbreviation a_run :: "unit server_event list \<Rightarrow> server_end \<times> sock_op list \<times> unit server_t" where
  "a_run evs \<equiv> run_server (\<lambda>_. Inr []) (\<lambda>_ _ _. Inr idle_pty) () quiet_env evs"

abbreviation stopping_run :: "unit server_event list \<Rightarrow> unit server_event list" where
  "stopping_run evs \<equiv> [ClientAccepted, SetUp ''work'' 100 80 24 CreateOnly, Signal SigTerm, Drain] @ evs @ [DropsOver]"

lemma fresh_setup:
  assumes "validate_session_name nm = Inr ()"
  shows "\<exists>x. setup_locked (\<lambda>_ _. Inr p) p0 nm history 80 24 CreateOnly [] = (Ready 0 True, AList.update nm x [])"
proof -
  obtain a where "connect attach_new = (0, a)"
    by (simp add: connect_def attach_new_def open_channel_def evict_previous_def set_flag_def Let_def)
  then show ?thesis
    by (simp add: setup_locked_def acquire_def get_def create_def assms session_new_def session_connect_def put_back_def
        AList.update_conv')
qed

lemma quiet_run: "a_run evs = (let s = serve (\<lambda>_. Inr []) (\<lambda>_ _ _. Inr idle_pty) () evs server_new
    in case stage s of Ended sg \<Rightarrow> (Stopped sg, [BindSocket, RemoveOnExit], s) | _ \<Rightarrow> (Running, [BindSocket], s))"
  by (cases "stage (serve (\<lambda>_. Inr []) (\<lambda>_ _ _. Inr idle_pty) () evs server_new)")
    (simp_all add: run_server_def socket_path_def claim_socket_def Let_def)

lemma serve_Nil: "serve ser spawn p0 [] s = s"
  by (simp add: serve_def)

lemma step_SetUp:
  assumes "setup_locked (spawn nm) p0 nm history c r mode (mgr s) = (Ready ch True, m)" "stage s = Serving \<or> stage s = Emptied sg"
  shows "server_step ser spawn p0 (SetUp nm history c r mode) s =
    s\<lparr>mgr := m, started := started s + 1, late := late s + (if stage s = Serving then 0 else 1)\<rparr>"
  using assms by (auto simp: server_step_def new_sessions_def)

lemma small_steps:
  "server_step ser spawn p0 ClientAccepted server_new = server_new\<lparr>handlers := 1\<rparr>"
  "stage s = Serving \<Longrightarrow> server_step ser spawn p0 (Signal sg) s = s\<lparr>stage := Stopping sg\<rparr>"
  "stage s = Emptied sg \<Longrightarrow> server_step ser spawn p0 DropsOver s = s\<lparr>stage := Ended sg\<rparr>"
  by (simp_all add: server_step_def server_new_def)

text \<open>The state after the drain of the first run.\<close>

definition drained_once :: "unit session_t \<Rightarrow> unit server_t" where
  "drained_once x = \<lparr>stage = Emptied SigTerm, mgr = [], handlers = 1, finished = [snd (session_drop x)], started = 1, late = 0\<rparr>"

lemma first_session:
  assumes "setup_locked (\<lambda>_ _. Inr idle_pty) () ''work'' 100 80 24 CreateOnly [] = (Ready 0 True, [(''work'', x)])"
  shows "serve ser (\<lambda>_ _ _. Inr idle_pty) () (stopping_run evs) server_new =
    serve ser (\<lambda>_ _ _. Inr idle_pty) () (evs @ [DropsOver]) (drained_once x)"
proof -
  let ?s1 = "server_new\<lparr>handlers := 1\<rparr> :: unit server_t"
  let ?s2 = "?s1\<lparr>mgr := [(''work'', x)], started := 1, late := 0\<rparr>"
  have "server_step ser (\<lambda>_ _ _. Inr idle_pty) () (SetUp ''work'' 100 80 24 CreateOnly) ?s1 = ?s2"
    using assms by (subst step_SetUp[where ch = 0 and m = "[(''work'', x)]"]) (simp_all add: server_new_def manager_new_def)
  moreover have "server_step ser (\<lambda>_ _ _. Inr idle_pty) () (Signal SigTerm) ?s2 = ?s2\<lparr>stage := Stopping SigTerm\<rparr>"
    by (rule small_steps(2)) (simp add: server_new_def)
  moreover have "server_step ser (\<lambda>_ _ _. Inr idle_pty) () Drain (?s2\<lparr>stage := Stopping SigTerm\<rparr>) = drained_once x"
    by (subst drain_step[where sg = SigTerm]) (simp_all add: server_new_def drained_once_def)
  ultimately show ?thesis by (simp only: append.simps serve_Cons small_steps(1))
qed


lemma late_session_is_left:
  "\<exists>s. a_run (stopping_run [SetUp ''play'' 100 80 24 CreateOnly]) = (Stopped SigTerm, [BindSocket, RemoveOnExit], s)
     \<and> map fst (mgr s) = [''play'']"
proof -
  have v: "validate_session_name ''work'' = Inr ()" "validate_session_name ''play'' = Inr ()" by code_simp+
  obtain x where x: "setup_locked (\<lambda>_ _. Inr idle_pty) () ''work'' 100 80 24 CreateOnly [] = (Ready 0 True, [(''work'', x)])"
    using fresh_setup[OF v(1), of idle_pty "()" 100] by auto
  obtain y where y: "setup_locked (\<lambda>_ _. Inr idle_pty) () ''play'' 100 80 24 CreateOnly [] = (Ready 0 True, [(''play'', y)])"
    using fresh_setup[OF v(2), of idle_pty "()" 100] by auto
  have "server_step (\<lambda>_. Inr []) (\<lambda>_ _ _. Inr idle_pty) () (SetUp ''play'' 100 80 24 CreateOnly) (drained_once x) =
      (drained_once x)\<lparr>mgr := [(''play'', y)], started := 2, late := 1\<rparr>"
    using y by (subst step_SetUp[where ch = 0 and m = "[(''play'', y)]"]) (simp_all add: drained_once_def)
  with first_session[OF x, of "\<lambda>_. Inr []" "[SetUp ''play'' 100 80 24 CreateOnly]"] show ?thesis
    by (simp add: quiet_run serve_Cons serve_Nil small_steps(3) drained_once_def)
qed

text \<open>C35: The clean-up of the client's terminal shows the cursor, which every frame hides while it draws,
  at the top left corner, takes the margins away, blanks every row, resets the style, and resets every
  mode a frame can have set except origin mode and the character sets, which stay as the session left
  them. The emulator is the terminal.\<close>

theorem cleanup_resets_modes:
  assumes "wf_screen s"
  shows "text_of (cleanup_screen @ cleanup_modes) = cleanup_terminal
    \<and> returns (foldm (perform cw) (cleanup_screen @ cleanup_modes) s) (\<lambda>s'. modes (grid s') =
        terminal_modes_default\<lparr>origin_mode := origin_mode (modes (grid s)), g0_charset := g0_charset (modes (grid s)),
          g1_charset := g1_charset (modes (grid s)), active_charset := active_charset (modes (grid s))\<rparr>
        \<and> cursor_visible (grid s') \<and> current_style (state s') = style_default
        \<and> cursor_pos (grid s') = (0, 0) \<and> \<not> wrap_pending (grid s') \<and> scroll_region (grid s') = (0, rows (grid s) - 1)
        \<and> length (visible_rows (grid s')) = rows (grid s)
        \<and> list_all (\<lambda>r. list_all (\<lambda>cl. cell_c cl = 32 \<and> cell_width cl = 1) (row_cells r) \<and> combining r = [])
            (visible_rows (grid s')))"
  using cleanup_text cleanup_result[OF assms] by (simp add: cleaned_def row_blank_def[abs_def])

theorem cleanup_resets_modes_witness:
  "returns (foldm (perform narrow) (cleanup_screen @ cleanup_modes) small_screen)
     (\<lambda>s'. cursor_key_mode (modes (grid s')) = False \<and> cursor_visible (grid s'))"
  using cleanup_resets_modes[OF small_screen_wf, of narrow] by (auto simp: terminal_modes_default_def elim!: returns_mono)

text \<open>C36: What the reader does while the history is being written is not sent: the bytes of the initial
  state do not depend on it, and afterwards nothing waits for the client, so that lines which scrolled
  off in that window never reach its terminal.\<close>

theorem initial_window_lost:
  assumes "wf_screen s" "codec_ok ser de" "initial_frame H s = Some ((hist, data), cache, s1)"
    "list_all (encodable ser) (Connected nm is_new # history_messages hist @ [ScreenUpdate data])"
    "between s1 = Some s2" "wf_screen s2"
  shows "\<exists>s3. send_initial_state ser H between False is_new nm s =
      Some ((wire ser (Connected nm is_new # history_messages hist @ [ScreenUpdate data]), Inr cache), s3)
    \<and> pending_rows (grid s3) = [] \<and> pending_passthrough (state s3) = []"
proof -
  have "pending_rows (grid (discard_pending s2)) = []" "pending_passthrough (state (discard_pending s2)) = []"
    using wf_screenD(2)[OF assms(6)]
    by (auto simp: discard_pending_def take_passthrough_def take_pending_scrollback_eq on_state_def pending_rows_def
        scrollback_rows_def grid_ok_def)
  then show ?thesis
    using send_initial_state_wire[OF assms(1-3), of nm is_new between s2] assms(4,5) by simp
qed

theorem initial_window_lost_witness:
  "\<exists>ser out cache s3. send_initial_state ser (\<lambda>_. 0) Some False True ''work'' small_screen = Some ((out, Inr cache), s3)
     \<and> pending_rows (grid s3) = []"
proof -
  obtain data cache s1 where f: "initial_frame (\<lambda>_. 0) small_screen = Some ((attach_lines small_screen, data), cache, s1)"
    "s1 = snd (take_queued_notifications small_screen)"
    using initial_frame_eq[OF small_screen_wf, of "\<lambda>_. 0"] by (auto elim!: returnsE)
  let ?ms = "Connected ''work'' True # history_messages (attach_lines small_screen) @ [ScreenUpdate data]"
  have "attach_lines small_screen = []" by (simp add: attach_lines_def scrollback_rows_def small_simps Let_def)
  then have c: "codec_ok (table_ser ?ms) (table_de ?ms)" by (intro table_codec) (simp add: history_messages_def)
  have "wf_screen s1" using f(2) take_queue_safe[OF small_screen_wf] by simp
  then show ?thesis using initial_window_lost[OF small_screen_wf c f(1) table_encodable, of Some s1] by blast
qed

section \<open>Starting\<close>

text \<open>C37: A directory is used for the sockets only if it is no symbolic link and belongs to the user, and
  its permissions are the owner's only unless setting them failed.\<close>

theorem socket_dir_trusted:
  assumes "fs_ok mkdir lstat chmod uid" "socket_dir_impl mkdir lstat chmod uid runtime_dir fs = (Inr dir, fs')"
  shows "dir = dir_path uid runtime_dir \<and> (\<exists>md. lstat dir fs' = Inr md \<and> md_kind md \<noteq> Symlink \<and> md_uid md = uid
    \<and> (perm_bits (md_mode md) = owner_only \<or> (\<exists>e. fst (chmod owner_only dir fs) = Inl e)))"
  by (rule socket_dir_checked[OF assms])

text \<open>A file system that is a map from paths to attributes.\<close>

abbreviation map_mkdir :: "32 word \<Rightarrow> path \<Rightarrow> (path \<Rightarrow> metadata option) \<Rightarrow> (mkdir_error + unit) \<times> (path \<Rightarrow> metadata option)" where
  "map_mkdir m p fs \<equiv> (if fs p = None then (Inr (), fs(p := Some \<lparr>md_kind = Directory, md_uid = 7, md_mode = m\<rparr>)) else (Inl AlreadyExists, fs))"

abbreviation map_lstat :: "path \<Rightarrow> (path \<Rightarrow> metadata option) \<Rightarrow> bytes + metadata" where
  "map_lstat p fs \<equiv> (case fs p of Some md \<Rightarrow> Inr md | None \<Rightarrow> Inl ''not found'')"

abbreviation map_chmod :: "32 word \<Rightarrow> path \<Rightarrow> (path \<Rightarrow> metadata option) \<Rightarrow> (bytes + unit) \<times> (path \<Rightarrow> metadata option)" where
  "map_chmod m p fs \<equiv> (case fs p of Some md \<Rightarrow> (Inr (), fs(p := Some (md\<lparr>md_mode := m\<rparr>))) | None \<Rightarrow> (Inl ''not found'', fs))"

lemma map_fs_ok: "fs_ok map_mkdir map_lstat map_chmod 7"
  by (auto simp: fs_ok_def split: option.splits)

theorem socket_dir_trusted_witness:
  "\<exists>fs'. socket_dir_impl map_mkdir map_lstat map_chmod 7 (Some ''/run'')
       [''/run/retach'' \<mapsto> \<lparr>md_kind = Directory, md_uid = 7, md_mode = 0x1ED\<rparr>] = (Inr ''/run/retach'', fs')
     \<and> (\<exists>md. map_lstat ''/run/retach'' fs' = Inr md \<and> md_uid md = 7)"
proof -
  let ?fs = "[''/run/retach'' \<mapsto> \<lparr>md_kind = Directory, md_uid = 7, md_mode = 0x1ED\<rparr>]"
  have "\<exists>fs'. socket_dir_impl map_mkdir map_lstat map_chmod 7 (Some ''/run'') ?fs = (Inr ''/run/retach'', fs')"
    by (simp add: socket_dir_impl_def dir_path_def path_join_def Let_def)
  then obtain fs' where r: "socket_dir_impl map_mkdir map_lstat map_chmod 7 (Some ''/run'') ?fs = (Inr ''/run/retach'', fs')" by blast
  from socket_dir_trusted[OF map_fs_ok r] r show ?thesis by blast
qed

text \<open>C38: However the steps of any number of launches and servers interleave, killed clients and servers
  included: unless a client left its launch while a server was starting, at most one server listens, and
  the socket file is its own.\<close>

theorem one_server:
  assumes "\<not> abandoned (launch_run evs launch_new)" "j < length (servers (launch_run evs launch_new))"
    "servers (launch_run evs launch_new) ! j = Listening"
  shows "sock_file (launch_run evs launch_new) = Some j
    \<and> (\<forall>k<length (servers (launch_run evs launch_new)). servers (launch_run evs launch_new) ! k = Listening \<longrightarrow> k = j)"
proof -
  note own = one_listener[OF launch_run_ok[OF launch_new_ok, of evs] assms(1)]
  have "k = j" if "k < length (servers (launch_run evs launch_new))" "servers (launch_run evs launch_new) ! k = Listening" for k
    using own[OF that] own[OF assms(2,3)] by simp
  then show ?thesis using own[OF assms(2,3)] by blast
qed

abbreviation one_launch :: "launch_event list" where
  "one_launch \<equiv> [Join, LaunchTurn 0, LaunchTurn 0, LaunchTurn 0, ServerTurn 0, ServerTurn 0, LaunchTurn 0]"

theorem one_server_witness:
  "servers (launch_run one_launch launch_new) = [Listening] \<and> sock_file (launch_run one_launch launch_new) = Some 0"
proof -
  have run: "\<not> abandoned (launch_run one_launch launch_new)" "servers (launch_run one_launch launch_new) = [Listening]"
    by (simp_all add: launch_step_def client_turn_def server_turn_def launch_moves launch_new_def answering_def eval_nat_numeral)
  from one_server[OF run(1), of 0] run(2) show ?thesis by simp
qed

text \<open>C39: When launches are killed while their servers start, two servers can end up listening: the one
  that finds the socket file stale removes it after the other has bound it, and binds it again.\<close>

theorem stale_socket_race:
  "\<exists>evs. servers (launch_run evs launch_new) = [Gone, Listening, Listening] \<and> sock_file (launch_run evs launch_new) = Some 2"
  using stale_race_end by blast

text \<open>C40: However \<open>connect\<close> ends, by a detach, the end of the session, a signal, an error or a panic of any
  of its tasks, the terminal has the settings it had before, provided setting them back works; and a
  refusal at any point before the server has accepted leaves the terminal untouched.\<close>

theorem terminal_restored:
  assumes "client_connect ser de makeraw nm history mode env s = Some (res, d, s')" "restore_err (phase env) = None"
  shows "settings s' = settings s
    \<and> (case res of Some (Inl (TerminalFails e)) \<Rightarrow> True | Some (Inl e) \<Rightarrow> s' = s | _ \<Rightarrow> True)"
  using client_connect_settings[OF assms(2,1)] client_connect_refused[of ser de makeraw nm history mode env s _ d s'] assms(1)
  by (auto split: option.split sum.split connect_error.split)

abbreviation connecting_env :: "bytes list \<Rightarrow> connect_env" where
  "connecting_env parts \<equiv> \<lparr>launching = \<lparr>first_dir = Inr ''/run'', second_dir = Inr ''/run'', connects = \<lambda>n. True, open_lock = None, flock = LockHeld, current_exe = None, open_log = None, spawn_server = None\<rparr>,
     stream_err = None, size_of_terminal = None, handshake_reads = map Inr parts,
     phase = \<lparr>get_err = None, enter_err = None, winch_err = None, signal_err = None, restore_err = None, phase_ends = MainPanics, relayed = []\<rparr>\<rparr>"

theorem terminal_restored_witness:
  "\<exists>ser de parts d s'. client_connect ser de (\<lambda>t. t + 1) ''work'' 100 CreateOnly (connecting_env parts)
       \<lparr>settings = 5 :: nat, backup = None, backup_poisoned = False, shown = []\<rparr> = Some (None, d, s') \<and> settings s' = 5"
proof -
  let ?req = "[Connect ''work'' 100 80 24 CreateOnly]" and ?ans = "[Connected ''work'' True]"
  let ?s = "\<lparr>settings = 5 :: nat, backup = None, backup_poisoned = False, shown = []\<rparr>"
  have "idle frame_reader_new" "unread frame_reader_new = []"
    by (simp_all add: idle_def fr_ok_def unread_def frame_reader_new_def decode_frame_def)
  moreover have "codec_ok (table_ser ?ans) (table_de ?ans)" by (rule table_codec) simp
  moreover have "encodable (table_ser ?ans) (Connected ''work'' True)" using table_encodable[of ?ans] by simp
  ultimately obtain parts l where h: "await_connected (table_de ?ans) (map Inr parts) frame_reader_new = Some (HsConnected ''work'' True l)"
    using await_connected_wire[of "table_ser ?ans" "table_de ?ans" "''work''" True frame_reader_new
        "map (\<lambda>b. [b]) (frame_of (table_ser ?ans) (Connected ''work'' True))" "[]"]
    by (auto simp: list_all_iff)
  have "encode (table_ser ?req) (Connect ''work'' 100 80 24 CreateOnly) = Inr (to_be_bytes 0)"
    by (simp add: encode_def table_ser_def)
  then have "client_connect (table_ser ?req) (table_de ?ans) (\<lambda>t. t + 1) ''work'' 100 CreateOnly (connecting_env parts) ?s
      = Some (None, to_be_bytes 0, snd (interactive (\<lambda>t. t + 1) (phase (connecting_env parts)) ?s))"
    using h by (simp add: client_connect_def ensure_server_running_def socket_path_def get_terminal_size_def interactive_def raw_enter_def Let_def)
  from terminal_restored[OF this] this show ?thesis by fastforce
qed

end
